(* ===== verification/Chat_Prelude.thy ===== *)
theory Chat_Prelude
  imports Main "HOL-Library.Word"
begin

text \<open>
  Shared vocabulary of the development.

  The C++ type \<open>std::string\<close> is a sequence of bytes, and so is the HOL type \<open>string\<close> (a list of
  8-bit \<open>char\<close>s): file contents, frame bodies, JSON texts and hash strings are all modelled by it.
  A position of \<open>unsigned char\<close> type is read with \<open>byte_of\<close>.  Unsigned 64-bit quantities that
  the code bounds before it computes with them are natural numbers; where the width matters the
  type \<open>u64\<close> is used.

  The theory also holds the generic material the components share: list windows (the effect of
  \<open>seek\<close> and \<open>write\<close> on a file), decimal printing and parsing, SQL-like row updates, and the
  two interface locales that several components implement: invariant systems and codecs.
\<close>

type_synonym u64 = "64 word"
type_synonym u16 = "16 word"
type_synonym u32 = "32 word"

named_theorems chat_simps \<open>equations that unfold the small helpers of the model\<close>
named_theorems inv_intros \<open>preservation lemmas: an operation keeps an invariant\<close>

definition byte_of :: "char \<Rightarrow> nat" where
  "byte_of c = of_char c"

lemma byte_of_less [simp]: "byte_of c < 256"
  by (simp add: byte_of_def)

lemma char_of_byte_of [simp]: "char_of (byte_of c) = c"
  by (simp add: byte_of_def)

lemma byte_of_char_of: "byte_of (char_of n) = n mod 256"
  by (simp add: byte_of_def)

lemma byte_of_char_of_less [simp]: "n < 256 \<Longrightarrow> byte_of (char_of n) = n"
  by (simp add: byte_of_char_of)

lemma byte_of_inject [simp]: "byte_of c = byte_of d \<longleftrightarrow> c = d"
  by (metis char_of_byte_of)

subsection \<open>Decimal strings\<close>

text \<open>
  \<open>std::to_string\<close> on unsigned and signed integers, and the digit-by-digit reading that
  \<open>std::stoull\<close> performs on a string of digits.
\<close>

definition digit_char :: "nat \<Rightarrow> char" where
  "digit_char d = char_of (48 + d)"

definition is_digit :: "char \<Rightarrow> bool" where
  "is_digit c \<longleftrightarrow> 48 \<le> byte_of c \<and> byte_of c \<le> 57"

definition digit_val :: "char \<Rightarrow> nat" where
  "digit_val c = byte_of c - 48"

fun to_string :: "nat \<Rightarrow> string" where
  "to_string n = (if n < 10 then [digit_char n] else to_string (n div 10) @ [digit_char (n mod 10)])"

declare to_string.simps [simp del]

definition to_string_int :: "int \<Rightarrow> string" where
  "to_string_int i = (if i < 0 then CHR ''-'' # to_string (nat (- i)) else to_string (nat i))"

definition read_digits :: "string \<Rightarrow> nat" where
  "read_digits s = foldl (\<lambda>n c. 10 * n + digit_val c) 0 s"

lemma is_digit_digit_char [simp]: "d < 10 \<Longrightarrow> is_digit (digit_char d)"
  by (simp add: is_digit_def digit_char_def)

lemma digit_val_digit_char [simp]: "d < 10 \<Longrightarrow> digit_val (digit_char d) = d"
  by (simp add: digit_val_def digit_char_def)

lemma to_string_nonempty [simp]: "to_string n \<noteq> []"
  by (subst to_string.simps) simp

lemma to_string_digits: "list_all is_digit (to_string n)"
proof (induction n rule: to_string.induct)
  case (1 n)
  then show ?case by (subst to_string.simps) simp
qed

lemma read_digits_to_string [simp]: "read_digits (to_string n) = n"
proof (induction n rule: to_string.induct)
  case (1 n)
  show ?case
  proof (cases "n < 10")
    case True
    then show ?thesis by (subst to_string.simps) (simp add: read_digits_def)
  next
    case False
    then have "read_digits (to_string n) = 10 * read_digits (to_string (n div 10)) + n mod 10"
      by (subst to_string.simps) (simp add: read_digits_def)
    with 1 False show ?thesis by simp
  qed
qed

lemma to_string_inject [simp]: "to_string m = to_string n \<longleftrightarrow> m = n"
  by (metis read_digits_to_string)

subsection \<open>Windows of a byte sequence\<close>

text \<open>
  Reading \<open>len\<close> bytes at an offset, and writing bytes at an offset: a write behind the end of the
  file fills the hole with zero bytes, a write inside keeps what is before and after it.
\<close>

definition window :: "nat \<Rightarrow> nat \<Rightarrow> 'a list \<Rightarrow> 'a list" where
  "window off len c = take len (drop off c)"

definition put_at :: "nat \<Rightarrow> string \<Rightarrow> string \<Rightarrow> string" where
  "put_at off d c = take off (c @ replicate (off - length c) (CHR 0x00)) @ d @ drop (off + length d) c"

lemma length_window: "length (window off len c) = min len (length c - off)"
  by (simp add: window_def)

lemma put_at_end: "length c = off \<Longrightarrow> put_at off d c = c @ d"
  by (simp add: put_at_def)

lemma put_at_cover:
  "off \<le> length c \<Longrightarrow> length c \<le> off + length d \<Longrightarrow> put_at off d c = take off c @ d"
  by (simp add: put_at_def)

lemma length_put_at: "length (put_at off d c) = max (off + length d) (length c)"
  by (simp add: put_at_def)

lemma take_put_at: "off \<le> length c \<Longrightarrow> take off (put_at off d c) = take off c"
  by (simp add: put_at_def)

lemma window_put_at: "window off (length d) (put_at off d c) = d"
  by (simp add: window_def put_at_def)

lemma take_add_window: "take (off + len) c = take off c @ window off len c"
  by (simp add: window_def take_add)

subsection \<open>Invariant systems\<close>

text \<open>
  A component that runs as a sequence of steps: the states reachable from an initial state and
  the rule that an invariant kept by every step holds in each of them.
\<close>

inductive reach :: "('s \<Rightarrow> bool) \<Rightarrow> ('s \<Rightarrow> 's \<Rightarrow> bool) \<Rightarrow> 's \<Rightarrow> bool"
  for ini :: "'s \<Rightarrow> bool" and stp :: "'s \<Rightarrow> 's \<Rightarrow> bool" where
  reach_init: "ini s \<Longrightarrow> reach ini stp s"
| reach_step: "reach ini stp s \<Longrightarrow> stp s t \<Longrightarrow> reach ini stp t"

locale invariant_system =
  fixes ini :: "'s \<Rightarrow> bool" and stp :: "'s \<Rightarrow> 's \<Rightarrow> bool" and inv :: "'s \<Rightarrow> bool"
  assumes inv_init: "ini s \<Longrightarrow> inv s"
    and inv_step: "inv s \<Longrightarrow> stp s t \<Longrightarrow> inv t"
begin

lemma inv_reach: "reach ini stp s \<Longrightarrow> inv s"
  by (induction rule: reach.induct) (auto intro: inv_init inv_step)

lemma inv_rtranclp: "stp\<^sup>*\<^sup>* s t \<Longrightarrow> inv s \<Longrightarrow> inv t"
  by (induction rule: rtranclp_induct) (auto intro: inv_step)

end

subsection \<open>Codecs\<close>

text \<open>
  An encoder with a partial decoder.  The provider promises that decoding inverts encoding on
  the values it accepts; the client may conclude that encoding is injective there and that a
  decoded encoding never yields a different value.
\<close>

locale codec =
  fixes enc :: "'a \<Rightarrow> 'b" and dec :: "'b \<Rightarrow> 'a option" and ok :: "'a \<Rightarrow> bool"
  assumes dec_enc: "ok x \<Longrightarrow> dec (enc x) = Some x"
begin

lemma enc_inj: "ok x \<Longrightarrow> ok y \<Longrightarrow> enc x = enc y \<Longrightarrow> x = y"
  by (metis dec_enc option.inject)

lemma dec_enc_unique: "ok x \<Longrightarrow> dec (enc x) = Some y \<Longrightarrow> y = x"
  by (simp add: dec_enc)

end

end
