(* ===== verification/Protocol_Ids.thy ===== *)
theory Protocol_Ids
  imports Chat_Prelude
begin

text \<open>
  The protocol numbers of \<open>proto/protocol_ids.h\<close>: message ids and the two error tables, and the
  ResourceServer's own enumeration shells of \<open>server/ResourceServer/include/const.h\<close>, whose
  members take their values from the shared tables.  \<open>ReqToRspId\<close> is the request/response
  pairing that the ResourceServer uses when it refuses a message.
\<close>

datatype (plugins only: code size) MsgId =
    MSG_GET_VARIFY_CODE | MSG_REG_USER | MSG_RESET_PWD | MSG_LOGIN_USER | MSG_REASSIGN_CHAT
  | MSG_CHAT_LOGIN | MSG_CHAT_LOGIN_RSP | MSG_HEART_BEAT_REQ | MSG_HEARTBEAT_RSP
  | MSG_NOTIFY_OFF_LINE
  | MSG_SEARCH_USER_REQ | MSG_SEARCH_USER_RSP | MSG_ADD_FRIEND_REQ | MSG_ADD_FRIEND_RSP
  | MSG_HANDLE_FRIEND_REQ | MSG_HANDLE_FRIEND_RSP
  | MSG_TEXT_CHAT_REQ | MSG_TEXT_CHAT_RSP | MSG_CREATE_PRIVATE_CHAT_REQ
  | MSG_CREATE_PRIVATE_CHAT_RSP
  | MSG_LOAD_CHAT_THREAD_REQ | MSG_LOAD_CHAT_THREAD_RSP | MSG_LOAD_CHAT_MSG_REQ
  | MSG_LOAD_CHAT_MSG_RSP | MSG_SYNC_USER_MESSAGE_REQ | MSG_SYNC_USER_MESSAGE_RSP
  | MSG_RESOURCE_LOGIN_REQ | MSG_RESOURCE_LOGIN_RSP | MSG_CREATE_RESOURCE_REQ
  | MSG_CREATE_RESOURCE_RSP | MSG_RESOURCE_CHUNK_UPLOAD_REQ | MSG_RESOURCE_CHUNK_UPLOAD_RSP
  | MSG_RESOURCE_UPLOAD_PROGRESS_REQ | MSG_RESOURCE_UPLOAD_PROGRESS_RSP
  | MSG_RESOURCE_DOWN_INFO_REQ | MSG_RESOURCE_DOWN_INFO_RSP
  | MSG_RESOURCE_CHUNK_DOWN_REQ | MSG_RESOURCE_CHUNK_DOWN_RSP
  | MSG_RESOURCE_INSTANT_PROOF_REQ | MSG_RESOURCE_INSTANT_PROOF_RSP
  | MSG_UPLOAD_HEAD_ICON_REQ | MSG_UPLOAD_HEAD_ICON_RSP
  | MSG_DOWN_LOAD_FILE_REQ | MSG_DOWN_LOAD_FILE_RSP
  | MSG_NOTIFY_USER_MESSAGE

fun msg_num :: "MsgId \<Rightarrow> nat" where
  "msg_num MSG_GET_VARIFY_CODE = 1001"
| "msg_num MSG_REG_USER = 1002"
| "msg_num MSG_RESET_PWD = 1003"
| "msg_num MSG_LOGIN_USER = 1004"
| "msg_num MSG_REASSIGN_CHAT = 1005"
| "msg_num MSG_CHAT_LOGIN = 1101"
| "msg_num MSG_CHAT_LOGIN_RSP = 1102"
| "msg_num MSG_HEART_BEAT_REQ = 1103"
| "msg_num MSG_HEARTBEAT_RSP = 1104"
| "msg_num MSG_NOTIFY_OFF_LINE = 1105"
| "msg_num MSG_SEARCH_USER_REQ = 1201"
| "msg_num MSG_SEARCH_USER_RSP = 1202"
| "msg_num MSG_ADD_FRIEND_REQ = 1203"
| "msg_num MSG_ADD_FRIEND_RSP = 1204"
| "msg_num MSG_HANDLE_FRIEND_REQ = 1205"
| "msg_num MSG_HANDLE_FRIEND_RSP = 1206"
| "msg_num MSG_TEXT_CHAT_REQ = 1301"
| "msg_num MSG_TEXT_CHAT_RSP = 1302"
| "msg_num MSG_CREATE_PRIVATE_CHAT_REQ = 1303"
| "msg_num MSG_CREATE_PRIVATE_CHAT_RSP = 1304"
| "msg_num MSG_LOAD_CHAT_THREAD_REQ = 1401"
| "msg_num MSG_LOAD_CHAT_THREAD_RSP = 1402"
| "msg_num MSG_LOAD_CHAT_MSG_REQ = 1403"
| "msg_num MSG_LOAD_CHAT_MSG_RSP = 1404"
| "msg_num MSG_SYNC_USER_MESSAGE_REQ = 1405"
| "msg_num MSG_SYNC_USER_MESSAGE_RSP = 1406"
| "msg_num MSG_RESOURCE_LOGIN_REQ = 1501"
| "msg_num MSG_RESOURCE_LOGIN_RSP = 1502"
| "msg_num MSG_CREATE_RESOURCE_REQ = 1503"
| "msg_num MSG_CREATE_RESOURCE_RSP = 1504"
| "msg_num MSG_RESOURCE_CHUNK_UPLOAD_REQ = 1505"
| "msg_num MSG_RESOURCE_CHUNK_UPLOAD_RSP = 1506"
| "msg_num MSG_RESOURCE_UPLOAD_PROGRESS_REQ = 1507"
| "msg_num MSG_RESOURCE_UPLOAD_PROGRESS_RSP = 1508"
| "msg_num MSG_RESOURCE_DOWN_INFO_REQ = 1509"
| "msg_num MSG_RESOURCE_DOWN_INFO_RSP = 1510"
| "msg_num MSG_RESOURCE_CHUNK_DOWN_REQ = 1511"
| "msg_num MSG_RESOURCE_CHUNK_DOWN_RSP = 1512"
| "msg_num MSG_RESOURCE_INSTANT_PROOF_REQ = 1513"
| "msg_num MSG_RESOURCE_INSTANT_PROOF_RSP = 1514"
| "msg_num MSG_UPLOAD_HEAD_ICON_REQ = 1601"
| "msg_num MSG_UPLOAD_HEAD_ICON_RSP = 1602"
| "msg_num MSG_DOWN_LOAD_FILE_REQ = 1603"
| "msg_num MSG_DOWN_LOAD_FILE_RSP = 1604"
| "msg_num MSG_NOTIFY_USER_MESSAGE = 1701"

definition kMaxMsgId :: nat where
  "kMaxMsgId = 2048"

datatype (plugins only: code size) ErrorCodes =
    Success | Error_Json | RPCFailed | VarifyExpired | VarifyCodeErr | UserExist | PasswdErr
  | EmailNotMatch | PasswdUpFailed | PasswdInvalid | TokenInvalid | UidInvalid | ServerBusy
  | ResourceInvalid | FileNotExists | FileSaveRedisFailed | CreateFilePathFailed
  | FileWritePermissionFailed | FileReadPermissionFailed | FileSeqInvalid | FileOffsetInvalid
  | FileReadFailed | RedisReadErr | ServerIpErr | MsgIdErr | FileHashMismatch | FileSizeExceeded
  | ResourceNotReady | ResourceForbidden | ResourceStateInvalid | FileContentMismatch
  | InstantProofInvalid

fun err_num :: "ErrorCodes \<Rightarrow> nat" where
  "err_num Success = 0"
| "err_num Error_Json = 2001"
| "err_num RPCFailed = 2002"
| "err_num VarifyExpired = 2003"
| "err_num VarifyCodeErr = 2004"
| "err_num UserExist = 2005"
| "err_num PasswdErr = 2006"
| "err_num EmailNotMatch = 2007"
| "err_num PasswdUpFailed = 2008"
| "err_num PasswdInvalid = 2009"
| "err_num TokenInvalid = 2010"
| "err_num UidInvalid = 2011"
| "err_num ServerBusy = 2016"
| "err_num ResourceInvalid = 2019"
| "err_num FileNotExists = 2101"
| "err_num FileSaveRedisFailed = 2102"
| "err_num CreateFilePathFailed = 2103"
| "err_num FileWritePermissionFailed = 2104"
| "err_num FileReadPermissionFailed = 2105"
| "err_num FileSeqInvalid = 2106"
| "err_num FileOffsetInvalid = 2107"
| "err_num FileReadFailed = 2108"
| "err_num RedisReadErr = 2109"
| "err_num ServerIpErr = 2110"
| "err_num MsgIdErr = 2111"
| "err_num FileHashMismatch = 2112"
| "err_num FileSizeExceeded = 2113"
| "err_num ResourceNotReady = 2114"
| "err_num ResourceForbidden = 2115"
| "err_num ResourceStateInvalid = 2116"
| "err_num FileContentMismatch = 2117"
| "err_num InstantProofInvalid = 2118"

text \<open>\<open>ReqToRspId\<close> of the ResourceServer: the C++ function returns 0 where the model returns \<open>None\<close>.\<close>

fun ReqToRspId :: "MsgId \<Rightarrow> MsgId option" where
  "ReqToRspId MSG_UPLOAD_HEAD_ICON_REQ = Some MSG_UPLOAD_HEAD_ICON_RSP"
| "ReqToRspId MSG_DOWN_LOAD_FILE_REQ = Some MSG_DOWN_LOAD_FILE_RSP"
| "ReqToRspId MSG_RESOURCE_CHUNK_UPLOAD_REQ = Some MSG_RESOURCE_CHUNK_UPLOAD_RSP"
| "ReqToRspId MSG_RESOURCE_UPLOAD_PROGRESS_REQ = Some MSG_RESOURCE_UPLOAD_PROGRESS_RSP"
| "ReqToRspId MSG_RESOURCE_DOWN_INFO_REQ = Some MSG_RESOURCE_DOWN_INFO_RSP"
| "ReqToRspId MSG_RESOURCE_CHUNK_DOWN_REQ = Some MSG_RESOURCE_CHUNK_DOWN_RSP"
| "ReqToRspId MSG_RESOURCE_INSTANT_PROOF_REQ = Some MSG_RESOURCE_INSTANT_PROOF_RSP"
| "ReqToRspId _ = None"

text \<open>
  The number on the wire is looked up in the table of members; the tables have no double entry, so
  a number names one message.
\<close>

definition all_msgs :: "MsgId list" where
  "all_msgs = [
    MSG_GET_VARIFY_CODE, MSG_REG_USER, MSG_RESET_PWD, MSG_LOGIN_USER, MSG_REASSIGN_CHAT,
    MSG_CHAT_LOGIN, MSG_CHAT_LOGIN_RSP, MSG_HEART_BEAT_REQ, MSG_HEARTBEAT_RSP,
    MSG_NOTIFY_OFF_LINE, MSG_SEARCH_USER_REQ, MSG_SEARCH_USER_RSP, MSG_ADD_FRIEND_REQ,
    MSG_ADD_FRIEND_RSP, MSG_HANDLE_FRIEND_REQ, MSG_HANDLE_FRIEND_RSP, MSG_TEXT_CHAT_REQ,
    MSG_TEXT_CHAT_RSP, MSG_CREATE_PRIVATE_CHAT_REQ, MSG_CREATE_PRIVATE_CHAT_RSP,
    MSG_LOAD_CHAT_THREAD_REQ, MSG_LOAD_CHAT_THREAD_RSP, MSG_LOAD_CHAT_MSG_REQ,
    MSG_LOAD_CHAT_MSG_RSP, MSG_SYNC_USER_MESSAGE_REQ, MSG_SYNC_USER_MESSAGE_RSP,
    MSG_RESOURCE_LOGIN_REQ, MSG_RESOURCE_LOGIN_RSP, MSG_CREATE_RESOURCE_REQ,
    MSG_CREATE_RESOURCE_RSP, MSG_RESOURCE_CHUNK_UPLOAD_REQ, MSG_RESOURCE_CHUNK_UPLOAD_RSP,
    MSG_RESOURCE_UPLOAD_PROGRESS_REQ, MSG_RESOURCE_UPLOAD_PROGRESS_RSP,
    MSG_RESOURCE_DOWN_INFO_REQ, MSG_RESOURCE_DOWN_INFO_RSP, MSG_RESOURCE_CHUNK_DOWN_REQ,
    MSG_RESOURCE_CHUNK_DOWN_RSP, MSG_RESOURCE_INSTANT_PROOF_REQ, MSG_RESOURCE_INSTANT_PROOF_RSP,
    MSG_UPLOAD_HEAD_ICON_REQ, MSG_UPLOAD_HEAD_ICON_RSP, MSG_DOWN_LOAD_FILE_REQ,
    MSG_DOWN_LOAD_FILE_RSP, MSG_NOTIFY_USER_MESSAGE]"

definition all_errs :: "ErrorCodes list" where
  "all_errs = [
    Success, Error_Json, RPCFailed, VarifyExpired, VarifyCodeErr, UserExist, PasswdErr,
    EmailNotMatch, PasswdUpFailed, PasswdInvalid, TokenInvalid, UidInvalid, ServerBusy,
    ResourceInvalid, FileNotExists, FileSaveRedisFailed, CreateFilePathFailed,
    FileWritePermissionFailed, FileReadPermissionFailed, FileSeqInvalid, FileOffsetInvalid,
    FileReadFailed, RedisReadErr, ServerIpErr, MsgIdErr, FileHashMismatch, FileSizeExceeded,
    ResourceNotReady, ResourceForbidden, ResourceStateInvalid, FileContentMismatch,
    InstantProofInvalid]"

definition msg_of_num :: "nat \<Rightarrow> MsgId option" where
  "msg_of_num n = find (\<lambda>m. msg_num m = n) all_msgs"

lemma in_all_msgs: "m \<in> set all_msgs"
  by (cases m) (simp_all add: all_msgs_def)

lemma in_all_errs: "e \<in> set all_errs"
  by (cases e) (simp_all add: all_errs_def)

lemma distinct_msg_nums: "distinct (map msg_num all_msgs)"
  by (simp add: all_msgs_def)

lemma distinct_err_nums: "distinct (map err_num all_errs)"
  by (simp add: all_errs_def)

lemma msg_num_inj: "msg_num a = msg_num b \<Longrightarrow> a = b"
  using distinct_msg_nums in_all_msgs by (metis distinct_map inj_onD)

lemma err_num_inj: "err_num a = err_num b \<Longrightarrow> a = b"
  using distinct_err_nums in_all_errs by (metis distinct_map inj_onD)

lemma msg_of_num_msg_num [simp]: "msg_of_num (msg_num m) = Some m"
proof -
  have "find (\<lambda>k. msg_num k = msg_num m) all_msgs \<noteq> None"
    using in_all_msgs [of m] by (auto simp: find_None_iff)
  then show ?thesis
    by (auto simp: msg_of_num_def find_Some_iff dest: msg_num_inj)
qed

interpretation msg_codec: codec msg_num msg_of_num "\<lambda>_. True"
  by unfold_locales simp

lemma msg_num_bound: "msg_num m \<le> kMaxMsgId"
  by (cases m) (simp_all add: kMaxMsgId_def)

lemma err_num_range: "err_num e = 0 \<or> 2001 \<le> err_num e \<and> err_num e \<le> 2118"
  by (cases e) simp_all

lemma ReqToRspId_pairs: "ReqToRspId q = Some r \<Longrightarrow> odd (msg_num q) \<and> msg_num r = Suc (msg_num q)"
  by (cases q) auto

end
