(* ===== verification/Resource_Wire.thy ===== *)
theory Resource_Wire
  imports Chat_Prelude Protocol_Ids
begin

unbundle bit_operations_syntax

text \<open>
  The resource wire protocol of \<open>proto/resource_wire.h\<close> and the 6-byte TCP header that
  \<open>SendNode\<close> writes (\<open>server/ResourceServer/src/MsgNode.cpp\<close>) and \<open>CSession::AsyncReadHead\<close>
  validates (\<open>server/ResourceServer/src/CSession.cpp\<close>).

  An output argument of the C++ code that may be a null pointer is an option: \<open>None\<close> is the null
  pointer, \<open>Some v\<close> a pointer to a string with value \<open>v\<close>.  Each function returns its boolean and
  the output arguments after the call.
\<close>

subsection \<open>Binary frames\<close>

definition kResourceChunkSize :: nat where
  "kResourceChunkSize = 256 * 1024"

definition kMaxMetaLen :: nat where
  "kMaxMetaLen = 8 * 1024"

definition kMaxFrameBody :: nat where
  "kMaxFrameBody = 2 + 8 * 1024 + kResourceChunkSize"

lemmas wire_consts = kResourceChunkSize_def kMaxMetaLen_def kMaxFrameBody_def

text \<open>The two big-endian bytes of a 16-bit length, as the initialiser of \<open>head\<close> computes them.\<close>

definition head2 :: "u16 \<Rightarrow> string" where
  "head2 meta_len = [char_of (unat (drop_bit 8 meta_len AND 0xFF)), char_of (unat (meta_len AND 0xFF))]"

definition EncodeFrame :: "string \<Rightarrow> string \<Rightarrow> string option \<Rightarrow> bool \<times> string option" where
  "EncodeFrame meta raw out =
     (case out of None \<Rightarrow> (False, out)
      | Some _ \<Rightarrow>
          if meta = [] \<or> kMaxMetaLen < length meta then (False, out)
          else if kResourceChunkSize < length raw then (False, out)
          else (let total = 2 + length meta + length raw in
            if kMaxFrameBody < total then (False, out)
            else (True, Some (head2 (word_of_nat (length meta)) @ meta @ raw))))"

definition PeekMetaLen :: "string option \<Rightarrow> u16 option \<Rightarrow> bool \<times> u16 option" where
  "PeekMetaLen buf meta_len =
     (case (buf, meta_len) of
        (Some b, Some _) \<Rightarrow>
          if length b < 2 then (False, meta_len)
          else (let hi = byte_of (b ! 0); lo = byte_of (b ! 1)
                in (True, Some (word_of_nat (push_bit 8 hi OR lo))))
      | _ \<Rightarrow> (False, meta_len))"

definition DecodeFrame ::
  "string \<Rightarrow> string option \<Rightarrow> string option \<Rightarrow> bool \<times> string option \<times> string option" where
  "DecodeFrame frame meta raw =
     (if length frame < 3 \<or> kMaxFrameBody < length frame then (False, meta, raw)
      else (case PeekMetaLen (Some frame) (Some 0) of
          (False, _) \<Rightarrow> (False, meta, raw)
        | (True, ml) \<Rightarrow>
          (let meta_len = unat (the ml); header = 2 in
           if meta_len = 0 \<or> kMaxMetaLen < meta_len then (False, meta, raw)
           else if length frame - header < meta_len then (False, meta, raw)
           else (let raw_len = length frame - header - meta_len in
             if kResourceChunkSize < raw_len then (False, meta, raw)
             else (True, map_option (\<lambda>_. window header meta_len frame) meta,
                         map_option (\<lambda>_. window (header + meta_len) raw_len frame) raw)))))"

subsection \<open>The TCP header\<close>

definition HEAD_TOTAL_LEN :: nat where
  "HEAD_TOTAL_LEN = 6"

definition kUnauthedMaxBodyLen :: nat where
  "kUnauthedMaxBodyLen = 4096"

definition be_bytes16 :: "u16 \<Rightarrow> string" where
  "be_bytes16 w = [char_of (unat (drop_bit 8 w AND 0xFF)), char_of (unat (w AND 0xFF))]"

definition be_bytes32 :: "u32 \<Rightarrow> string" where
  "be_bytes32 w = [char_of (unat (drop_bit 24 w AND 0xFF)), char_of (unat (drop_bit 16 w AND 0xFF)),
                   char_of (unat (drop_bit 8 w AND 0xFF)), char_of (unat (w AND 0xFF))]"

text \<open>
  \<open>SendNode\<close>: message type and length in network byte order, then the body.  \<open>msg_type\<close> is the
  \<open>short\<close>, \<open>length msg\<close> the \<open>int\<close> that are written.
\<close>

definition SendNode :: "string \<Rightarrow> u16 \<Rightarrow> string" where
  "SendNode msg msg_type = be_bytes16 msg_type @ be_bytes32 (word_of_nat (length msg)) @ msg"

definition be_read :: "string \<Rightarrow> nat" where
  "be_read bs = foldl (\<lambda>n c. 256 * n + byte_of c) 0 bs"

datatype head_verdict = HeadClose | HeadIgnore | HeadRead nat nat \<comment> \<open>type and body length\<close>

text \<open>
  The callback of \<open>AsyncReadHead\<close> once the read completed: \<open>ec\<close> is the error flag, \<open>head\<close> the
  bytes received.  \<open>HeadRead\<close> allocates the receive node and starts reading the body.
\<close>

definition AsyncReadHead_cb :: "bool \<Rightarrow> bool \<Rightarrow> bool \<Rightarrow> string \<Rightarrow> head_verdict" where
  "AsyncReadHead_cb ec is_open is_authed head =
     (if ec then HeadClose
      else if length head < HEAD_TOTAL_LEN then HeadClose
      else if \<not> is_open then HeadIgnore
      else (let msg_type = be_read (take 2 head) in
        if kMaxMsgId < msg_type then HeadClose
        else (let msg_len = be_read (take 4 (drop 2 head)) in
          if msg_len = 0 \<or> kMaxFrameBody < msg_len then HeadClose
          else if \<not> is_authed \<and> kUnauthedMaxBodyLen < msg_len then HeadClose
          else HeadRead msg_type msg_len)))"

subsection \<open>Bytes of words\<close>

lemma push_bit_or_bytes:
  assumes "lo < 256"
  shows "push_bit 8 hi OR lo = 256 * hi + (lo::nat)"
proof -
  have "push_bit 8 hi + take_bit 8 lo = push_bit 8 hi OR take_bit 8 lo"
    by (rule disjunctive_add) (auto simp: bit_simps)
  then show ?thesis using assms by (simp add: push_bit_nat_def take_bit_nat_eq_self)
qed

lemma unat_low_byte: "8 < LENGTH('a) \<Longrightarrow> unat (w AND 0xFF) = unat w mod 256" for w :: "'a::len word"
proof -
  assume "8 < LENGTH('a)"
  moreover have "w AND 0xFF = take_bit 8 w"
    by (simp add: take_bit_eq_mask mask_eq_exp_minus_1)
  ultimately show ?thesis by (simp add: unsigned_take_bit_eq take_bit_nat_def)
qed

lemma unat_byte_at:
  "8 < LENGTH('a) \<Longrightarrow> unat (drop_bit n w AND 0xFF) = unat w div 2 ^ n mod 256" for w :: "'a::len word"
  by (simp add: unat_low_byte unat_drop_bit_eq drop_bit_nat_def)

lemma byte_unfold: "n mod 256 + 256 * (n div 256 mod m) = n mod (256 * m)" for n :: nat
  by (simp add: mod_mult2_eq)

lemma be_read_be_bytes16: "be_read (be_bytes16 w) = unat w"
proof -
  have "unat w < 65536" using unsigned_less [of w] by simp
  then have "256 * (unat w div 256 mod 256) + unat w mod 256 = unat w"
    using byte_unfold [of "unat w" 256] by simp
  then show ?thesis
    by (simp add: be_read_def be_bytes16_def byte_of_char_of unat_low_byte unat_drop_bit_eq drop_bit_nat_def)
qed

lemma be_read_be_bytes32: "be_read (be_bytes32 w) = unat w"
proof -
  let ?n = "unat w"
  have "?n < 4294967296" using unsigned_less [of w] by simp
  then have top: "?n div 16777216 mod 256 = ?n div 16777216" by simp
  have b3: "256 * (?n div 16777216) + ?n div 65536 mod 256 = ?n div 65536"
    using mult_div_mod_eq [of 256 "?n div 65536"] by (simp add: div_mult2_eq [symmetric])
  have b2: "256 * (?n div 65536) + ?n div 256 mod 256 = ?n div 256"
    using mult_div_mod_eq [of 256 "?n div 256"] by (simp add: div_mult2_eq [symmetric])
  have "be_read (be_bytes32 w) =
      256 * (256 * (256 * (?n div 16777216 mod 256) + ?n div 65536 mod 256) + ?n div 256 mod 256)
      + ?n mod 256"
    by (simp add: be_read_def be_bytes32_def byte_of_char_of unat_low_byte unat_drop_bit_eq drop_bit_nat_def)
  then show ?thesis by (simp only: top b3 b2 mult_div_mod_eq)
qed

lemma head2_eq: "head2 w = be_bytes16 w"
  by (simp add: head2_def be_bytes16_def)

lemma length_head2 [simp]: "length (head2 w) = 2"
  by (simp add: head2_def)

lemma PeekMetaLen_two:
  "PeekMetaLen (Some (a # b # rest)) (Some l) = (True, Some (word_of_nat (256 * byte_of a + byte_of b)))"
  by (simp add: PeekMetaLen_def Let_def push_bit_or_bytes)

lemma PeekMetaLen_head2: "PeekMetaLen (Some (head2 w @ rest)) (Some l) = (True, Some w)"
proof -
  have "256 * byte_of (char_of (unat (drop_bit 8 w AND 0xFF))) + byte_of (char_of (unat (w AND 0xFF))) = unat w"
    using be_read_be_bytes16 [of w] by (simp add: be_read_def be_bytes16_def)
  then show ?thesis
    unfolding head2_def append_Cons append_Nil PeekMetaLen_two by (simp del: of_nat_add of_nat_mult)
qed

lemma head2_bytes: "head2 (word_of_nat (256 * byte_of a + byte_of b)) = [a, b]"
proof -
  let ?n = "256 * byte_of a + byte_of b"
  have "?n < 65536" using byte_of_less [of a] byte_of_less [of b] by linarith
  then have n: "unat (word_of_nat ?n :: u16) = ?n" by (simp add: unat_of_nat del: of_nat_add of_nat_mult)
  have "unat (drop_bit 8 (word_of_nat ?n :: u16) AND 0xFF) = byte_of a"
    unfolding unat_byte_at [where 'a = 16, simplified] n by simp
  moreover have "unat ((word_of_nat ?n :: u16) AND 0xFF) = byte_of b"
    unfolding unat_low_byte [where 'a = 16, simplified] n by simp
  ultimately show ?thesis
    unfolding head2_def by (simp only: char_of_byte_of)
qed

subsection \<open>Frame round trip\<close>

definition frame_ok :: "string \<times> string \<Rightarrow> bool" where
  "frame_ok p \<longleftrightarrow> fst p \<noteq> [] \<and> length (fst p) \<le> kMaxMetaLen \<and> length (snd p) \<le> kResourceChunkSize"

lemma EncodeFrame_iff:
  "fst (EncodeFrame meta raw (Some old)) \<longleftrightarrow> frame_ok (meta, raw)"
  by (auto simp: EncodeFrame_def frame_ok_def Let_def wire_consts)

lemma EncodeFrame_value:
  "frame_ok (meta, raw) \<Longrightarrow>
   EncodeFrame meta raw (Some old) = (True, Some (head2 (word_of_nat (length meta)) @ meta @ raw))"
  by (auto simp: EncodeFrame_def frame_ok_def Let_def wire_consts)

lemma EncodeFrame_failure_keeps_out:
  "\<not> fst (EncodeFrame meta raw out) \<Longrightarrow> snd (EncodeFrame meta raw out) = out"
  by (auto simp: EncodeFrame_def Let_def split: option.splits)

lemma DecodeFrame_failure_keeps_out:
  "\<not> fst (DecodeFrame f meta raw) \<Longrightarrow> snd (DecodeFrame f meta raw) = (meta, raw)"
  by (auto simp: DecodeFrame_def Let_def split: prod.splits bool.splits if_splits)

lemma unat_meta_len: "length meta \<le> kMaxMetaLen \<Longrightarrow> unat (word_of_nat (length meta) :: u16) = length meta"
  by (simp add: wire_consts unat_of_nat)

lemma DecodeFrame_encoded:
  assumes "frame_ok (meta, raw)"
  shows "DecodeFrame (head2 (word_of_nat (length meta)) @ meta @ raw) (Some m0) (Some r0)
         = (True, Some meta, Some raw)"
  using assms unat_meta_len [of meta]
  by (auto simp: DecodeFrame_def PeekMetaLen_head2 Let_def frame_ok_def window_def wire_consts Suc_le_eq)

text \<open>A frame the decoder accepts is exactly the encoding of what it returns.\<close>

lemma DecodeFrame_sound:
  assumes "DecodeFrame f (Some m0) (Some r0) = (True, Some meta, Some raw)"
  shows "frame_ok (meta, raw) \<and> f = head2 (word_of_nat (length meta)) @ meta @ raw"
proof -
  from assms have "3 \<le> length f" by (auto simp: DecodeFrame_def split: if_splits)
  then obtain a b rest where f: "f = a # b # rest" by (cases f rule: remdups_adj.cases) auto
  let ?n = "256 * byte_of a + byte_of b"
  have "?n < 65536" using byte_of_less [of a] byte_of_less [of b] by linarith
  then have n: "unat (word_of_nat ?n :: u16) = ?n" by (simp add: unat_of_nat del: of_nat_add of_nat_mult)
  from assms have b: "?n \<noteq> 0" "?n \<le> kMaxMetaLen" "?n \<le> length rest" "length rest - ?n \<le> kResourceChunkSize"
    "meta = take ?n rest" "raw = drop ?n rest"
    unfolding f DecodeFrame_def PeekMetaLen_two Let_def
    by (auto simp: n window_def numeral_2_eq_2 simp del: of_nat_add of_nat_mult split: if_splits)
  then have "length meta = ?n" by simp
  then have "head2 (word_of_nat (length meta)) = [a, b]" by (simp only: head2_bytes)
  with b f show ?thesis by (auto simp: frame_ok_def)
qed

text \<open>\<open>EncodeFrame\<close> and \<open>DecodeFrame\<close> as a codec on pairs of meta and raw bytes.\<close>

definition frame_enc :: "string \<times> string \<Rightarrow> string" where
  "frame_enc p = the (snd (EncodeFrame (fst p) (snd p) (Some [])))"

definition frame_dec :: "string \<Rightarrow> (string \<times> string) option" where
  "frame_dec f = (case DecodeFrame f (Some []) (Some []) of
     (True, Some m, Some r) \<Rightarrow> Some (m, r) | _ \<Rightarrow> None)"

interpretation frame: codec frame_enc frame_dec frame_ok
  by unfold_locales (auto simp: frame_enc_def frame_dec_def EncodeFrame_value DecodeFrame_encoded)

subsection \<open>Header round trip\<close>

lemma AsyncReadHead_SendNode:
  assumes "t \<le> kMaxMsgId" and "msg \<noteq> []" and "length msg \<le> kMaxFrameBody"
    and "authed \<or> length msg \<le> kUnauthedMaxBodyLen"
  shows "AsyncReadHead_cb False True authed (take HEAD_TOTAL_LEN (SendNode msg (word_of_nat t)))
         = HeadRead t (length msg)"
proof -
  have "be_read (be_bytes16 (word_of_nat t)) = t"
    using assms(1) by (simp add: be_read_be_bytes16 unat_of_nat kMaxMsgId_def)
  moreover have "be_read (be_bytes32 (word_of_nat (length msg))) = length msg"
    using assms(3) by (simp add: be_read_be_bytes32 unat_of_nat wire_consts)
  moreover have "length (be_bytes16 (word_of_nat t)) = 2" "\<And>w. length (be_bytes32 w) = 4"
    by (simp_all add: be_bytes16_def be_bytes32_def)
  ultimately show ?thesis
    using assms by (auto simp: AsyncReadHead_cb_def SendNode_def HEAD_TOTAL_LEN_def Let_def)
qed

lemma AsyncReadHead_budget:
  "AsyncReadHead_cb ec op authed h = HeadRead t n \<Longrightarrow>
   op \<and> t \<le> kMaxMsgId \<and> 0 < n \<and> n \<le> kMaxFrameBody \<and> (authed \<or> n \<le> kUnauthedMaxBodyLen)"
  by (auto simp: AsyncReadHead_cb_def Let_def split: if_splits)

subsection \<open>Properties\<close>

text \<open>
  C22.  The binary frame codec is exact: \<open>DecodeFrame\<close> accepts a byte string with a given result if and
  only if \<open>EncodeFrame\<close> produces exactly this byte string from that result.  So every encoded frame is
  decoded to what was encoded, and nothing else is ever accepted.
\<close>

theorem wire_frame_exact:
  "DecodeFrame f (Some m0) (Some r0) = (True, Some meta, Some raw)
   \<longleftrightarrow> EncodeFrame meta raw (Some old) = (True, Some f)"
proof
  assume "DecodeFrame f (Some m0) (Some r0) = (True, Some meta, Some raw)"
  then show "EncodeFrame meta raw (Some old) = (True, Some f)"
    using DecodeFrame_sound EncodeFrame_value by blast
next
  assume enc: "EncodeFrame meta raw (Some old) = (True, Some f)"
  then have "frame_ok (meta, raw)" using EncodeFrame_iff [of meta raw old] by simp
  with enc show "DecodeFrame f (Some m0) (Some r0) = (True, Some meta, Some raw)"
    using EncodeFrame_value DecodeFrame_encoded by fastforce
qed

text \<open>
  C23.  The header that \<open>SendNode\<close> writes is read back by the session: for a known message type and a
  body within the limits (the small limit before login), the read callback asks for exactly the
  body's length under the same type.
\<close>

theorem header_round_trip:
  assumes "t \<le> kMaxMsgId" and "msg \<noteq> []" and "length msg \<le> kMaxFrameBody"
    and "authed \<or> length msg \<le> kUnauthedMaxBodyLen"
  shows "AsyncReadHead_cb False True authed (take HEAD_TOTAL_LEN (SendNode msg (word_of_nat t)))
         = HeadRead t (length msg)"
  using assms by (rule AsyncReadHead_SendNode)

theorem header_round_trip_witness:
  "AsyncReadHead_cb False True False (take HEAD_TOTAL_LEN (SendNode ''hello'' (word_of_nat 1501)))
   = HeadRead 1501 5"
  using header_round_trip [of 1501 "''hello''" False]
  by (simp add: kMaxMsgId_def wire_consts kUnauthedMaxBodyLen_def)

end
