(* ===== verification/Base64.thy ===== *)
theory Base64
  imports Chat_Prelude
begin

unbundle bit_operations_syntax

text \<open>
  The Base64 codec of \<open>server/ResourceServer/src/base64.cpp\<close>, used by the avatar channel
  (messages 1601 to 1604).  A thrown exception (\<open>std::runtime_error\<close> of \<open>pos_of_char\<close>,
  \<open>std::out_of_range\<close> of \<open>at\<close>) is \<open>None\<close>.  Bytes are natural numbers below 256 under the bit
  operations of the source; a conversion to \<open>char\<close> is \<open>char_of\<close>, which reduces modulo 256.
  The loops advance by three input and four output characters, which is the recursion of the
  model.
\<close>

definition base64_chars :: "bool \<Rightarrow> string" where
  "base64_chars url =
     ''ABCDEFGHIJKLMNOPQRSTUVWXYZ'' @ ''abcdefghijklmnopqrstuvwxyz'' @ ''0123456789''
     @ (if url then ''-_'' else ''+/'')"

definition pos_of_char :: "char \<Rightarrow> nat option" where
  "pos_of_char chr =
     (let c = byte_of chr in
      if byte_of CHR ''A'' \<le> c \<and> c \<le> byte_of CHR ''Z'' then Some (c - byte_of CHR ''A'')
      else if byte_of CHR ''a'' \<le> c \<and> c \<le> byte_of CHR ''z''
        then Some (c - byte_of CHR ''a'' + (byte_of CHR ''Z'' - byte_of CHR ''A'') + 1)
      else if byte_of CHR ''0'' \<le> c \<and> c \<le> byte_of CHR ''9''
        then Some (c - byte_of CHR ''0'' + (byte_of CHR ''Z'' - byte_of CHR ''A'')
                   + (byte_of CHR ''z'' - byte_of CHR ''a'') + 2)
      else if chr = CHR ''+'' \<or> chr = CHR ''-'' then Some 62
      else if chr = CHR ''/'' \<or> chr = CHR ''_'' then Some 63
      else None)"

fun base64_encode_loop :: "string \<Rightarrow> char \<Rightarrow> string \<Rightarrow> string" where
  "base64_encode_loop cs t [] = []"
| "base64_encode_loop cs t [a] =
     [cs ! drop_bit 2 (byte_of a AND 0xfc), cs ! push_bit 4 (byte_of a AND 0x03), t, t]"
| "base64_encode_loop cs t [a, b] =
     [cs ! drop_bit 2 (byte_of a AND 0xfc),
      cs ! (push_bit 4 (byte_of a AND 0x03) + drop_bit 4 (byte_of b AND 0xf0)),
      cs ! push_bit 2 (byte_of b AND 0x0f), t]"
| "base64_encode_loop cs t (a # b # c # rest) =
     [cs ! drop_bit 2 (byte_of a AND 0xfc),
      cs ! (push_bit 4 (byte_of a AND 0x03) + drop_bit 4 (byte_of b AND 0xf0)),
      cs ! (push_bit 2 (byte_of b AND 0x0f) + drop_bit 6 (byte_of c AND 0xc0)),
      cs ! (byte_of c AND 0x3f)] @ base64_encode_loop cs t rest"

definition base64_encode :: "string \<Rightarrow> bool \<Rightarrow> string" where
  "base64_encode s url =
     base64_encode_loop (base64_chars url) (if url then CHR ''.'' else CHR ''='') s"

text \<open>
  \<open>insert_linebreaks\<close> inserts a newline at \<open>pos\<close> and moves on by \<open>distance + 1\<close>, as long as \<open>pos\<close>
  lies inside the growing string: with distance 0 it would never return.
\<close>

partial_function (option) linebreak_loop :: "string \<Rightarrow> nat \<Rightarrow> nat \<Rightarrow> string option" where
  "linebreak_loop str pos distance =
     (if pos < length str
      then linebreak_loop (take pos str @ ''\<newline>'' @ drop pos str) (pos + (distance + 1)) distance
      else Some str)"

definition insert_linebreaks :: "string \<Rightarrow> nat \<Rightarrow> string option" where
  "insert_linebreaks str distance = (if length str = 0 then Some [] else linebreak_loop str distance distance)"

definition base64_encode_pem :: "string \<Rightarrow> string option" where
  "base64_encode_pem s = insert_linebreaks (base64_encode s False) 64"

definition base64_encode_mime :: "string \<Rightarrow> string option" where
  "base64_encode_mime s = insert_linebreaks (base64_encode s False) 76"

definition is_pad :: "char \<Rightarrow> bool" where
  "is_pad c \<longleftrightarrow> c = CHR ''='' \<or> c = CHR ''.''"

text \<open>The bytes one chunk of at most four characters produces.\<close>

definition decode_chunk :: "string \<Rightarrow> string option" where
  "decode_chunk ch =
     (if length ch < 2 then None
      else Option.bind (pos_of_char (ch ! 1)) (\<lambda>p1.
        Option.bind (pos_of_char (ch ! 0)) (\<lambda>p0.
          let o1 = char_of (push_bit 2 p0 + drop_bit 4 (p1 AND 0x30)) in
          if 2 < length ch \<and> \<not> is_pad (ch ! 2)
          then Option.bind (pos_of_char (ch ! 2)) (\<lambda>p2.
            let o2 = char_of (push_bit 4 (p1 AND 0x0f) + drop_bit 2 (p2 AND 0x3c)) in
            if 3 < length ch \<and> \<not> is_pad (ch ! 3)
            then Option.bind (pos_of_char (ch ! 3)) (\<lambda>p3.
              Some [o1, o2, char_of (push_bit 6 (p2 AND 0x03) + p3)])
            else Some [o1, o2])
          else Some [o1])))"

fun decode_loop :: "string \<Rightarrow> string option" where
  "decode_loop [] = Some []"
| "decode_loop (a # rest) =
     (case decode_chunk (take 4 (a # rest)) of
        None \<Rightarrow> None
      | Some out \<Rightarrow> map_option (append out) (decode_loop (drop 3 rest)))"

definition base64_decode :: "string \<Rightarrow> bool \<Rightarrow> string option" where
  "base64_decode s remove_linebreaks =
     (if s = [] then Some []
      else if remove_linebreaks
        then (let copy = removeAll (CHR 0x0A) s in if copy = [] then Some [] else decode_loop copy)
      else decode_loop s)"

subsection \<open>Bit fields of a byte\<close>

lemma and_low_mask:
  fixes x :: nat
  shows "x AND 0x03 = x mod 4" and "x AND 0x0f = x mod 16" and "x AND 0x3f = x mod 64"
proof -
  have "x AND mask n = x mod 2 ^ n" for n
    by (simp add: take_bit_eq_mask [symmetric] take_bit_nat_def)
  from this [of 2] this [of 4] this [of 6]
  show "x AND 0x03 = x mod 4" and "x AND 0x0f = x mod 16" and "x AND 0x3f = x mod 64"
    by (simp_all add: mask_eq_exp_minus_1)
qed

lemma drop_and_mask:
  fixes x :: nat
  shows "drop_bit n (x AND m) = x div 2 ^ n AND drop_bit n m"
  by (simp add: drop_bit_and) (simp add: drop_bit_nat_def)

lemma and_high_mask:
  fixes x :: nat
  assumes "x < 256"
  shows "drop_bit 2 (x AND 0xfc) = x div 4" and "drop_bit 4 (x AND 0xf0) = x div 16"
    and "drop_bit 6 (x AND 0xc0) = x div 64"
  using assms by (simp_all only: drop_and_mask) (simp_all add: and_low_mask)

lemma sextet_mask:
  fixes x :: nat
  assumes "x < 64"
  shows "drop_bit 4 (x AND 0x30) = x div 16" and "drop_bit 2 (x AND 0x3c) = x div 4"
  using assms by (simp_all only: drop_and_mask) (simp_all add: and_low_mask)

lemmas bit_fields = and_low_mask and_high_mask sextet_mask push_bit_nat_def

subsection \<open>The alphabet\<close>

lemma length_base64_chars [simp]: "length (base64_chars url) = 64"
  by (simp add: base64_chars_def)

lemma map_pos_of_alphabet: "map pos_of_char (base64_chars url) = map Some [0..<64]"
  by (cases url) (simp_all add: base64_chars_def pos_of_char_def byte_of_def upt_conv_Cons)

lemma pos_of_alphabet [simp]: "x < 64 \<Longrightarrow> pos_of_char (base64_chars url ! x) = Some x"
  using arg_cong [OF map_pos_of_alphabet, of "\<lambda>l. l ! x"] by simp

lemma alphabet_plain: "c \<in> set (base64_chars url) \<Longrightarrow> \<not> is_pad c \<and> c \<noteq> CHR 0x0A"
  by (cases url) (auto simp: base64_chars_def is_pad_def)

lemma alphabet_nth_plain [simp]:
  "x < 64 \<Longrightarrow> \<not> is_pad (base64_chars url ! x)" "x < 64 \<Longrightarrow> base64_chars url ! x \<noteq> CHR 0x0A"
  using alphabet_plain [OF nth_mem] by simp_all

subsection \<open>Round trips\<close>

lemma pack_fields:
  fixes q r k :: nat
  assumes "r < k"
  shows "(k * q + r) div k = q" and "(k * q + r) mod k = r"
  using assms by simp_all

lemma sextet_bounds:
  "byte_of a div 4 < 64" "byte_of b div 16 < 16" "byte_of c div 64 < 4"
  "16 * (byte_of a mod 4) + byte_of b div 16 < 64" "4 * (byte_of b mod 16) + byte_of c div 64 < 64"
  "16 * (byte_of a mod 4) < 64" "4 * (byte_of b mod 16) < 64"
  using byte_of_less [of a] byte_of_less [of b] byte_of_less [of c]
    mod_less_divisor [of 4 "byte_of a"] mod_less_divisor [of 16 "byte_of b"]
  by linarith+

declare drop_bit_and [simp del] push_bit_and [simp del]

lemma encode_masks [simp]:
  "drop_bit 2 (byte_of c AND 0xfc) = byte_of c div 4" "push_bit 4 (byte_of c AND 0x03) = 16 * (byte_of c mod 4)"
  "drop_bit 4 (byte_of c AND 0xf0) = byte_of c div 16" "push_bit 2 (byte_of c AND 0x0f) = 4 * (byte_of c mod 16)"
  "drop_bit 6 (byte_of c AND 0xc0) = byte_of c div 64" "byte_of c AND 0x3f = byte_of c mod 64"
  by (simp_all only: and_high_mask [OF byte_of_less] and_low_mask push_bit_nat_def) simp_all

lemma decode_masks:
  "p < 64 \<Longrightarrow> drop_bit 4 (p AND 0x30) = p div 16" "p < 64 \<Longrightarrow> drop_bit 2 (p AND 0x3c) = p div (4::nat)"
  "push_bit 2 p = 4 * p" "push_bit 4 (p AND 0x0f) = 16 * (p mod 16)" "push_bit 6 (p AND 0x03) = 64 * (p mod 4)"
  by (simp_all only: sextet_mask and_low_mask push_bit_nat_def) simp_all

lemma decode_chunk_sextets:
  assumes "p0 < 64" and "p1 < 64" and "p2 < 64" and "p3 < 64"
  shows "decode_chunk [base64_chars url ! p0, base64_chars url ! p1, base64_chars url ! p2, base64_chars url ! p3]
    = Some [char_of (4 * p0 + p1 div 16), char_of (16 * (p1 mod 16) + p2 div 4), char_of (64 * (p2 mod 4) + p3)]"
  using assms by (simp add: decode_chunk_def Let_def decode_masks)

lemma decode_chunk_pad1:
  assumes "p0 < 64" and "p1 < 64" and "p2 < 64" and "is_pad t"
  shows "decode_chunk [base64_chars url ! p0, base64_chars url ! p1, base64_chars url ! p2, t]
    = Some [char_of (4 * p0 + p1 div 16), char_of (16 * (p1 mod 16) + p2 div 4)]"
  using assms by (simp add: decode_chunk_def Let_def decode_masks)

lemma decode_chunk_pad2:
  assumes "p0 < 64" and "p1 < 64" and "is_pad t"
  shows "decode_chunk [base64_chars url ! p0, base64_chars url ! p1, t, t'] = Some [char_of (4 * p0 + p1 div 16)]"
  using assms by (simp add: decode_chunk_def Let_def decode_masks)

lemmas sextets = sextet_bounds pack_fields [OF sextet_bounds(2)] pack_fields [OF sextet_bounds(3)]

lemma decode_chunk_3:
  "decode_chunk (base64_encode_loop (base64_chars url) t [a, b, c]) = Some [a, b, c]"
  by (simp add: decode_chunk_sextets sextets)

lemma decode_chunk_2:
  "is_pad t \<Longrightarrow> decode_chunk (base64_encode_loop (base64_chars url) t [a, b]) = Some [a, b]"
  by (simp add: decode_chunk_pad1 sextets)

lemma decode_chunk_1:
  "is_pad t \<Longrightarrow> decode_chunk (base64_encode_loop (base64_chars url) t [a]) = Some [a]"
  by (simp add: decode_chunk_pad2 sextets)

lemma length_encode_chunk: "length (base64_encode_loop cs t [a, b, c]) = 4"
  by simp

lemma encode_chunk: "base64_encode_loop cs t (a # b # c # rest)
    = base64_encode_loop cs t [a, b, c] @ base64_encode_loop cs t rest"
  by simp

lemma decode_loop_chunk:
  assumes "decode_chunk ch = Some out" and "length ch = 4"
  shows "decode_loop (ch @ rest) = map_option (append out) (decode_loop rest)"
proof -
  from assms(2) obtain x ys where "ch = x # ys" "length ys = 3" by (cases ch) auto
  with assms(1) show ?thesis by simp
qed

lemma decode_encode_loop:
  "is_pad t \<Longrightarrow> decode_loop (base64_encode_loop (base64_chars url) t s) = Some s"
proof (induction "base64_chars url" t s rule: base64_encode_loop.induct)
  case (1 t)
  show ?case by simp
next
  case (2 t a)
  have "decode_loop (base64_encode_loop (base64_chars url) t [a] @ []) = map_option (append [a]) (decode_loop [])"
    by (rule decode_loop_chunk [OF decode_chunk_1 [OF "2"]]) simp
  then show ?case by (simp only: append_Nil2 decode_loop.simps option.map) 
next
  case (3 t a b)
  have "decode_loop (base64_encode_loop (base64_chars url) t [a, b] @ []) = map_option (append [a, b]) (decode_loop [])"
    by (rule decode_loop_chunk [OF decode_chunk_2 [OF "3"]]) simp
  then show ?case by (simp only: append_Nil2 decode_loop.simps option.map)
next
  case (4 t a b c rest)
  then show ?case
    by (subst encode_chunk, subst decode_loop_chunk [OF decode_chunk_3 length_encode_chunk]) simp
qed

lemma pads [simp]: "is_pad (CHR ''='')" "is_pad (CHR ''.'')"
  by (simp_all add: is_pad_def)

lemma base64_decode_encode: "base64_decode (base64_encode s url) False = Some s"
  using decode_encode_loop [of "if url then CHR ''.'' else CHR ''=''" url s]
  by (auto simp: base64_decode_def base64_encode_def)

interpretation b64: codec "\<lambda>s. base64_encode s url" "\<lambda>e. base64_decode e False" "\<lambda>_. True"
  by unfold_locales (rule base64_decode_encode)

subsection \<open>Line breaks\<close>

text \<open>With a positive distance the loop returns, and only newlines were added.\<close>

lemma linebreak_loop_returns:
  "0 < d \<Longrightarrow> \<exists>r. linebreak_loop str pos d = Some r \<and> removeAll (CHR 0x0A) r = removeAll (CHR 0x0A) str"
proof (induction "length str - pos" arbitrary: str pos rule: less_induct)
  case less
  show ?case
  proof (cases "pos < length str")
    case True
    let ?s = "take pos str @ ''\<newline>'' @ drop pos str"
    have "removeAll (CHR 0x0A) ?s = removeAll (CHR 0x0A) (take pos str @ drop pos str)"
      unfolding removeAll_append by simp
    moreover have "length ?s - (pos + (d + 1)) < length str - pos"
      using True less.prems by simp
    ultimately show ?thesis
      using less.hyps [of ?s "pos + (d + 1)"] less.prems True
      by (subst linebreak_loop.simps) simp
  next
    case False
    then show ?thesis by (subst linebreak_loop.simps) simp
  qed
qed

lemma newline_not_alphabet [simp]: "x < 64 \<Longrightarrow> CHR 0x0A \<noteq> base64_chars url ! x"
  using alphabet_nth_plain(2) [of x url] by metis

lemma encode_no_newline: "is_pad t \<Longrightarrow> CHR 0x0A \<notin> set (base64_encode_loop (base64_chars url) t s)"
  by (induction "base64_chars url" t s rule: base64_encode_loop.induct) (auto simp: sextet_bounds is_pad_def)

lemma decode_with_linebreaks:
  assumes "0 < d"
  shows "\<exists>r. insert_linebreaks (base64_encode s False) d = Some r \<and> base64_decode r True = Some s"
proof -
  let ?e = "base64_encode_loop (base64_chars False) (CHR ''='') s"
  have dec: "decode_loop ?e = Some s" by (rule decode_encode_loop) simp
  show ?thesis
  proof (cases "?e = []")
    case True
    with dec show ?thesis by (simp add: insert_linebreaks_def base64_encode_def base64_decode_def)
  next
    case False
    from linebreak_loop_returns [OF assms, of ?e d] obtain r
      where r: "linebreak_loop ?e d d = Some r" "removeAll (CHR 0x0A) r = removeAll (CHR 0x0A) ?e"
      by blast
    moreover have "removeAll (CHR 0x0A) ?e = ?e"
      by (rule removeAll_id) (rule encode_no_newline, simp)
    ultimately have "removeAll (CHR 0x0A) r = ?e" by simp
    with dec False have "base64_decode r True = Some s" by (auto simp: base64_decode_def Let_def)
    with r(1) False show ?thesis by (simp add: insert_linebreaks_def base64_encode_def)
  qed
qed

text \<open>Output length: \<open>reserve\<close> asks for exactly the characters the loop produces.\<close>

lemma length_base64_encode: "length (base64_encode s url) = (length s + 2) div 3 * 4"
proof -
  have "length (base64_encode_loop cs t s) = (length s + 2) div 3 * 4" for cs t
    by (induction cs t s rule: base64_encode_loop.induct) (auto, presburger)
  then show ?thesis by (simp add: base64_encode_def)
qed

subsection \<open>Properties\<close>



end
