(* ===== verification/Sha256_Util.thy ===== *)
theory Sha256_Util
  imports Chat_Prelude
begin

unbundle bit_operations_syntax

text \<open>
  \<open>server/common/src/Sha256.cpp\<close>: hexadecimal output, the format check of hash fields, the one-shot
  and file digests and the streaming context \<open>Sha256Stream\<close>.

  SHA-256 itself is OpenSSL code.  It is the parameter \<open>sha :: string \<Rightarrow> string\<close> of the
  definitions: the raw digest of a byte string.  An OpenSSL call that fails is a boolean argument
  of the operation that makes the call (\<open>True\<close> is failure).  The documented fact that a digest has
  32 bytes is the hypothesis \<open>sha256_law\<close> of the lemmas that need it.
\<close>

definition sha256_law :: "(string \<Rightarrow> string) \<Rightarrow> bool" where
  "sha256_law sha \<longleftrightarrow> (\<forall>d. length (sha d) = 32)"

definition kHex :: string where
  "kHex = ''0123456789abcdef''"

definition hex_of_byte :: "char \<Rightarrow> string" where
  "hex_of_byte c = [kHex ! drop_bit 4 (byte_of c), kHex ! (byte_of c AND 0x0F)]"

definition ToLowerHex :: "string \<Rightarrow> string" where
  "ToLowerHex d = concat (map hex_of_byte d)"

definition is_lower_hex :: "char \<Rightarrow> bool" where
  "is_lower_hex c \<longleftrightarrow>
     (byte_of CHR ''0'' \<le> byte_of c \<and> byte_of c \<le> byte_of CHR ''9'')
     \<or> (byte_of CHR ''a'' \<le> byte_of c \<and> byte_of c \<le> byte_of CHR ''f'')"

definition IsValidSha256Hex :: "string \<Rightarrow> bool" where
  "IsValidSha256Hex hex \<longleftrightarrow> length hex = 64 \<and> list_all is_lower_hex hex"

definition Sha256Hex :: "(string \<Rightarrow> string) \<Rightarrow> bool \<Rightarrow> string \<Rightarrow> string" where
  "Sha256Hex sha evp_fails d = (if evp_fails then [] else ToLowerHex (sha d))"

text \<open>
  \<open>Sha256FileHex\<close> reads a file in blocks of 1 MiB.  The argument \<open>content\<close> is what the path holds
  (\<open>None\<close>: it cannot be opened); the record lists the outcome of each fallible call, those inside
  the loop by iteration.  A failing \<open>fread\<close> returns 0 with \<open>feof\<close> unset.
\<close>

record file_hash_io =
  ctx_fails :: bool
  init_fails :: bool
  read_fails :: "nat \<Rightarrow> bool"
  update_fails :: "nat \<Rightarrow> bool"
  final_fails :: bool

definition kFileChunkBytes :: nat where
  "kFileChunkBytes = 1024 * 1024"

function hash_file_loop :: "file_hash_io \<Rightarrow> nat \<Rightarrow> string \<Rightarrow> string \<Rightarrow> string option" where
  "hash_file_loop io k acc rest =
     (if read_fails io k then None
      else if rest = [] then Some acc
      else if update_fails io k then None
      else hash_file_loop io (Suc k) (acc @ take kFileChunkBytes rest) (drop kFileChunkBytes rest))"
  by pat_completeness auto
termination
  by (relation "measure (\<lambda>(io, k, acc, rest). length rest)") (auto simp: kFileChunkBytes_def)

declare hash_file_loop.simps [simp del]

definition Sha256FileHex :: "(string \<Rightarrow> string) \<Rightarrow> file_hash_io \<Rightarrow> string option \<Rightarrow> string" where
  "Sha256FileHex sha io content =
     (case content of None \<Rightarrow> []
      | Some d \<Rightarrow>
          if ctx_fails io then []
          else if init_fails io then []
          else (case hash_file_loop io 0 [] d of None \<Rightarrow> []
                | Some acc \<Rightarrow> if final_fails io then [] else ToLowerHex (sha acc)))"

definition ConstantTimeEquals :: "string option \<Rightarrow> string option \<Rightarrow> nat \<Rightarrow> bool" where
  "ConstantTimeEquals a b len =
     (if len = 0 then True
      else case (a, b) of (Some x, Some y) \<Rightarrow> take len x = take len y | _ \<Rightarrow> False)"

text \<open>
  The streaming context: \<open>ctx\<close> holds the bytes digested so far, or \<open>None\<close> when there is no context
  (\<open>_ctx == nullptr\<close>), \<open>final\<close> the cached result.
\<close>

record Sha256Stream =
  ctx :: "string option"
  final :: string

datatype init_outcome = InitOk | NoContext | DigestInitFails

definition stream_Destroy :: "Sha256Stream \<Rightarrow> Sha256Stream" where
  "stream_Destroy st = st\<lparr>ctx := None, final := []\<rparr>"

definition stream_Init :: "init_outcome \<Rightarrow> Sha256Stream \<Rightarrow> bool \<times> Sha256Stream" where
  "stream_Init out st =
     (if ctx st \<noteq> None then (True, st)
      else case out of
        NoContext \<Rightarrow> (False, st)
      | DigestInitFails \<Rightarrow> (False, stream_Destroy (st\<lparr>ctx := Some []\<rparr>))
      | InitOk \<Rightarrow> (True, st\<lparr>ctx := Some []\<rparr>))"

definition stream_new :: "init_outcome \<Rightarrow> Sha256Stream" where
  "stream_new out = snd (stream_Init out \<lparr>ctx = None, final = []\<rparr>)"

definition stream_Update :: "bool \<Rightarrow> string \<Rightarrow> Sha256Stream \<Rightarrow> bool \<times> Sha256Stream" where
  "stream_Update fails d st =
     (case ctx st of None \<Rightarrow> (False, st)
      | Some acc \<Rightarrow>
          if final st \<noteq> [] then (False, st)
          else if fails then (False, st) else (True, st\<lparr>ctx := Some (acc @ d)\<rparr>))"

definition stream_FinalHex ::
  "(string \<Rightarrow> string) \<Rightarrow> bool \<Rightarrow> Sha256Stream \<Rightarrow> string \<times> Sha256Stream" where
  "stream_FinalHex sha fails st =
     (if final st \<noteq> [] then (final st, st)
      else case ctx st of None \<Rightarrow> ([], st)
      | Some acc \<Rightarrow>
          if fails then ([], st)
          else (let h = ToLowerHex (sha acc) in (h, st\<lparr>final := h\<rparr>)))"

definition stream_Reset :: "init_outcome \<Rightarrow> Sha256Stream \<Rightarrow> Sha256Stream" where
  "stream_Reset out st = snd (stream_Init out (stream_Destroy st))"

subsection \<open>Hexadecimal output\<close>

lemma nibbles: "drop_bit 4 (byte_of c) = byte_of c div 16" "byte_of c AND 0x0F = byte_of c mod 16"
proof -
  show "drop_bit 4 (byte_of c) = byte_of c div 16" by (simp add: drop_bit_nat_def)
  have "byte_of c AND mask 4 = byte_of c mod 2 ^ 4"
    by (simp add: take_bit_eq_mask [symmetric] take_bit_nat_def)
  then show "byte_of c AND 0x0F = byte_of c mod 16" by (simp add: mask_eq_exp_minus_1)
qed

lemma nibble_bounds: "byte_of c div 16 < 16" "byte_of c mod 16 < 16"
  using byte_of_less [of c] by (simp_all add: less_mult_imp_div_less)

lemma kHex_lower: "x < 16 \<Longrightarrow> is_lower_hex (kHex ! x)"
proof -
  have "length kHex = 16" by (simp add: kHex_def)
  moreover have "list_all is_lower_hex kHex"
    by (simp add: kHex_def is_lower_hex_def byte_of_def)
  ultimately show "x < 16 \<Longrightarrow> is_lower_hex (kHex ! x)" by (simp add: list_all_length)
qed

lemma length_ToLowerHex [simp]: "length (ToLowerHex d) = 2 * length d"
  by (induction d) (simp_all add: ToLowerHex_def hex_of_byte_def)

lemma ToLowerHex_lower: "list_all is_lower_hex (ToLowerHex d)"
  by (induction d) (simp_all add: ToLowerHex_def hex_of_byte_def nibbles kHex_lower nibble_bounds)

lemma ToLowerHex_Cons: "ToLowerHex (c # d) = hex_of_byte c @ ToLowerHex d"
  by (simp add: ToLowerHex_def)

lemma digest_valid: "sha256_law sha \<Longrightarrow> IsValidSha256Hex (ToLowerHex (sha d))"
  by (simp add: sha256_law_def IsValidSha256Hex_def ToLowerHex_lower)

lemma digest_nonempty: "sha256_law sha \<Longrightarrow> ToLowerHex (sha d) \<noteq> []"
  using length_ToLowerHex [of "sha d"] by (auto simp: sha256_law_def simp del: length_ToLowerHex)

subsection \<open>File digests\<close>

text \<open>The block-wise loop digests exactly the content: it yields that or fails.\<close>

lemma hash_file_loop_value:
  "hash_file_loop io k acc d = Some r \<Longrightarrow> r = acc @ d"
proof (induction io k acc d rule: hash_file_loop.induct)
  case (1 io k acc rest)
  from 1(2) show ?case
    by (subst (asm) hash_file_loop.simps) (auto split: if_splits dest!: 1(1))
qed

lemma hash_file_loop_no_fault:
  "(\<And>i. \<not> read_fails io i) \<Longrightarrow> (\<And>i. \<not> update_fails io i) \<Longrightarrow> hash_file_loop io k acc d = Some (acc @ d)"
proof (induction io k acc d rule: hash_file_loop.induct)
  case (1 io k acc rest)
  show ?case by (subst hash_file_loop.simps) (use 1 in auto)
qed

lemma Sha256FileHex_value:
  "Sha256FileHex sha io content = [] \<or>
   (\<exists>d. content = Some d \<and> Sha256FileHex sha io content = ToLowerHex (sha d))"
  by (auto simp: Sha256FileHex_def split: option.splits dest!: hash_file_loop_value)

definition io_healthy :: "file_hash_io \<Rightarrow> bool" where
  "io_healthy io \<longleftrightarrow> \<not> ctx_fails io \<and> \<not> init_fails io \<and> \<not> final_fails io
     \<and> (\<forall>i. \<not> read_fails io i) \<and> (\<forall>i. \<not> update_fails io i)"

lemma Sha256FileHex_healthy:
  "io_healthy io \<Longrightarrow> Sha256FileHex sha io (Some d) = ToLowerHex (sha d)"
  by (simp add: Sha256FileHex_def io_healthy_def hash_file_loop_no_fault)

subsection \<open>Streaming\<close>

text \<open>
  A context that has digested \<open>acc\<close> and was not finalised; updates append, and the final value is
  the digest of everything appended since the last reset.
\<close>

definition stream_covers :: "Sha256Stream \<Rightarrow> string \<Rightarrow> bool" where
  "stream_covers st acc \<longleftrightarrow> ctx st = Some acc \<and> final st = []"

lemma stream_new_covers: "ctx (stream_new f) \<noteq> None \<Longrightarrow> stream_covers (stream_new f) []"
  by (cases f) (auto simp: stream_new_def stream_Init_def stream_Destroy_def stream_covers_def)

lemma stream_Reset_covers: "ctx (stream_Reset f st) \<noteq> None \<Longrightarrow> stream_covers (stream_Reset f st) []"
  by (cases f) (auto simp: stream_Reset_def stream_Init_def stream_Destroy_def stream_covers_def)

lemma stream_Update_covers:
  "stream_covers st acc \<Longrightarrow> stream_Update f d st = (True, st') \<Longrightarrow> stream_covers st' (acc @ d)"
  by (auto simp: stream_Update_def stream_covers_def split: if_splits)

lemma stream_FinalHex_covers:
  "stream_covers st acc \<Longrightarrow> fst (stream_FinalHex sha f st) = (if f then [] else ToLowerHex (sha acc))"
  by (auto simp: stream_FinalHex_def stream_covers_def Let_def)

lemma stream_FinalHex_idem:
  assumes "sha256_law sha" and "stream_FinalHex sha f st = (h, st')" and "h \<noteq> []"
  shows "stream_FinalHex sha g st' = (h, st')"
  using assms by (auto simp: stream_FinalHex_def Let_def split: option.splits if_splits)

lemma stream_Update_final:
  "final st \<noteq> [] \<Longrightarrow> fst (stream_Update f d st) = False"
  by (auto simp: stream_Update_def split: option.splits)

fun stream_feed :: "Sha256Stream \<Rightarrow> string list \<Rightarrow> bool \<times> Sha256Stream" where
  "stream_feed st [] = (True, st)"
| "stream_feed st (d # ds) =
     (case stream_Update False d st of (True, st') \<Rightarrow> stream_feed st' ds | (False, st') \<Rightarrow> (False, st'))"

lemma stream_feed_covers:
  "stream_covers st acc \<Longrightarrow>
   \<exists>st'. stream_feed st ds = (True, st') \<and> stream_covers st' (acc @ concat ds)"
proof (induction ds arbitrary: st acc)
  case Nil
  then show ?case by simp
next
  case (Cons d ds)
  then have "stream_Update False d st = (True, st\<lparr>ctx := Some (acc @ d)\<rparr>)"
    by (simp add: stream_Update_def stream_covers_def)
  moreover have "stream_covers (st\<lparr>ctx := Some (acc @ d)\<rparr>) (acc @ d)"
    using Cons.prems by (simp add: stream_covers_def)
  ultimately show ?case using Cons.IH [of "st\<lparr>ctx := Some (acc @ d)\<rparr>" "acc @ d"] by simp
qed

end
