(* ===== verification/Password_Hash.thy ===== *)
theory Password_Hash
  imports Sha256_Util
begin

unbundle bit_operations_syntax

text \<open>
  \<open>server/common/src/PasswordHash.cpp\<close>: the stored form of a password,
  \<open>pbkdf2-sha256$i=<iter>$<salt_hex>$<dk_hex>\<close>, its parser, and hashing and verifying.

  PBKDF2 is OpenSSL code: the parameter \<open>pbkdf2 pw salt iterations\<close> is the derived key, \<open>None\<close> when
  the call fails.  Random bytes come from OpenSSL too: \<open>rand\<close> is the salt drawn, \<open>None\<close> on failure.
  \<open>std::stol\<close> is the C++ library's: leading white space and a sign are accepted, no digits or a
  value outside \<open>long\<close> raises.  The cast to \<open>int\<close> keeps the low 32 bits.
\<close>

definition kHashPrefix :: string where
  "kHashPrefix = ''pbkdf2-sha256''"

definition kSaltBytes :: nat where
  "kSaltBytes = 16"

definition kDerivedBytes :: nat where
  "kDerivedBytes = 32"

definition kPbkdf2Iterations :: nat where
  "kPbkdf2Iterations = 600000"

definition HexNibble :: "char \<Rightarrow> int" where
  "HexNibble c =
     (if byte_of CHR ''0'' \<le> byte_of c \<and> byte_of c \<le> byte_of CHR ''9''
        then int (byte_of c) - int (byte_of CHR ''0'')
      else if byte_of CHR ''a'' \<le> byte_of c \<and> byte_of c \<le> byte_of CHR ''f''
        then int (byte_of c) - int (byte_of CHR ''a'') + 10
      else if byte_of CHR ''A'' \<le> byte_of c \<and> byte_of c \<le> byte_of CHR ''F''
        then int (byte_of c) - int (byte_of CHR ''A'') + 10
      else -1)"

fun from_hex_loop :: "string \<Rightarrow> string option" where
  "from_hex_loop (a # b # rest) =
     (let hi = HexNibble a; lo = HexNibble b in
      if hi < 0 \<or> lo < 0 then None
      else case from_hex_loop rest of None \<Rightarrow> None
           | Some out \<Rightarrow> Some (char_of (nat (push_bit 4 hi OR lo)) # out))"
| "from_hex_loop _ = Some []"

definition FromHex :: "string \<Rightarrow> string option" where
  "FromHex s = (if s = [] \<or> length s mod 2 \<noteq> 0 then None else from_hex_loop s)"

record ParsedHash =
  iterations :: int
  salt :: string
  dk :: string

fun split_dollar :: "string list \<Rightarrow> string \<Rightarrow> string \<Rightarrow> string list" where
  "split_dollar parts cur [] = parts @ [cur]"
| "split_dollar parts cur (c # cs) =
     (if c = CHR ''$'' then split_dollar (parts @ [cur]) [] cs
      else split_dollar parts (cur @ [c]) cs)"

definition is_space :: "char \<Rightarrow> bool" where
  "is_space c \<longleftrightarrow> byte_of c = 32 \<or> (9 \<le> byte_of c \<and> byte_of c \<le> 13)"

definition stol :: "string \<Rightarrow> (int \<times> nat) option" where
  "stol s =
     (let body = dropWhile is_space s;
          neg = (body \<noteq> [] \<and> hd body = CHR ''-'');
          signed = (body \<noteq> [] \<and> (hd body = CHR ''-'' \<or> hd body = CHR ''+''));
          tail = (if signed then tl body else body);
          ds = takeWhile is_digit tail;
          v = (if neg then - int (read_digits ds) else int (read_digits ds))
      in if ds = [] then None
         else if v < - (2 ^ 63) \<or> 2 ^ 63 \<le> v then None
         else Some (v, length s - length tail + length ds))"

definition cast_int32 :: "int \<Rightarrow> int" where
  "cast_int32 i = signed_take_bit 31 i"

definition ParseHash :: "string \<Rightarrow> ParsedHash option" where
  "ParseHash stored =
     (let parts = split_dollar [] [] stored in
      if length parts \<noteq> 4 then None
      else if parts ! 0 \<noteq> kHashPrefix then None
      else if length (parts ! 1) < 3 \<or> take 2 (parts ! 1) \<noteq> ''i='' then None
      else case stol (drop 2 (parts ! 1)) of None \<Rightarrow> None
      | Some (iter, consumed) \<Rightarrow>
          if consumed \<noteq> length (parts ! 1) - 2 then None
          else if iter \<le> 0 then None
          else case FromHex (parts ! 2) of None \<Rightarrow> None
          | Some s \<Rightarrow>
              case FromHex (parts ! 3) of None \<Rightarrow> None
              | Some k \<Rightarrow> Some \<lparr>iterations = cast_int32 iter, salt = s, dk = k\<rparr>)"

type_synonym kdf = "string \<Rightarrow> string \<Rightarrow> int \<Rightarrow> string option"

definition HashPassword :: "kdf \<Rightarrow> string option \<Rightarrow> string \<Rightarrow> string" where
  "HashPassword pbkdf2 rand pw =
     (case rand of None \<Rightarrow> []
      | Some s \<Rightarrow>
          (case pbkdf2 pw s (int kPbkdf2Iterations) of None \<Rightarrow> []
           | Some k \<Rightarrow> kHashPrefix @ ''$i='' @ to_string kPbkdf2Iterations @ ''$'' @ ToLowerHex s
                        @ ''$'' @ ToLowerHex k))"

definition VerifyPassword :: "kdf \<Rightarrow> string \<Rightarrow> string \<Rightarrow> bool" where
  "VerifyPassword pbkdf2 pw stored =
     (if stored = [] then False
      else case ParseHash stored of None \<Rightarrow> False
      | Some parsed \<Rightarrow>
          (case pbkdf2 pw (salt parsed) (iterations parsed) of None \<Rightarrow> False
           | Some k \<Rightarrow> if length k \<noteq> length (dk parsed) then False else k = dk parsed))"

text \<open>PBKDF2 is asked for \<open>kDerivedBytes\<close> bytes and returns that many when it succeeds.\<close>

definition kdf_law :: "kdf \<Rightarrow> bool" where
  "kdf_law pbkdf2 \<longleftrightarrow> (\<forall>pw s n k. pbkdf2 pw s n = Some k \<longrightarrow> length k = kDerivedBytes)"

subsection \<open>Hexadecimal round trip\<close>

lemma HexNibble_kHex: "x < 16 \<Longrightarrow> HexNibble (kHex ! x) = int x"
proof -
  have "length kHex = 16" by (simp add: kHex_def)
  moreover have "map HexNibble kHex = map int [0..<16]"
    by (simp add: kHex_def HexNibble_def byte_of_def upt_rec)
  ultimately have "\<forall>i < 16. HexNibble (kHex ! i) = int i"
    by (metis add_0 length_upt minus_nat.diff_0 nth_map nth_upt)
  then show "x < 16 \<Longrightarrow> HexNibble (kHex ! x) = int x" by simp
qed

lemma join_nibbles:
  assumes "(h :: nat) < 16" and "l < 16"
  shows "nat (push_bit 4 (int h) OR int l) = 16 * h + l"
proof -
  have "push_bit 4 (int h) AND int l = 0"
  proof (rule bit_eqI)
    fix n
    have "\<not> bit (int l) n" if "4 \<le> n"
    proof -
      have "(2 :: nat) ^ 4 \<le> 2 ^ n" using that by (intro power_increasing) auto
      then have "l < 2 ^ n" using assms(2) by simp
      then show ?thesis by (simp add: bit_iff_odd)
    qed
    then show "bit (push_bit 4 (int h) AND int l) n \<longleftrightarrow> bit (0 :: int) n"
      by (auto simp: bit_and_iff bit_push_bit_iff)
  qed
  then have "push_bit 4 (int h) OR int l = push_bit 4 (int h) + int l"
    using plus_and_or [of "push_bit 4 (int h)" "int l"] by simp
  also have "\<dots> = int (16 * h + l)" by (simp add: push_bit_eq_mult)
  finally show ?thesis by simp
qed

lemma from_hex_loop_ToLowerHex: "from_hex_loop (ToLowerHex d) = Some d"
proof (induction d)
  case Nil
  then show ?case by (simp add: ToLowerHex_def)
next
  case (Cons c d)
  have "16 * (byte_of c div 16) + byte_of c mod 16 = byte_of c" by simp
  then show ?case using Cons
    by (simp add: ToLowerHex_Cons hex_of_byte_def nibbles HexNibble_kHex nibble_bounds join_nibbles Let_def)
qed

lemma FromHex_ToLowerHex: "d \<noteq> [] \<Longrightarrow> FromHex (ToLowerHex d) = Some d"
  using length_ToLowerHex [of d]
  by (auto simp: FromHex_def from_hex_loop_ToLowerHex simp del: length_ToLowerHex)

interpretation hex: codec ToLowerHex FromHex "\<lambda>d. d \<noteq> []"
  by unfold_locales (rule FromHex_ToLowerHex)

subsection \<open>Splitting and the integer field\<close>

lemma split_dollar_word:
  "CHR ''$'' \<notin> set w \<Longrightarrow> split_dollar ps cur (w @ CHR ''$'' # rest) = split_dollar (ps @ [cur @ w]) [] rest"
  by (induction w arbitrary: cur) auto

lemma split_dollar_last: "CHR ''$'' \<notin> set w \<Longrightarrow> split_dollar ps cur w = ps @ [cur @ w]"
  by (induction w arbitrary: cur) auto

lemma length_split_dollar: "length (split_dollar ps cur s) = length ps + 1 + count_list s (CHR ''$'')"
  by (induction ps cur s rule: split_dollar.induct) auto

lemma no_dollar_hex: "CHR ''$'' \<notin> set (ToLowerHex d)"
  using ToLowerHex_lower [of d] by (auto simp: list_all_iff is_lower_hex_def byte_of_def)

lemma no_dollar_to_string: "CHR ''$'' \<notin> set (to_string n)"
  using to_string_digits [of n] by (auto simp: list_all_iff is_digit_def byte_of_def)

lemma digit_not_sign: "is_digit c \<Longrightarrow> \<not> is_space c \<and> c \<noteq> CHR ''-'' \<and> c \<noteq> CHR ''+''"
  by (auto simp: is_digit_def is_space_def byte_of_def)

lemma stol_to_string:
  assumes "int n < 2 ^ 63"
  shows "stol (to_string n) = Some (int n, length (to_string n))"
proof -
  obtain c cs where ts: "to_string n = c # cs" using to_string_nonempty [of n] by (cases "to_string n") auto
  have dig: "list_all is_digit (c # cs)" using to_string_digits [of n] ts by simp
  have tw: "takeWhile is_digit cs = cs" using dig by (auto simp: takeWhile_eq_all_conv list_all_iff)
  have "read_digits (c # cs) = n" using ts by (metis read_digits_to_string)
  then show ?thesis using dig digit_not_sign [of c] assms ts by (simp add: stol_def Let_def tw)
qed

subsection \<open>Parsing what hashing produced\<close>

lemma ParseHash_HashPassword:
  assumes "s \<noteq> []" and "pbkdf2 pw s (int kPbkdf2Iterations) = Some k" and "k \<noteq> []"
  shows "ParseHash (HashPassword pbkdf2 (Some s) pw)
           = Some \<lparr>iterations = int kPbkdf2Iterations, salt = s, dk = k\<rparr>"
proof -
  let ?n = "to_string kPbkdf2Iterations"
  have nodollar: "CHR ''$'' \<notin> set kHashPrefix" "CHR ''$'' \<notin> set (''i='' @ ?n)"
    using no_dollar_to_string by (simp_all add: kHashPrefix_def)
  have form: "HashPassword pbkdf2 (Some s) pw
      = kHashPrefix @ CHR ''$'' # (''i='' @ ?n) @ CHR ''$'' # ToLowerHex s @ CHR ''$'' # ToLowerHex k"
    using assms(2) by (simp add: HashPassword_def)
  have parts: "split_dollar [] [] (HashPassword pbkdf2 (Some s) pw)
      = [kHashPrefix, ''i='' @ ?n, ToLowerHex s, ToLowerHex k]"
    unfolding form split_dollar_word [OF nodollar(1)] split_dollar_word [OF nodollar(2)]
    by (simp add: split_dollar_word split_dollar_last no_dollar_hex)
  have "stol ?n = Some (int kPbkdf2Iterations, length ?n)"
    by (rule stol_to_string) (simp add: kPbkdf2Iterations_def)
  moreover have "cast_int32 (int kPbkdf2Iterations) = int kPbkdf2Iterations"
    by (simp add: cast_int32_def kPbkdf2Iterations_def signed_take_bit_int_eq_self)
  ultimately show ?thesis
    using assms by (simp add: ParseHash_def parts FromHex_ToLowerHex kPbkdf2Iterations_def Suc_le_eq)
qed

lemma ParseHash_dollars: "ParseHash stored = Some p \<Longrightarrow> count_list stored (CHR ''$'') = 3"
  using length_split_dollar [of "[]" "[]" stored] by (auto simp: ParseHash_def Let_def split: if_splits)

subsection \<open>Properties\<close>

text \<open>
  C27.  A stored hash made by \<open>HashPassword\<close> is accepted by \<open>VerifyPassword\<close> for exactly the passwords
  from which PBKDF2 derives the same key with the drawn salt; in particular for the password that
  was hashed.
\<close>

theorem password_verify_exact:
  assumes "kdf_law pbkdf2" and "length s = kSaltBytes"
    and "pbkdf2 pw s (int kPbkdf2Iterations) = Some k"
  shows "VerifyPassword pbkdf2 pw' (HashPassword pbkdf2 (Some s) pw)
         \<longleftrightarrow> pbkdf2 pw' s (int kPbkdf2Iterations) = Some k"
proof -
  have "k \<noteq> []" "s \<noteq> []" using assms unfolding kdf_law_def kDerivedBytes_def kSaltBytes_def by fastforce+
  then have "ParseHash (HashPassword pbkdf2 (Some s) pw)
      = Some \<lparr>iterations = int kPbkdf2Iterations, salt = s, dk = k\<rparr>"
    using assms(3) by (intro ParseHash_HashPassword) auto
  moreover have "HashPassword pbkdf2 (Some s) pw \<noteq> []" using assms(3) by (simp add: HashPassword_def kHashPrefix_def)
  ultimately show ?thesis by (auto simp: VerifyPassword_def split: option.splits)
qed

definition demo_kdf :: kdf where
  "demo_kdf pw s n = Some (take 32 (pw @ s @ replicate 32 (CHR ''x'')))"

theorem password_verify_exact_witness:
  "VerifyPassword demo_kdf ''secret'' (HashPassword demo_kdf (Some ''0123456789abcdef'') ''secret'')
   \<and> \<not> VerifyPassword demo_kdf ''guess'' (HashPassword demo_kdf (Some ''0123456789abcdef'') ''secret'')"
proof -
  have law: "kdf_law demo_kdf" by (auto simp: kdf_law_def demo_kdf_def kDerivedBytes_def)
  have salt: "length ''0123456789abcdef'' = kSaltBytes" by (simp add: kSaltBytes_def)
  have key: "demo_kdf ''secret'' ''0123456789abcdef'' (int kPbkdf2Iterations)
      = Some ''secret0123456789abcdefxxxxxxxxxx''" by (simp add: demo_kdf_def eval_nat_numeral)
  have other: "demo_kdf ''guess'' ''0123456789abcdef'' (int kPbkdf2Iterations)
      = Some ''guess0123456789abcdefxxxxxxxxxxx''" by (simp add: demo_kdf_def eval_nat_numeral)
  show ?thesis using password_verify_exact [OF law salt key] key other by simp
qed

text \<open>
  C28.  Values that are not in the four-part format are never accepted: a stored plain-text password, or
  anything else without exactly three dollar signs, matches no password.
\<close>

theorem plaintext_rejected:
  assumes "count_list stored (CHR ''$'') \<noteq> 3"
  shows "\<not> VerifyPassword pbkdf2 pw stored"
  using assms ParseHash_dollars [of stored] by (auto simp: VerifyPassword_def split: option.splits)

theorem plaintext_rejected_witness: "\<not> VerifyPassword demo_kdf ''secret'' ''secret''"
  by (rule plaintext_rejected) simp


end
