(* ===== verification/Session_Lifecycle.thy ===== *)
theory Session_Lifecycle
  imports Chat_Prelude
begin

text \<open>
  \<open>server/common/include/SessionLifecycle.h\<close>: the life cycle of a TCP session.  The sequential
  operations come first, each a function on the value of the atomic \<open>_state\<close> that returns what the
  C++ method returns and the new value.  Because the methods are called from several threads,
  \<open>BeginClose\<close> is also modelled instruction by instruction: a load, then a compare-exchange that
  may fail spuriously, in a loop, interleaved with the steps of all other callers.
\<close>

datatype State = Open | Draining | Closing | Closed

definition IsOpen :: "State \<Rightarrow> bool" where
  "IsOpen s \<longleftrightarrow> s = Open"

definition compare_exchange :: "State \<Rightarrow> State \<Rightarrow> State \<Rightarrow> bool \<times> State" where
  "compare_exchange expected desired s = (if s = expected then (True, desired) else (False, s))"

definition BeginDrain :: "State \<Rightarrow> bool \<times> State" where
  "BeginDrain s = compare_exchange Open Draining s"

definition BeginClose :: "State \<Rightarrow> bool \<times> State" where
  "BeginClose s = (if s = Open \<or> s = Draining then (True, Closing) else (False, s))"

definition CompleteClose :: "State \<Rightarrow> bool \<times> State" where
  "CompleteClose s = compare_exchange Closing Closed s"

fun rank :: "State \<Rightarrow> nat" where
  "rank Open = 0"
| "rank Draining = 1"
| "rank Closing = 2"
| "rank Closed = 3"

instantiation State :: linorder
begin

definition less_eq_State :: "State \<Rightarrow> State \<Rightarrow> bool" where
  "less_eq_State a b \<longleftrightarrow> rank a \<le> rank b"

definition less_State :: "State \<Rightarrow> State \<Rightarrow> bool" where
  "less_State a b \<longleftrightarrow> rank a < rank b"

instance
proof
  fix a b c :: State
  show "a < b \<longleftrightarrow> a \<le> b \<and> \<not> b \<le> a" by (auto simp: less_State_def less_eq_State_def)
  show "a \<le> a" by (simp add: less_eq_State_def)
  show "a \<le> b \<Longrightarrow> b \<le> c \<Longrightarrow> a \<le> c" by (simp add: less_eq_State_def)
  show "a \<le> b \<Longrightarrow> b \<le> a \<Longrightarrow> a = b" by (cases a; cases b) (simp_all add: less_eq_State_def)
  show "a \<le> b \<or> b \<le> a" by (auto simp: less_eq_State_def)
qed

end

lemmas lifecycle_defs = compare_exchange_def BeginDrain_def BeginClose_def CompleteClose_def IsOpen_def

lemma lifecycle_monotone:
  "s \<le> snd (BeginDrain s)" "s \<le> snd (BeginClose s)" "s \<le> snd (CompleteClose s)"
  by (cases s; simp add: lifecycle_defs less_eq_State_def)+

lemma lifecycle_success_strict:
  "fst (BeginDrain s) \<Longrightarrow> s < snd (BeginDrain s)"
  "fst (BeginClose s) \<Longrightarrow> s < snd (BeginClose s)"
  "fst (CompleteClose s) \<Longrightarrow> s < snd (CompleteClose s)"
  by (cases s; simp add: lifecycle_defs less_State_def)+

subsection \<open>Concurrent callers\<close>

text \<open>
  Thread-local position of a caller of \<open>BeginClose\<close>: not started, holding the value \<open>current\<close> that
  it loaded or that a failed compare-exchange wrote back, or returned.
\<close>

datatype closer = Idle | Looping State | Returned bool

record lifecycle_sys =
  shared :: State
  closers :: "nat \<Rightarrow> closer"

inductive lifecycle_step :: "lifecycle_sys \<Rightarrow> lifecycle_sys \<Rightarrow> bool" where
  load: "closers s i = Idle \<Longrightarrow>
    lifecycle_step s (s\<lparr>closers := (closers s)(i := Looping (shared s))\<rparr>)"
| cas_ok: "closers s i = Looping cur \<Longrightarrow> cur = Open \<or> cur = Draining \<Longrightarrow> shared s = cur \<Longrightarrow>
    lifecycle_step s (s\<lparr>shared := Closing, closers := (closers s)(i := Returned True)\<rparr>)"
| cas_fail: "closers s i = Looping cur \<Longrightarrow> cur = Open \<or> cur = Draining \<Longrightarrow>
    lifecycle_step s (s\<lparr>closers := (closers s)(i := Looping (shared s))\<rparr>)"
| give_up: "closers s i = Looping cur \<Longrightarrow> \<not> (cur = Open \<or> cur = Draining) \<Longrightarrow>
    lifecycle_step s (s\<lparr>closers := (closers s)(i := Returned False)\<rparr>)"
| drain: "lifecycle_step s (s\<lparr>shared := snd (BeginDrain (shared s))\<rparr>)"
| complete: "lifecycle_step s (s\<lparr>shared := snd (CompleteClose (shared s))\<rparr>)"

inductive_cases lifecycle_stepE: "lifecycle_step s t"

definition lifecycle_init :: "lifecycle_sys \<Rightarrow> bool" where
  "lifecycle_init s \<longleftrightarrow> shared s = Open \<and> (\<forall>i. closers s i = Idle)"

definition winners :: "lifecycle_sys \<Rightarrow> nat set" where
  "winners s = {i. closers s i = Returned True}"

definition close_inv :: "lifecycle_sys \<Rightarrow> bool" where
  "close_inv s \<longleftrightarrow>
     (if shared s = Open \<or> shared s = Draining then winners s = {} else (\<exists>i. winners s = {i}))
     \<and> (\<forall>i c. closers s i = Looping c \<longrightarrow> c \<le> shared s)
     \<and> (\<forall>i. closers s i = Returned False \<longrightarrow> Closing \<le> shared s)"

lemma winners_upd:
  "closers s i \<noteq> Returned True \<Longrightarrow>
   winners (s\<lparr>closers := (closers s)(i := c)\<rparr>) = (if c = Returned True then insert i (winners s) else winners s)"
  by (auto simp: winners_def)

lemma winners_shared [simp]: "winners (s\<lparr>shared := x\<rparr>) = winners s"
  by (simp add: winners_def)

lemma winners_shared_upd [simp]:
  "winners (s\<lparr>shared := x, closers := f\<rparr>) = winners (s\<lparr>closers := f\<rparr>)"
  by (simp add: winners_def)

lemma close_inv_step:
  assumes "close_inv s" and "lifecycle_step s t"
  shows "close_inv t"
  using assms(2)
proof (cases rule: lifecycle_step.cases)
  case (load i)
  with assms(1) show ?thesis by (auto simp: close_inv_def winners_upd)
next
  case (cas_ok i cur)
  have "c \<le> Closing" if "closers s j = Looping c" for j c
  proof -
    have "rank c \<le> rank (shared s)" using assms(1) that by (auto simp: close_inv_def less_eq_State_def)
    with cas_ok show ?thesis by (auto simp: less_eq_State_def)
  qed
  with cas_ok assms(1) show ?thesis by (simp add: close_inv_def winners_upd)
next
  case (cas_fail i cur)
  with assms(1) show ?thesis by (auto simp: close_inv_def winners_upd)
next
  case (give_up i cur)
  then have "rank cur \<le> rank (shared s)" using assms(1) by (auto simp: close_inv_def less_eq_State_def)
  with give_up have "Closing \<le> shared s" by (cases cur) (auto simp: less_eq_State_def)
  with give_up assms(1) show ?thesis by (auto simp: close_inv_def winners_upd)
next
  case drain
  with assms(1) show ?thesis
    by (cases "shared s") (auto simp: close_inv_def lifecycle_defs less_eq_State_def)
next
  case complete
  have "rank c \<le> 3" for c by (cases c) auto
  with complete assms(1) show ?thesis
    by (cases "shared s") (auto simp: close_inv_def lifecycle_defs less_eq_State_def)
qed

interpretation lifecycle: invariant_system lifecycle_init lifecycle_step close_inv
proof
  fix s assume "lifecycle_init s"
  then show "close_inv s" by (auto simp: lifecycle_init_def close_inv_def winners_def)
qed (rule close_inv_step)

lemma lifecycle_step_monotone: "lifecycle_step s t \<Longrightarrow> shared s \<le> shared t"
  by (erule lifecycle_stepE) (simp_all add: lifecycle_monotone, auto simp: less_eq_State_def)

subsection \<open>Properties\<close>

text \<open>
  C24.  Under every interleaving of any number of callers, with spurious compare-exchange failures,
  \<open>BeginClose\<close> returns \<open>true\<close> to nobody while the session is open or draining and to exactly one
  caller once it is closing or closed; a caller that was refused finds the session at least closing.
\<close>

theorem begin_close_once:
  assumes "reach lifecycle_init lifecycle_step s"
  shows "(if shared s = Open \<or> shared s = Draining then winners s = {} else \<exists>i. winners s = {i})
         \<and> (\<forall>i. closers s i = Returned False \<longrightarrow> Closing \<le> shared s)"
  using lifecycle.inv_reach [OF assms] by (simp add: close_inv_def)

definition demo_lifecycle :: "nat \<Rightarrow> lifecycle_sys" where
  "demo_lifecycle n =
     (if n = 0 then \<lparr>shared = Open, closers = \<lambda>_. Idle\<rparr>
      else if n = 1 then \<lparr>shared = Open, closers = (\<lambda>_. Idle)(0 := Looping Open)\<rparr>
      else \<lparr>shared = Closing, closers = (\<lambda>_. Idle)(0 := Returned True)\<rparr>)"

theorem begin_close_once_witness: "\<exists>i. winners (demo_lifecycle 2) = {i}"
proof -
  have "reach lifecycle_init lifecycle_step (demo_lifecycle 0)"
    by (rule reach_init) (simp add: lifecycle_init_def demo_lifecycle_def)
  moreover have "lifecycle_step (demo_lifecycle 0) (demo_lifecycle 1)"
    using lifecycle_step.load [of "demo_lifecycle 0" 0] by (simp add: demo_lifecycle_def)
  moreover have "lifecycle_step (demo_lifecycle 1) (demo_lifecycle 2)"
    using lifecycle_step.cas_ok [of "demo_lifecycle 1" 0 Open] by (simp add: demo_lifecycle_def)
  ultimately have "reach lifecycle_init lifecycle_step (demo_lifecycle 2)" by (blast intro: reach_step)
  from begin_close_once [OF this] show ?thesis by (simp add: demo_lifecycle_def)
qed

end
