(* ===== verification/Logic_Worker.thy ===== *)
theory Logic_Worker
  imports Chat_Prelude
begin

text \<open>
  \<open>server/common/src/LogicWorker.cpp\<close>: one thread that executes posted tasks in order.

  The record holds the members \<open>_task_que\<close> and \<open>_stopping\<close>, the task the thread has taken out of the
  queue and runs outside the lock, and whether the thread has left its loop.  Two fields record
  history and are read by no operation: \<open>accepted\<close>, the tasks \<open>Post\<close> answered \<open>true\<close> for, and
  \<open>executed\<close>, the tasks that ran.  Every step is one critical section of \<open>_mutex\<close> (or the execution
  of the task), so that a run is any interleaving of callers with the thread.
\<close>

record 'a worker =
  task_que :: "'a list"
  stopping :: bool
  current :: "'a option"
  exited :: bool
  accepted :: "'a list"
  executed :: "'a list"

definition worker_new :: "'a worker" where
  "worker_new = \<lparr>task_que = [], stopping = False, current = None, exited = False,
                 accepted = [], executed = []\<rparr>"

definition Post :: "'a \<Rightarrow> 'a worker \<Rightarrow> bool \<times> 'a worker" where
  "Post t w =
     (if stopping w then (False, w)
      else (True, w\<lparr>task_que := task_que w @ [t], accepted := accepted w @ [t]\<rparr>))"

text \<open>\<open>Stop\<close> up to its \<open>join\<close>: the result says whether this caller is the one that joins.\<close>

definition Stop :: "'a worker \<Rightarrow> bool \<times> 'a worker" where
  "Stop w = (if stopping w then (False, w) else (True, w\<lparr>stopping := True\<rparr>))"

text \<open>
  One pass through the critical section of \<open>RunLoop\<close>: \<open>None\<close> while the wait condition is false,
  otherwise the thread takes the front task or leaves.
\<close>

definition RunLoop_take :: "'a worker \<Rightarrow> 'a worker option" where
  "RunLoop_take w =
     (if exited w \<or> current w \<noteq> None then None
      else if \<not> (stopping w \<or> task_que w \<noteq> []) then None
      else if task_que w = [] then Some (w\<lparr>exited := True\<rparr>)
      else Some (w\<lparr>current := Some (hd (task_que w)), task_que := tl (task_que w)\<rparr>))"

definition RunLoop_run :: "'a worker \<Rightarrow> 'a worker option" where
  "RunLoop_run w =
     (case current w of None \<Rightarrow> None
      | Some t \<Rightarrow> Some (w\<lparr>current := None, executed := executed w @ [t]\<rparr>))"

inductive worker_step :: "'a worker \<Rightarrow> 'a worker \<Rightarrow> bool" where
  step_post: "worker_step w (snd (Post t w))"
| step_stop: "worker_step w (snd (Stop w))"
| step_take: "RunLoop_take w = Some w' \<Longrightarrow> worker_step w w'"
| step_run: "RunLoop_run w = Some w' \<Longrightarrow> worker_step w w'"

inductive_cases worker_stepE: "worker_step w w'"

definition worker_inv :: "'a worker \<Rightarrow> bool" where
  "worker_inv w \<longleftrightarrow>
     accepted w = executed w @ (case current w of None \<Rightarrow> [] | Some t \<Rightarrow> [t]) @ task_que w
     \<and> (exited w \<longrightarrow> stopping w \<and> task_que w = [] \<and> current w = None)"

lemma worker_inv_new: "worker_inv worker_new"
  by (simp add: worker_inv_def worker_new_def)

lemma worker_inv_Post [inv_intros]: "worker_inv w \<Longrightarrow> worker_inv (snd (Post t w))"
  by (auto simp: worker_inv_def Post_def)

lemma worker_inv_Stop [inv_intros]: "worker_inv w \<Longrightarrow> worker_inv (snd (Stop w))"
  by (auto simp: worker_inv_def Stop_def)

lemma worker_inv_take [inv_intros]: "worker_inv w \<Longrightarrow> RunLoop_take w = Some w' \<Longrightarrow> worker_inv w'"
  by (auto simp: worker_inv_def RunLoop_take_def split: if_splits)

lemma worker_inv_run [inv_intros]: "worker_inv w \<Longrightarrow> RunLoop_run w = Some w' \<Longrightarrow> worker_inv w'"
  by (auto simp: worker_inv_def RunLoop_run_def split: option.splits)

interpretation worker: invariant_system "\<lambda>w. w = worker_new" worker_step worker_inv
  by unfold_locales (auto elim!: worker_stepE intro: inv_intros worker_inv_new)

subsection \<open>Draining after a stop\<close>

text \<open>
  The thread alone, after \<open>Stop\<close>: it alternates the two steps until it exits.  The measure counts
  the steps still to come.
\<close>

fun thread_step :: "'a worker \<Rightarrow> 'a worker option" where
  "thread_step w = (case RunLoop_run w of Some w' \<Rightarrow> Some w' | None \<Rightarrow> RunLoop_take w)"

declare thread_step.simps [simp del]

fun thread_steps :: "nat \<Rightarrow> 'a worker \<Rightarrow> 'a worker" where
  "thread_steps 0 w = w"
| "thread_steps (Suc n) w = (case thread_step w of None \<Rightarrow> w | Some w' \<Rightarrow> thread_steps n w')"

definition drain_steps :: "'a worker \<Rightarrow> nat" where
  "drain_steps w = 2 * length (task_que w) + (if current w = None then 0 else 1) + (if exited w then 0 else 1)"

lemma thread_step_progress:
  assumes "worker_inv w" and "stopping w" and "\<not> exited w"
  obtains w' where "thread_step w = Some w'" "worker_inv w'" "stopping w'" "accepted w' = accepted w"
    "drain_steps w = Suc (drain_steps w')"
proof (cases "current w")
  case None
  show ?thesis
  proof (cases "task_que w = []")
    case True
    let ?w = "w\<lparr>exited := True\<rparr>"
    have "RunLoop_take w = Some ?w" using None True assms by (simp add: RunLoop_take_def)
    then show ?thesis using that [of ?w] worker_inv_take [OF assms(1)] None True assms
      by (simp add: thread_step.simps RunLoop_run_def drain_steps_def)
  next
    case False
    let ?w = "w\<lparr>current := Some (hd (task_que w)), task_que := tl (task_que w)\<rparr>"
    have "RunLoop_take w = Some ?w" using None False assms by (simp add: RunLoop_take_def)
    moreover have "drain_steps w = Suc (drain_steps ?w)"
      using None False assms by (cases "task_que w") (auto simp: drain_steps_def)
    ultimately show ?thesis using that [of ?w] worker_inv_take [OF assms(1)] None False assms
      by (simp add: thread_step.simps RunLoop_run_def)
  qed
next
  case (Some t)
  let ?w = "w\<lparr>current := None, executed := executed w @ [t]\<rparr>"
  have "RunLoop_run w = Some ?w" using Some by (simp add: RunLoop_run_def)
  then show ?thesis using that [of ?w] worker_inv_run [OF assms(1)] Some assms
    by (simp add: thread_step.simps drain_steps_def)
qed

lemma thread_drains:
  "worker_inv w \<Longrightarrow> stopping w \<Longrightarrow>
   exited (thread_steps (drain_steps w) w) \<and> executed (thread_steps (drain_steps w) w) = accepted w"
proof (induction "drain_steps w" arbitrary: w)
  case 0
  then show ?case
    by (auto simp: drain_steps_def worker_inv_def split: if_splits)
next
  case (Suc n)
  show ?case
  proof (cases "exited w")
    case True
    then have "drain_steps w = 0" using Suc.prems by (simp add: drain_steps_def worker_inv_def)
    with Suc.hyps(2) show ?thesis by simp
  next
    case False
    obtain w' where w': "thread_step w = Some w'" "worker_inv w'" "stopping w'" "accepted w' = accepted w"
      "drain_steps w = Suc (drain_steps w')"
      using thread_step_progress [OF Suc.prems False] by blast
    then show ?thesis using Suc.hyps by fastforce
  qed
qed

subsection \<open>Properties\<close>

text \<open>
  C25.  In every interleaving of callers and the worker thread the tasks run in the order in which they
  were accepted, each once: the executed tasks, the running one and the queue are together the
  accepted tasks, and when the thread has left its loop every accepted task was executed.
\<close>

theorem worker_fifo:
  assumes "reach (\<lambda>w. w = worker_new) worker_step w"
  shows "accepted w = executed w @ (case current w of None \<Rightarrow> [] | Some t \<Rightarrow> [t]) @ task_que w
         \<and> (exited w \<longrightarrow> executed w = accepted w)"
  using worker.inv_reach [OF assms] by (simp add: worker_inv_def)

theorem worker_fifo_witness:
  "accepted (snd (Post 7 (worker_new :: nat worker))) = [7 :: nat]"
proof -
  have "reach (\<lambda>w. w = worker_new) worker_step (snd (Post (7 :: nat) worker_new))"
    by (rule reach_step [where s = worker_new]) (simp_all add: reach_init step_post)
  from worker_fifo [OF this] show ?thesis by (simp add: Post_def worker_new_def)
qed

text \<open>
  C26.  Stopping drains: from every reachable state in which \<open>Stop\<close> was called, the thread running on
  its own leaves the loop after finitely many steps, with every accepted task executed in order.
\<close>

theorem stop_drains:
  assumes "reach (\<lambda>w. w = worker_new) worker_step w" and "stopping w"
  shows "exited (thread_steps (drain_steps w) w) \<and> executed (thread_steps (drain_steps w) w) = accepted w"
  using thread_drains worker.inv_reach [OF assms(1)] assms(2) by blast

theorem stop_drains_witness:
  "executed (thread_steps 3 (snd (Stop (snd (Post (7 :: nat) worker_new))))) = [7]"
proof -
  let ?w = "snd (Stop (snd (Post (7 :: nat) worker_new)))"
  have "reach (\<lambda>w. w = worker_new) worker_step (snd (Post (7 :: nat) worker_new))"
    by (rule reach_step [where s = worker_new]) (simp_all add: reach_init step_post)
  then have "reach (\<lambda>w. w = worker_new) worker_step ?w" by (rule reach_step) (rule step_stop)
  moreover have "stopping ?w" "drain_steps ?w = 3" "accepted ?w = [7]"
    by (simp_all add: Stop_def Post_def worker_new_def drain_steps_def)
  ultimately show ?thesis using stop_drains [of ?w] by simp
qed

end
