(* ===== verification/File_Store.thy ===== *)
theory File_Store
  imports Sha256_Util
begin

text \<open>
  The POSIX file system as the resource server uses it.  A path is its list of components
  (\<open>root / ''uploading''\<close> appends one, \<open>parent_path\<close> drops the last one; an absolute path starts
  with the component \<open>''/''\<close>).  A name refers to a directory or to an inode, so that \<open>link\<close> makes
  two names for the same data.  \<open>dirty\<close> holds the inodes with data that was not \<open>fsync\<close>ed, and
  \<open>dnames\<close> the directory entries that are on stable storage; both matter only to \<open>crash\<close>.

  The outcomes of system calls are not known to the program.  They are a list in the state, one
  entry for each fallible call in the order the calls are made; an exhausted list means that every
  further call succeeds.  \<open>Torn s\<close> is a write that stores other bytes than it was given, or fewer,
  without reporting it; for any other call it is a failure like \<open>Fails\<close>.  Removing the source
  of a completed \<open>link\<close> can fail only where \<open>unlink_fallible\<close> is set, so that statements can exclude
  this one failure.
\<close>

type_synonym path = "string list"

datatype fault = Fine | Fails | Torn string

datatype node = File nat | Dir

record fs =
  names :: "path \<Rightarrow> node option"
  data :: "nat \<Rightarrow> string"
  next_inode :: nat
  dirty :: "nat \<Rightarrow> bool"
  dnames :: "path \<Rightarrow> node option"
  faults :: "fault list"
  unlink_fallible :: bool

definition parent_path :: "path \<Rightarrow> path" where
  "parent_path p = butlast p"

definition content :: "fs \<Rightarrow> path \<Rightarrow> string option" where
  "content f p = (case names f p of Some (File i) \<Rightarrow> Some (data f i) | _ \<Rightarrow> None)"

definition next_fault :: "fs \<Rightarrow> fault \<times> fs" where
  "next_fault f = (case faults f of [] \<Rightarrow> (Fine, f) | x # xs \<Rightarrow> (x, f\<lparr>faults := xs\<rparr>))"

definition syscall :: "fs \<Rightarrow> bool \<times> fs" where
  "syscall f = (let (x, f1) = next_fault f in (x = Fine, f1))"

definition is_directory :: "path \<Rightarrow> fs \<Rightarrow> bool" where
  "is_directory p f \<longleftrightarrow> names f p = Some Dir"

text \<open>The empty path stands for the working directory, which exists.\<close>

definition dir_exists :: "path \<Rightarrow> fs \<Rightarrow> bool" where
  "dir_exists p f \<longleftrightarrow> p = [] \<or> is_directory p f"

subsection \<open>System calls\<close>

definition set_data :: "path \<Rightarrow> string \<Rightarrow> fs \<Rightarrow> fs" where
  "set_data p d f =
     (case names f p of Some (File i) \<Rightarrow> f\<lparr>data := (data f)(i := d), dirty := (dirty f)(i := True)\<rparr> | _ \<Rightarrow> f)"

definition new_file :: "path \<Rightarrow> string \<Rightarrow> fs \<Rightarrow> fs" where
  "new_file p d f =
     f\<lparr>names := (names f)(p \<mapsto> File (next_inode f)), data := (data f)(next_inode f := d),
       dirty := (dirty f)(next_inode f := True), next_inode := Suc (next_inode f)\<rparr>"

definition open_existing :: "path \<Rightarrow> fs \<Rightarrow> bool \<times> fs" where
  "open_existing p f = (let (ok, f1) = syscall f in (ok \<and> content f p \<noteq> None, f1))"

definition open_append :: "path \<Rightarrow> fs \<Rightarrow> bool \<times> fs" where
  "open_append p f =
     (let (ok, f1) = syscall f in
      if \<not> ok \<or> \<not> dir_exists (parent_path p) f1 then (False, f1)
      else case names f1 p of
        Some Dir \<Rightarrow> (False, f1)
      | Some (File i) \<Rightarrow> (True, f1)
      | None \<Rightarrow> (True, new_file p [] f1))"

definition write_at :: "path \<Rightarrow> nat \<Rightarrow> string \<Rightarrow> fs \<Rightarrow> bool \<times> fs" where
  "write_at p off d f =
     (let (x, f1) = next_fault f; old = (case content f1 p of None \<Rightarrow> [] | Some c \<Rightarrow> c) in
      case x of
        Fine \<Rightarrow> (True, set_data p (put_at off d old) f1)
      | Fails \<Rightarrow> (False, f1)
      | Torn s \<Rightarrow> (True, set_data p (put_at off (take (length d) s) old) f1))"

definition read_at :: "path \<Rightarrow> nat \<Rightarrow> nat \<Rightarrow> fs \<Rightarrow> string option \<times> fs" where
  "read_at p off len f =
     (let (ok, f1) = syscall f in
      (if ok then map_option (window off len) (content f1 p) else None, f1))"

definition resize_file :: "path \<Rightarrow> nat \<Rightarrow> fs \<Rightarrow> bool \<times> fs" where
  "resize_file p n f =
     (let (ok, f1) = syscall f in
      if \<not> ok then (False, f1)
      else case content f1 p of None \<Rightarrow> (False, f1)
        | Some c \<Rightarrow> (True, set_data p (take n c @ replicate (n - length c) (CHR 0x00)) f1))"

text \<open>\<open>remove\<close> of \<open>boost::filesystem\<close>: succeeds when there is nothing to remove.\<close>

definition remove_file :: "path \<Rightarrow> fs \<Rightarrow> bool \<times> fs" where
  "remove_file p f =
     (let (ok, f1) = syscall f in
      if \<not> ok then (False, f1) else (True, f1\<lparr>names := (names f1)(p := None)\<rparr>))"

definition fsync_file :: "path \<Rightarrow> fs \<Rightarrow> bool \<times> fs" where
  "fsync_file p f =
     (let (ok, f1) = syscall f in
      if \<not> ok then (False, f1)
      else case names f1 p of
        Some (File i) \<Rightarrow> (True, f1\<lparr>dirty := (dirty f1)(i := False)\<rparr>)
      | _ \<Rightarrow> (True, f1))"

definition fsync_dir :: "path \<Rightarrow> fs \<Rightarrow> bool \<times> fs" where
  "fsync_dir d f =
     (let (ok, f1) = syscall f in
      if \<not> ok then (False, f1)
      else (True, f1\<lparr>dnames := (\<lambda>p. if p \<noteq> [] \<and> parent_path p = d then names f1 p else dnames f1 p)\<rparr>))"

fun prefixes_of :: "path \<Rightarrow> path list" where
  "prefixes_of p = (if p = [] then [] else prefixes_of (butlast p) @ [p])"

declare prefixes_of.simps [simp del]

definition create_directories :: "path \<Rightarrow> fs \<Rightarrow> bool \<times> fs" where
  "create_directories d f =
     (let (ok, f1) = syscall f in
      if \<not> ok \<or> list_ex (\<lambda>p. content f1 p \<noteq> None) (prefixes_of d) then (False, f1)
      else (True, f1\<lparr>names := (\<lambda>p. if p \<in> set (prefixes_of d) then Some Dir else names f1 p)\<rparr>))"

definition create_directory :: "path \<Rightarrow> fs \<Rightarrow> bool \<times> fs" where
  "create_directory d f =
     (let (ok, f1) = syscall f in
      if \<not> ok \<or> \<not> dir_exists (parent_path d) f1 \<or> content f1 d \<noteq> None then (False, f1)
      else (True, f1\<lparr>names := (names f1)(d \<mapsto> Dir)\<rparr>))"

datatype link_result = Linked | Exists | LinkError

definition link_file :: "path \<Rightarrow> path \<Rightarrow> fs \<Rightarrow> link_result \<times> fs" where
  "link_file src dst f =
     (let (ok, f1) = syscall f in
      if \<not> ok \<or> content f1 src = None \<or> \<not> dir_exists (parent_path dst) f1 then (LinkError, f1)
      else if names f1 dst \<noteq> None then (Exists, f1)
      else (Linked, f1\<lparr>names := (names f1)(dst := names f1 src)\<rparr>))"

definition unlink_file :: "path \<Rightarrow> fs \<Rightarrow> bool \<times> fs" where
  "unlink_file p f =
     (let (ok, f1) = syscall f in
      if (\<not> ok \<and> unlink_fallible f1) \<or> content f1 p = None then (False, f1)
      else (True, f1\<lparr>names := (names f1)(p := None)\<rparr>))"

definition rename_file :: "path \<Rightarrow> path \<Rightarrow> fs \<Rightarrow> bool \<times> fs" where
  "rename_file src dst f =
     (let (ok, f1) = syscall f in
      if \<not> ok \<or> content f1 src = None \<or> \<not> dir_exists (parent_path dst) f1 \<or> is_directory dst f1 then (False, f1)
      else if names f1 src = names f1 dst then (True, f1)
      else (True, f1\<lparr>names := (names f1)(dst := names f1 src, src := None)\<rparr>))"

text \<open>
  A power failure: an inode with unsynced data may hold anything afterwards, and each directory
  entry is either the current one or the one last made durable.
\<close>

definition crash :: "fs \<Rightarrow> fs \<Rightarrow> bool" where
  "crash f g \<longleftrightarrow>
     (\<forall>i. \<not> dirty f i \<longrightarrow> data g i = data f i)
     \<and> (\<forall>p. names g p = names f p \<or> names g p = dnames f p)
     \<and> unlink_fallible g = unlink_fallible f \<and> dnames g = names g \<and> next_inode g = next_inode f \<and> (\<forall>i. \<not> dirty g i)"

subsection \<open>Digest of a file\<close>

definition healthy_io :: file_hash_io where
  "healthy_io = \<lparr>ctx_fails = False, init_fails = False, read_fails = \<lambda>_. False,
                 update_fails = \<lambda>_. False, final_fails = False\<rparr>"

definition file_hash :: "(string \<Rightarrow> string) \<Rightarrow> path \<Rightarrow> fs \<Rightarrow> string \<times> fs" where
  "file_hash sha p f =
     (let (ok, f1) = syscall f in
      (Sha256FileHex sha (healthy_io\<lparr>final_fails := \<not> ok\<rparr>) (content f1 p), f1))"

subsection \<open>The environment's choices\<close>

lemma next_fault_eq: "next_fault f = (hd (faults f @ [Fine]), f\<lparr>faults := tl (faults f)\<rparr>)"
  by (cases "faults f") (auto simp: next_fault_def)

lemma syscallE:
  assumes "syscall f = (ok, g)"
  obtains "g = f\<lparr>faults := tl (faults f)\<rparr>"
  using assms by (auto simp: syscall_def next_fault_eq Let_def)

lemma content_faults [simp]: "content (f\<lparr>faults := xs\<rparr>) = content f"
  by (rule ext) (simp add: content_def split: option.split node.split)

lemma is_directory_faults [simp]: "is_directory p (f\<lparr>faults := xs\<rparr>) = is_directory p f"
  by (simp add: is_directory_def)

lemma dir_exists_faults [simp]: "dir_exists p (f\<lparr>faults := xs\<rparr>) = dir_exists p f"
  by (simp add: dir_exists_def)

lemma set_data_faults [simp]: "set_data p d (f\<lparr>faults := xs\<rparr>) = (set_data p d f)\<lparr>faults := xs\<rparr>"
  by (simp add: set_data_def split: option.splits node.splits)

lemma new_file_faults [simp]: "new_file p d (f\<lparr>faults := xs\<rparr>) = (new_file p d f)\<lparr>faults := xs\<rparr>"
  by (simp add: new_file_def)

subsection \<open>Well-formed states without shared inodes\<close>

definition fs_wf :: "fs \<Rightarrow> bool" where
  "fs_wf f \<longleftrightarrow> (\<forall>p i. names f p = Some (File i) \<longrightarrow> i < next_inode f)
     \<and> (\<forall>p i. dnames f p = Some (File i) \<longrightarrow> i < next_inode f)"

definition no_alias :: "fs \<Rightarrow> bool" where
  "no_alias f \<longleftrightarrow> (\<forall>p q i. names f p = Some (File i) \<longrightarrow> names f q = Some (File i) \<longrightarrow> p = q)"

definition fs_ok :: "fs \<Rightarrow> bool" where
  "fs_ok f \<longleftrightarrow> fs_wf f \<and> no_alias f \<and> \<not> unlink_fallible f"

lemma fs_ok_faults [simp]: "fs_ok (f\<lparr>faults := xs\<rparr>) = fs_ok f"
  by (simp add: fs_ok_def fs_wf_def no_alias_def)

lemma content_SomeE:
  assumes "content f p = Some c"
  obtains i where "names f p = Some (File i)" "data f i = c"
  using assms by (auto simp: content_def split: option.splits node.splits)

lemma content_set_data:
  assumes "no_alias f" and "content f p \<noteq> None"
  shows "content (set_data p d f) = (content f)(p \<mapsto> d)"
proof
  fix q
  obtain i where i: "names f p = Some (File i)" using assms(2) by (auto elim: content_SomeE)
  show "content (set_data p d f) q = ((content f)(p \<mapsto> d)) q"
    using i assms(1) unfolding no_alias_def
    by (auto simp: set_data_def content_def split: option.splits node.splits)
qed

lemma fs_ok_set_data [inv_intros]: "fs_ok f \<Longrightarrow> fs_ok (set_data p d f)"
  by (auto simp: set_data_def fs_ok_def fs_wf_def no_alias_def split: option.splits node.splits)

lemma content_new_file: "fs_wf f \<Longrightarrow> content (new_file p d f) = (content f)(p \<mapsto> d)"
  by (auto simp: new_file_def content_def fs_wf_def fun_eq_iff split: option.splits node.splits)

lemma fs_ok_new_file [inv_intros]: "fs_ok f \<Longrightarrow> fs_ok (new_file p d f)"
  by (fastforce simp: new_file_def fs_ok_def fs_wf_def no_alias_def split: if_splits)

subsection \<open>What each call does to the contents\<close>

text \<open>
  For a state in which no inode has two names, every call either keeps all contents or changes
  the content of the named files only; and it leaves such a state behind.
\<close>

lemma open_existing_D:
  assumes "open_existing p f = (ok, g)"
  shows "g = f\<lparr>faults := tl (faults f)\<rparr>" "ok \<Longrightarrow> content f p \<noteq> None"
  using assms by (auto simp: open_existing_def Let_def split: prod.splits elim: syscallE)

lemma open_append_D:
  assumes "open_append p f = (ok, g)" and "fs_ok f"
  shows "fs_ok g"
    and "content g = content f \<or> (ok \<and> content f p = None \<and> content g = (content f)(p \<mapsto> []))"
    and "ok \<Longrightarrow> content g p \<noteq> None"
proof -
  obtain b h where h: "syscall f = (b, h)" by fastforce
  then have h': "h = f\<lparr>faults := tl (faults f)\<rparr>" by (auto elim: syscallE)
  have cases: "g = h \<and> (ok \<longrightarrow> content f p \<noteq> None) \<or> g = new_file p [] h \<and> ok \<and> content f p = None"
    using assms(1) h h' by (auto simp: open_append_def content_def split: if_splits option.splits node.splits)
  have wf: "fs_wf f" using assms(2) by (simp add: fs_ok_def)
  from cases wf assms(2) h' show "fs_ok g"
    "content g = content f \<or> (ok \<and> content f p = None \<and> content g = (content f)(p \<mapsto> []))"
    "ok \<Longrightarrow> content g p \<noteq> None"
    by (auto simp: content_new_file inv_intros)
qed

lemma write_at_D:
  assumes "write_at p off d f = (ok, g)" and "fs_ok f" and "content f p = Some c"
  shows "fs_ok g"
    and "\<exists>s. content g = (content f)(p \<mapsto> s) \<and> (s = c \<or> (\<exists>w. length w \<le> length d \<and> s = put_at off w c))"
proof -
  have na: "no_alias f" using assms(2) by (simp add: fs_ok_def)
  note upd = content_set_data [OF na, of p] assms(3)
  show "fs_ok g"
    using assms by (auto simp: write_at_def next_fault_eq Let_def split: fault.splits intro!: inv_intros)
  have "content g = content f \<or> (\<exists>w. length w \<le> length d \<and> content g = (content f)(p \<mapsto> put_at off w c))"
  proof (cases "hd (faults f @ [Fine])")
    case Fine
    then show ?thesis using assms(1) upd
      by (intro disjI2 exI [of _ d]) (auto simp: write_at_def next_fault_eq)
  next
    case Fails
    then show ?thesis using assms(1) by (auto simp: write_at_def next_fault_eq)
  next
    case (Torn x)
    then show ?thesis using assms(1) upd
      by (intro disjI2 exI [of _ "take (length d) x"]) (auto simp: write_at_def next_fault_eq)
  qed
  then consider "content g = content f"
    | w where "length w \<le> length d" "content g = (content f)(p \<mapsto> put_at off w c)" by blast
  then show "\<exists>s. content g = (content f)(p \<mapsto> s) \<and> (s = c \<or> (\<exists>w. length w \<le> length d \<and> s = put_at off w c))"
  proof cases
    case 1
    then show ?thesis using assms(3) by (intro exI [of _ c]) (auto simp: fun_upd_idem)
  next
    case 2
    then show ?thesis by blast
  qed
qed

lemma read_at_D:
  assumes "read_at p off len f = (r, g)"
  shows "g = f\<lparr>faults := tl (faults f)\<rparr>" "r = Some d \<Longrightarrow> \<exists>c. content f p = Some c \<and> d = window off len c"
  using assms by (auto simp: read_at_def Let_def split: prod.splits if_splits elim: syscallE)

lemma resize_file_D:
  assumes "resize_file p n f = (ok, g)" and "fs_ok f"
  shows "fs_ok g"
    and "if ok then \<exists>c. content f p = Some c \<and>
                content g = (content f)(p \<mapsto> take n c @ replicate (n - length c) (CHR 0x00))
         else content g = content f"
proof -
  have na: "no_alias f" using assms(2) by (simp add: fs_ok_def)
  show "fs_ok g" using assms
    by (auto simp: resize_file_def syscall_def next_fault_eq Let_def split: if_splits option.splits intro!: inv_intros)
  show "if ok then \<exists>c. content f p = Some c \<and>
                content g = (content f)(p \<mapsto> take n c @ replicate (n - length c) (CHR 0x00))
         else content g = content f"
    using assms(1) content_set_data [OF na, of p]
    by (auto simp: resize_file_def syscall_def next_fault_eq Let_def split: if_splits option.splits)
qed

lemma content_drop_name:
  "content (f\<lparr>names := (names f)(p := None)\<rparr>) = (content f)(p := None)"
  by (rule ext) (simp add: content_def split: option.split node.split)

lemma fs_ok_drop_name [inv_intros]: "fs_ok f \<Longrightarrow> fs_ok (f\<lparr>names := (names f)(p := None)\<rparr>)"
  by (auto simp: fs_ok_def fs_wf_def no_alias_def)

lemma remove_file_D:
  assumes "remove_file p f = (ok, g)" and "fs_ok f"
  shows "fs_ok g" "content g = (if ok then (content f)(p := None) else content f)"
  using assms content_drop_name [of "f\<lparr>faults := tl (faults f)\<rparr>" p]
    fs_ok_drop_name [of "f\<lparr>faults := tl (faults f)\<rparr>" p]
  by (auto simp: remove_file_def syscall_def next_fault_eq Let_def split: if_splits)

lemma fsync_file_D:
  assumes "fsync_file p f = (ok, g)"
  shows "names g = names f" "data g = data f" "dnames g = dnames f" "next_inode g = next_inode f"
    "unlink_fallible g = unlink_fallible f"
    "ok \<Longrightarrow> names f p = Some (File i) \<Longrightarrow> \<not> dirty g i" "dirty g j \<Longrightarrow> dirty f j"
  using assms by (auto simp: fsync_file_def syscall_def next_fault_eq Let_def
      split: if_splits option.splits node.splits)

lemma fsync_dir_D:
  assumes "fsync_dir d f = (ok, g)"
  shows "names g = names f" "data g = data f" "dirty g = dirty f" "next_inode g = next_inode f"
    "unlink_fallible g = unlink_fallible f"
    "dnames g = (if ok then (\<lambda>p. if p \<noteq> [] \<and> parent_path p = d then names f p else dnames f p) else dnames f)"
  using assms by (auto simp: fsync_dir_def syscall_def next_fault_eq Let_def split: if_splits)

lemma content_cong: "names g = names f \<Longrightarrow> data g = data f \<Longrightarrow> content g = content f"
  by (rule ext) (simp add: content_def split: option.split node.split)

lemma fs_ok_cong:
  assumes "names g = names f" and "next_inode g = next_inode f" and "unlink_fallible g = unlink_fallible f"
    and "\<And>p. dnames g p = dnames f p \<or> dnames g p = names f p" and "fs_ok f"
  shows "fs_ok g"
proof -
  have "i < next_inode f" if "dnames g p = Some (File i)" for p i
    using assms(4) [of p] assms(5) that by (auto simp: fs_ok_def fs_wf_def)
  with assms show ?thesis by (simp add: fs_ok_def fs_wf_def no_alias_def)
qed

lemma fsync_dir_ok:
  assumes "fsync_dir d f = (ok, g)"
  shows "content g = content f" "fs_ok f \<Longrightarrow> fs_ok g"
proof -
  note D = fsync_dir_D [OF assms]
  show "content g = content f" by (rule content_cong [OF D(1,2)])
  have "dnames g p = dnames f p \<or> dnames g p = names f p" for p by (simp add: D(6))
  then show "fs_ok f \<Longrightarrow> fs_ok g" by (rule fs_ok_cong [OF D(1,4,5)])
qed

lemma fsync_file_ok:
  assumes "fsync_file p f = (ok, g)"
  shows "content g = content f" "fs_ok f \<Longrightarrow> fs_ok g"
  using fsync_file_D(1-5) [OF assms] by (auto intro: content_cong fs_ok_cong)

lemma content_add_dirs:
  assumes "\<forall>p \<in> D. content f p = None"
  shows "content (f\<lparr>names := (\<lambda>p. if p \<in> D then Some Dir else names f p)\<rparr>) = content f"
proof
  fix q
  show "content (f\<lparr>names := (\<lambda>p. if p \<in> D then Some Dir else names f p)\<rparr>) q = content f q"
    using assms by (cases "q \<in> D") (auto simp: content_def split: option.split node.split)
qed

lemma create_directories_D:
  assumes "create_directories d f = (ok, g)" and "fs_ok f"
  shows "fs_ok g" "content g = content f"
proof -
  show "fs_ok g" using assms
    by (auto simp: create_directories_def syscall_def next_fault_eq Let_def fs_ok_def fs_wf_def no_alias_def
        split: if_splits)
  obtain b h where h: "syscall f = (b, h)" by fastforce
  then have "content h = content f" by (auto elim: syscallE)
  with assms(1) h content_add_dirs [of "set (prefixes_of d)" h] show "content g = content f"
    by (auto simp: create_directories_def list_ex_iff split: if_splits)
qed

lemma create_directory_D:
  assumes "create_directory d f = (ok, g)" and "fs_ok f"
  shows "fs_ok g" "content g = content f"
proof -
  show "fs_ok g" using assms
    by (auto simp: create_directory_def syscall_def next_fault_eq Let_def fs_ok_def fs_wf_def no_alias_def
        split: if_splits)
  show "content g = content f" using assms(1)
    by (intro ext) (auto simp: create_directory_def syscall_def next_fault_eq Let_def content_def
        split: if_splits option.split node.split)
qed

lemma file_hash_D:
  assumes "file_hash sha p f = (h, g)"
  shows "g = f\<lparr>faults := tl (faults f)\<rparr>"
    and "h \<noteq> [] \<Longrightarrow> \<exists>c. content f p = Some c \<and> h = ToLowerHex (sha c)"
proof -
  obtain b k where k: "syscall f = (b, k)" by fastforce
  then have k': "k = f\<lparr>faults := tl (faults f)\<rparr>" by (auto elim: syscallE)
  with assms k show "g = f\<lparr>faults := tl (faults f)\<rparr>" by (simp add: file_hash_def)
  show "h \<noteq> [] \<Longrightarrow> \<exists>c. content f p = Some c \<and> h = ToLowerHex (sha c)"
    using assms k k' Sha256FileHex_value [of sha _ "content f p"] by (auto simp: file_hash_def)
qed

subsection \<open>Surviving a power failure\<close>

definition dir_durable :: "fs \<Rightarrow> path \<Rightarrow> bool" where
  "dir_durable f d \<longleftrightarrow> (\<forall>q \<in> set (prefixes_of d). length q \<ge> 2 \<longrightarrow> names f q = Some Dir \<and> dnames f q = Some Dir)"

definition file_durable :: "fs \<Rightarrow> path \<Rightarrow> bool" where
  "file_durable f p \<longleftrightarrow>
     (\<exists>i. names f p = Some (File i) \<and> dnames f p = Some (File i) \<and> \<not> dirty f i)
     \<and> dir_durable f (parent_path p)"

lemma crash_keeps_durable:
  assumes "crash f g" and "file_durable f p"
  shows "content g p = content f p" and "file_durable g p"
proof -
  obtain i where i: "names f p = Some (File i)" "dnames f p = Some (File i)" "\<not> dirty f i"
    using assms(2) by (auto simp: file_durable_def)
  have entry: "names g q = names f q \<or> names g q = dnames f q" for q
    using assms(1) unfolding crash_def by blast
  have "names g p = Some (File i)" "data g i = data f i"
    using entry [of p] i assms(1) by (auto simp: crash_def)
  then show "content g p = content f p" using i by (simp add: content_def)
  have same: "names g q = Some Dir" if "names f q = Some Dir" "dnames f q = Some Dir" for q
    using assms(1) that unfolding crash_def by metis
  have "dnames g = names g" "\<not> dirty g i" using assms(1) by (simp_all add: crash_def)
  with \<open>names g p = Some (File i)\<close> assms(2) same show "file_durable g p"
    by (auto simp: file_durable_def dir_durable_def)
qed

end
