(* ===== verification/Upload_File.thy ===== *)
theory Upload_File
  imports File_Store Protocol_Ids
begin

text \<open>
  \<open>server/ResourceServer/src/ResourceUploadFile.cpp\<close>: the \<open>.part\<close> file of a running upload and the
  move of a finished one to its content-addressed name.  The POSIX branches are modelled.  A
  reference parameter \<open>received\<close> is returned with the result; a function that reports \<open>int\<close> error
  codes returns \<open>ErrorCodes\<close>.
\<close>

definition ResourceUploadingPartPath :: "path \<Rightarrow> nat \<Rightarrow> path" where
  "ResourceUploadingPartPath root message_id = root @ [''uploading'', to_string message_id @ ''.part'']"

definition ResourceBlobPath :: "path \<Rightarrow> string \<Rightarrow> path" where
  "ResourceBlobPath root sha256_hex = root @ [''blobs'', take 2 sha256_hex, sha256_hex]"

definition ReadLength :: "path \<Rightarrow> fs \<Rightarrow> nat option \<times> fs" where
  "ReadLength p f =
     (let (ok, f1) = syscall f in
      if ok \<and> names f1 p = None then (Some 0, f1)
      else if \<not> ok then (None, f1)
      else let (ok2, f2) = syscall f1 in
        if \<not> ok2 then (None, f2) else (map_option length (content f2 p), f2))"

definition HashRange :: "(string \<Rightarrow> string) \<Rightarrow> path \<Rightarrow> nat \<Rightarrow> nat \<Rightarrow> fs \<Rightarrow> string \<times> fs" where
  "HashRange sha p offset len f =
     (let (op, f1) = open_existing p f in
      if \<not> op then ([], f1)
      else let (rd, f2) = read_at p offset len f1 in
        case rd of None \<Rightarrow> ([], f2)
        | Some d \<Rightarrow>
            if length d \<noteq> len then ([], f2)
            else let (evp, f3) = syscall f2 in (Sha256Hex sha (\<not> evp) d, f3))"

definition WriteAndVerify :: "path \<Rightarrow> nat \<Rightarrow> string \<Rightarrow> fs \<Rightarrow> bool \<times> fs" where
  "WriteAndVerify p offset d f =
     (let (op, f1) = open_existing p f;
          (ready, f2) =
            (if op then (True, f1)
             else if offset \<noteq> 0 then (False, f1)
             else let (created, g) = open_append p f1 in
               if \<not> created then (False, g) else open_existing p g)
      in if \<not> ready then (False, f2)
         else let (written, f3) = write_at p offset d f2 in
           if \<not> written then (False, f3)
           else let (readback, f4) = read_at p offset (length d) f3 in (readback = Some d, f4))"

definition FsyncDirectory :: "path \<Rightarrow> fs \<Rightarrow> bool \<times> fs" where
  "FsyncDirectory d f =
     (let (op, f1) = syscall f in
      if \<not> op \<or> \<not> dir_exists d f1 then (False, f1) else fsync_dir d f1)"

definition TruncateUploadFile :: "path \<Rightarrow> nat \<Rightarrow> fs \<Rightarrow> bool \<times> fs" where
  "TruncateUploadFile part received f =
     (let (len, f1) = ReadLength part f in
      case len of None \<Rightarrow> (False, f1)
      | Some sz \<Rightarrow>
          if sz < received then (False, f1)
          else if sz = received then (True, f1)
          else resize_file part received f1)"

definition RecoverUploadFile :: "path \<Rightarrow> nat \<Rightarrow> nat \<Rightarrow> nat \<Rightarrow> fs \<Rightarrow> bool \<times> nat \<times> fs" where
  "RecoverUploadFile part total_size chunk_size received f =
     (if chunk_size = 0 then (False, received, f)
      else let (len, f1) = ReadLength part f in
        case len of None \<Rightarrow> (False, received, f1)
        | Some sz \<Rightarrow>
            let resume = (if sz = 0 \<or> sz > total_size then 0 else (sz - 1) div chunk_size * chunk_size);
                (tr, f2) = TruncateUploadFile part resume f1
            in if \<not> tr then (False, received, f2) else (True, resume, f2))"

definition chunk_guards :: "nat \<Rightarrow> nat \<Rightarrow> nat \<Rightarrow> nat \<Rightarrow> nat \<Rightarrow> ErrorCodes" where
  "chunk_guards total_size chunk_size offset len received =
     (if chunk_size = 0 then FileOffsetInvalid
      else if len = 0 \<or> len > chunk_size then FileSizeExceeded
      else if offset mod chunk_size \<noteq> 0 \<or> offset > total_size \<or> len > total_size - offset
        then FileOffsetInvalid
      else if len \<noteq> min chunk_size (total_size - offset) then FileSizeExceeded
      else if offset > received \<or> (offset < received \<and> offset + len > received) then FileOffsetInvalid
      else Success)"

definition WriteUploadChunk ::
  "(string \<Rightarrow> string) \<Rightarrow> path \<Rightarrow> nat \<Rightarrow> nat \<Rightarrow> nat \<Rightarrow> string \<Rightarrow> string \<Rightarrow> nat \<Rightarrow> fs \<Rightarrow> ErrorCodes \<times> nat \<times> fs" where
  "WriteUploadChunk sha part total_size chunk_size offset d chunk_sha256 received f =
     (let g = chunk_guards total_size chunk_size offset (length d) received;
          (evp, f1) = syscall f
      in if g \<noteq> Success then (g, received, f)
         else if \<not> IsValidSha256Hex chunk_sha256 \<or> Sha256Hex sha (\<not> evp) d \<noteq> chunk_sha256
           then (FileHashMismatch, received, f1)
         else if offset < received then
           (let (disk_hash, f2) = HashRange sha part offset (length d) f1 in
            if disk_hash = [] then (FileReadFailed, received, f2)
            else if disk_hash = chunk_sha256 then (Success, received, f2)
            else let (tr, f3) = TruncateUploadFile part offset f2 in
              if \<not> tr then (FileWritePermissionFailed, received, f3)
              else (FileHashMismatch, offset, f3))
         else
           (let (mk, f2) = (if parent_path part = [] then (True, f1)
                            else create_directories (parent_path part) f1) in
            if \<not> mk then (CreateFilePathFailed, received, f2)
            else let (wr, f3) = WriteAndVerify part offset d f2 in
              if \<not> wr then (FileWritePermissionFailed, received, snd (TruncateUploadFile part received f3))
              else (Success, received + length d, f3)))"

definition FlushFileToDisk :: "path \<Rightarrow> fs \<Rightarrow> bool \<times> fs" where
  "FlushFileToDisk p f =
     (let (op, f1) = syscall f in
      if \<not> op \<or> names f1 p = None then (False, f1) else fsync_file p f1)"

fun missing_dirs :: "path \<Rightarrow> fs \<Rightarrow> path list" where
  "missing_dirs cur f =
     (if cur = [] \<or> is_directory cur f then []
      else cur # (if parent_path cur = [] then [] else missing_dirs (butlast cur) f))"

declare missing_dirs.simps [simp del]

fun create_missing :: "path list \<Rightarrow> fs \<Rightarrow> bool \<times> fs" where
  "create_missing [] f = (True, f)"
| "create_missing (d # ds) f =
     (let (mk, f1) = create_directory d f in
      if \<not> mk \<and> \<not> is_directory d f1 then (False, f1) else create_missing ds f1)"

function fsync_chain :: "path \<Rightarrow> fs \<Rightarrow> bool \<times> fs" where
  "fsync_chain p f =
     (let (ok, f1) = FsyncDirectory p f in
      if \<not> ok then (False, f1)
      else if butlast p = [] then (True, f1)
      else fsync_chain (butlast p) f1)"
  by pat_completeness auto
termination
proof (relation "measure (\<lambda>(p, f). length p)")
  fix p :: path and f x xa y
  assume "butlast p \<noteq> []"
  then have "p \<noteq> []" by auto
  then show "((butlast p, y), p, f) \<in> measure (\<lambda>(p, f). length p)" by simp
qed simp

declare fsync_chain.simps [simp del]

definition EnsureDirectoryDurable :: "path \<Rightarrow> fs \<Rightarrow> bool \<times> fs" where
  "EnsureDirectoryDurable d f =
     (if d = [] then (True, f)
      else let (mk, f1) = create_missing (rev (missing_dirs d f)) f in
        if \<not> mk then (False, f1) else fsync_chain d f1)"

definition fsync_two :: "path \<Rightarrow> path \<Rightarrow> fs \<Rightarrow> bool \<times> bool \<times> fs" where
  "fsync_two src dst g =
     (let (ok, g1) = FsyncDirectory (parent_path dst) g in
      if parent_path src \<noteq> parent_path dst
      then let (ok2, g2) = FsyncDirectory (parent_path src) g1 in (ok2 \<and> ok, False, g2)
      else (ok, False, g1))"

text \<open>\<open>want_exists\<close> says whether the caller passes the out-parameter \<open>already_exists\<close>; its value is the second result.\<close>

definition DurableRename :: "path \<Rightarrow> path \<Rightarrow> bool \<Rightarrow> bool \<Rightarrow> fs \<Rightarrow> bool \<times> bool \<times> fs" where
  "DurableRename src dst replace want_exists f =
     (let (dirs, f1) = EnsureDirectoryDurable (parent_path dst) f in
      if \<not> dirs then (False, False, f1)
      else if \<not> replace then
        (case link_file src dst f1 of
           (Exists, f2) \<Rightarrow> if want_exists then (True, True, f2) else (False, False, f2)
         | (LinkError, f2) \<Rightarrow> (False, False, f2)
         | (Linked, f2) \<Rightarrow>
             let (ul, f3) = unlink_file src f2 in
             if \<not> ul then (False, False, f3) else fsync_two src dst f3)
      else let (rn, f2) = rename_file src dst f1 in
        if \<not> rn then (False, False, f2) else fsync_two src dst f2)"

subsection \<open>Paths\<close>

lemma part_path_inject [simp]:
  "ResourceUploadingPartPath root m = ResourceUploadingPartPath root n \<longleftrightarrow> m = n"
  by (simp add: ResourceUploadingPartPath_def)

lemma blob_path_inject [simp]: "ResourceBlobPath root a = ResourceBlobPath root b \<longleftrightarrow> a = b"
  by (auto simp: ResourceBlobPath_def)

lemma part_not_blob [simp]:
  "ResourceUploadingPartPath root m \<noteq> ResourceBlobPath root s"
  "ResourceBlobPath root s \<noteq> ResourceUploadingPartPath root m"
  by (simp_all add: ResourceUploadingPartPath_def ResourceBlobPath_def)

subsection \<open>Truncation and recovery\<close>

lemma ReadLength_D:
  assumes "ReadLength p f = (r, g)"
  shows "content g = content f" "fs_ok g = fs_ok f"
    "r = Some n \<Longrightarrow> case content f p of None \<Rightarrow> n = 0 \<and> names f p = None | Some c \<Rightarrow> n = length c"
  using assms
  by (auto simp: ReadLength_def syscall_def next_fault_eq Let_def content_def
      split: if_splits option.splits node.splits)

definition file_length :: "fs \<Rightarrow> path \<Rightarrow> nat" where
  "file_length f p = (case content f p of None \<Rightarrow> 0 | Some c \<Rightarrow> length c)"

lemma ReadLength_value: "ReadLength p f = (Some n, g) \<Longrightarrow> n = file_length f p"
  by (drule ReadLength_D(3) [OF _ refl]) (simp add: file_length_def split: option.splits)

lemma TruncateUploadFile_D:
  assumes "TruncateUploadFile p n f = (ok, g)" and "fs_ok f"
  shows "fs_ok g"
    and "if ok then n \<le> file_length f p \<and> content g = (content f)(p := map_option (take n) (content f p))
         else content g = content f"
proof -
  obtain r h where h: "ReadLength p f = (r, h)" by fastforce
  note R = ReadLength_D [OF h]
  have wf: "fs_ok h" using R(2) assms(2) by simp
  have idem: "(content f)(p := content f p) = content f" by simp
  show "fs_ok g" using assms(1) h wf
    by (auto simp: TruncateUploadFile_def split: option.splits if_splits dest: resize_file_D(1))
  show "if ok then n \<le> file_length f p \<and> content g = (content f)(p := map_option (take n) (content f p))
         else content g = content f"
  proof (cases r)
    case None
    then show ?thesis using assms(1) h R(1) by (simp add: TruncateUploadFile_def)
  next
    case (Some sz)
    have len: "sz = file_length f p" using h Some by (simp add: ReadLength_value)
    consider "sz < n" | "sz = n" | "n < sz" by linarith
    then show ?thesis
    proof cases
      case 1
      then show ?thesis using assms(1) h R(1) Some by (simp add: TruncateUploadFile_def)
    next
      case 2
      then have "map_option (take n) (content f p) = content f p"
        using len by (cases "content f p") (auto simp: file_length_def)
      then show ?thesis using assms(1) h R(1) Some 2 len by (simp add: TruncateUploadFile_def)
    next
      case 3
      then have "resize_file p n h = (ok, g)" using assms(1) h Some by (simp add: TruncateUploadFile_def)
      from resize_file_D(2) [OF this wf] show ?thesis
        using 3 len R(1) by (auto simp: file_length_def)
    qed
  qed
qed

lemma RecoverUploadFile_D:
  assumes "RecoverUploadFile p tot chunk rcv f = (ok, rcv', g)" and "fs_ok f"
  shows "fs_ok g"
    and "if ok then content g = (content f)(p := map_option (take rcv') (content f p))
              \<and> rcv' = file_length g p \<and> rcv' \<le> file_length f p \<and> chunk dvd rcv' \<and> rcv' \<le> tot
              \<and> (0 < tot \<longrightarrow> rcv' < tot)
         else rcv' = rcv \<and> content g = content f"
proof -
  obtain r h where h: "ReadLength p f = (r, h)" by fastforce
  note R = ReadLength_D [OF h]
  have wf: "fs_ok h" using R(2) assms(2) by simp
  show "fs_ok g" using assms h wf
    by (auto simp: RecoverUploadFile_def Let_def split: option.splits if_splits prod.splits
        dest: TruncateUploadFile_D(1))
  show "if ok then content g = (content f)(p := map_option (take rcv') (content f p))
              \<and> rcv' = file_length g p \<and> rcv' \<le> file_length f p \<and> chunk dvd rcv' \<and> rcv' \<le> tot
              \<and> (0 < tot \<longrightarrow> rcv' < tot)
         else rcv' = rcv \<and> content g = content f"
  proof (cases "chunk = 0 \<or> r = None")
    case True
    then have "\<not> ok \<and> rcv' = rcv \<and> (g = f \<or> g = h)"
      using assms(1) h by (cases "chunk = 0") (auto simp: RecoverUploadFile_def)
    then show ?thesis using R(1) by auto
  next
    case False
    then obtain sz where sz: "r = Some sz" by auto
    have len: "sz = file_length f p" using h sz by (simp add: ReadLength_value)
    define resume where "resume = (if sz = 0 \<or> sz > tot then 0 else (sz - 1) div chunk * chunk)"
    obtain tr f2 where t: "TruncateUploadFile p resume h = (tr, f2)" by fastforce
    have res: "(ok, rcv', g) = (if tr then (True, resume, f2) else (False, rcv, f2))"
      using assms(1) h sz False t by (auto simp: RecoverUploadFile_def resume_def [symmetric] split: if_splits)
    define k where "k = (sz - 1) div chunk * chunk"
    have "k \<le> sz - 1" "chunk dvd k" by (simp_all add: k_def)
    moreover have "resume = (if sz = 0 \<or> sz > tot then 0 else k)" by (simp add: resume_def k_def)
    ultimately have bounds: "chunk dvd resume" "resume \<le> tot" "0 < tot \<longrightarrow> resume < tot" "resume \<le> sz"
      by auto
    note T = TruncateUploadFile_D(2) [OF t wf]
    have fl: "resume = file_length f2 p" if tr
      using T that bounds(4) len R(1) by (auto simp: file_length_def split: option.splits)
    from T res R(1) bounds len fl show ?thesis by (cases tr) simp_all
  qed
qed

subsection \<open>Writing one chunk\<close>

definition file_bytes :: "fs \<Rightarrow> path \<Rightarrow> string" where
  "file_bytes f p = (case content f p of None \<Rightarrow> [] | Some c \<Rightarrow> c)"

lemma file_length_bytes: "file_length f p = length (file_bytes f p)"
  by (simp add: file_length_def file_bytes_def split: option.split)

lemma file_bytes_Some: "content f p = Some c \<Longrightarrow> file_bytes f p = c"
  by (simp add: file_bytes_def)

lemma put_at_torn:
  assumes "length w \<le> length d" and "off \<le> length c" and "window off (length d) (put_at off w c) = d"
  shows "put_at off w c = put_at off d c"
proof -
  have w: "put_at off w c = take off c @ w @ drop (off + length w) c" using assms(2) by (simp add: put_at_def)
  have d: "take (length d) (w @ drop (off + length w) c) = d"
    using assms(2,3) by (simp add: w window_def)
  have "drop (length d) (w @ drop (off + length w) c) = drop (off + length d) c"
    using assms(1) by (simp add: add.commute add.left_commute)
  then have "w @ drop (off + length w) c = d @ drop (off + length d) c"
    using d by (metis append_take_drop_id)
  then show ?thesis using assms(2) by (simp add: put_at_def)
qed

lemma put_at_frame:
  assumes "length w \<le> n" and "off \<le> length c"
  shows "take off (put_at off w c) = take off c" "length (put_at off w c) \<le> max (length c) (off + n)"
  using assms by (auto simp: take_put_at length_put_at)

lemma open_for_write_D:
  assumes "(if op then (True, f1) else if off \<noteq> 0 then (False, f1)
            else let (created, g) = open_append p f1 in if \<not> created then (False, g) else open_existing p g)
           = (ready, f2)"
    and "fs_ok f1" and "op \<longrightarrow> content f1 p \<noteq> None"
  shows "fs_ok f2" "\<And>q. q \<noteq> p \<Longrightarrow> content f2 q = content f1 q" "file_bytes f2 p = file_bytes f1 p"
    "ready \<Longrightarrow> content f2 p \<noteq> None"
proof -
  obtain cr g where g: "open_append p f1 = (cr, g)" by fastforce
  note A = open_append_D [OF g assms(2)]
  obtain op2 h where h: "open_existing p g = (op2, h)" by fastforce
  note O = open_existing_D [OF h]
  consider "f2 = f1" "ready = op" | "f2 = g" "\<not> ready" | "f2 = h" "ready = op2"
    using assms(1) g h by (auto split: if_splits)
  note cs = this
  show "fs_ok f2" using cs assms(2) A(1) O(1) by cases auto
  show "content f2 q = content f1 q" if "q \<noteq> p" for q using cs A(2) O(1) that by cases auto
  show "file_bytes f2 p = file_bytes f1 p" using cs A(2) O(1) by cases (auto simp: file_bytes_def)
  show "ready \<Longrightarrow> content f2 p \<noteq> None" using cs assms(3) O by cases auto
qed

lemma WriteAndVerify_D:
  assumes "WriteAndVerify p off d f = (ok, g)" and "fs_ok f" and "off \<le> file_length f p"
  shows "fs_ok g" and "\<And>q. q \<noteq> p \<Longrightarrow> content g q = content f q"
    and "take off (file_bytes g p) = take off (file_bytes f p)"
    and "file_length g p \<le> max (file_length f p) (off + length d)"
    and "ok \<Longrightarrow> content g p = Some (put_at off d (file_bytes f p))"
proof -
  obtain op f1 where f1: "open_existing p f = (op, f1)" by fastforce
  note O = open_existing_D [OF f1]
  have ok1: "fs_ok f1" "content f1 = content f" using O(1) assms(2) by simp_all
  obtain ready f2 where f2: "(if op then (True, f1) else if off \<noteq> 0 then (False, f1)
            else let (created, g) = open_append p f1 in if \<not> created then (False, g) else open_existing p g)
           = (ready, f2)" by fastforce
  have opc: "op \<longrightarrow> content f1 p \<noteq> None" using O ok1 by simp
  note W = open_for_write_D [OF f2 ok1(1) opc]
  have bytes2: "file_bytes f2 p = file_bytes f p" using W(3) ok1(2) by (simp add: file_bytes_def)
  have "fs_ok g \<and> (\<forall>q. q \<noteq> p \<longrightarrow> content g q = content f q)
        \<and> take off (file_bytes g p) = take off (file_bytes f p)
        \<and> file_length g p \<le> max (file_length f p) (off + length d)
        \<and> (ok \<longrightarrow> content g p = Some (put_at off d (file_bytes f p)))"
  proof (cases ready)
    case False
    then have "g = f2" "\<not> ok" using assms(1) f1 f2 by (simp_all add: WriteAndVerify_def Let_def)
    then show ?thesis
      using W(1,2) bytes2 ok1 by (simp add: file_length_bytes)
  next
    case True
    obtain wr f3 where f3: "write_at p off d f2 = (wr, f3)" by fastforce
    have c2: "content f2 p = Some (file_bytes f p)" using W(4) [OF True] bytes2 by (auto simp: file_bytes_def)
    note V = write_at_D [OF f3 W(1) c2]
    obtain s where s: "content f3 = (content f2)(p \<mapsto> s)"
      "s = file_bytes f p \<or> (\<exists>w. length w \<le> length d \<and> s = put_at off w (file_bytes f p))"
      using V(2) by blast
    obtain rb f4 where f4: "read_at p off (length d) f3 = (rb, f4)" by fastforce
    note R = read_at_D [OF f4]
    have off: "off \<le> length (file_bytes f p)" using assms(3) by (simp add: file_length_bytes)
    have g: "content g = content f3" "fs_ok g" and okrb: "ok \<Longrightarrow> rb = Some d"
      using assms(1) f1 f2 f3 f4 True R(1) V(1)
      by (auto simp: WriteAndVerify_def Let_def split: if_splits)
    have frame: "take off s = take off (file_bytes f p)" "length s \<le> max (length (file_bytes f p)) (off + length d)"
      using s(2) put_at_frame [OF _ off] by auto
    have "s = put_at off d (file_bytes f p)" if ok
    proof -
      have "d = window off (length d) s" using R(2) [OF okrb [OF that]] s(1) by auto
      then show ?thesis
        using s(2) put_at_torn [OF _ off] put_at_torn [of "[]" d off "file_bytes f p"] off
        by (auto simp: put_at_def)
    qed
    then show ?thesis
      using g s(1) frame W(2) ok1(2) by (simp add: file_length_bytes file_bytes_Some)
  qed
  then show "fs_ok g" "\<And>q. q \<noteq> p \<Longrightarrow> content g q = content f q"
    "take off (file_bytes g p) = take off (file_bytes f p)"
    "file_length g p \<le> max (file_length f p) (off + length d)"
    "ok \<Longrightarrow> content g p = Some (put_at off d (file_bytes f p))" by simp_all
qed

text \<open>
  The state of a \<open>.part\<close> file between two chunks: at least \<open>received\<close> bytes, and behind them at
  most the remains of one chunk that could not be written (or truncated away).
\<close>

definition part_ok :: "nat \<Rightarrow> nat \<Rightarrow> nat \<Rightarrow> nat \<Rightarrow> bool" where
  "part_ok total_size chunk_size received len \<longleftrightarrow>
     received \<le> len \<and> len \<le> received + min chunk_size (total_size - received)
     \<and> received \<le> total_size \<and> (chunk_size dvd received \<or> received = total_size)"

lemma part_ok_0: "part_ok total_size chunk_size 0 0"
  by (simp add: part_ok_def)

lemma HashRange_D:
  assumes "HashRange sha p off len f = (h, g)"
  shows "content g = content f" "fs_ok g = fs_ok f"
    "h \<noteq> [] \<Longrightarrow> \<exists>c. content f p = Some c \<and> length (window off len c) = len \<and> h = ToLowerHex (sha (window off len c))"
proof -
  have "content g = content f \<and> fs_ok g = fs_ok f \<and> (h \<noteq> [] \<longrightarrow> (\<exists>c. content f p = Some c
      \<and> length (window off len c) = len \<and> h = ToLowerHex (sha (window off len c))))"
    using assms
    by (auto simp: HashRange_def open_existing_def read_at_def syscall_def next_fault_eq Let_def Sha256Hex_def
        split: if_splits option.splits)
  then show "content g = content f" "fs_ok g = fs_ok f"
    "h \<noteq> [] \<Longrightarrow> \<exists>c. content f p = Some c \<and> length (window off len c) = len \<and> h = ToLowerHex (sha (window off len c))"
    by blast+
qed

lemma chunk_guards_Success:
  assumes "chunk_guards tot chunk off len rcv = Success"
  shows "0 < chunk" "0 < len" "chunk dvd off" "off \<le> tot" "len = min chunk (tot - off)" "off \<le> rcv"
    "off < rcv \<Longrightarrow> off + len \<le> rcv" "off + len \<le> tot"
  using assms by (auto simp: chunk_guards_def mod_eq_0_iff_dvd split: if_splits)

lemma chunk_guards_code:
  "chunk_guards tot chunk off len rcv \<in> {Success, FileOffsetInvalid, FileSizeExceeded}"
  by (simp add: chunk_guards_def)

text \<open>The three ways a chunk can end.\<close>

definition chunk_appended :: "(string \<Rightarrow> string) \<Rightarrow> path \<Rightarrow> nat \<Rightarrow> string \<Rightarrow> string \<Rightarrow> nat \<Rightarrow> fs \<Rightarrow> nat \<Rightarrow> fs \<Rightarrow> bool" where
  "chunk_appended sha p off d h rcv f rcv' g \<longleftrightarrow>
     off = rcv \<and> rcv' = rcv + length d \<and> h = ToLowerHex (sha d)
     \<and> content g p = Some (take rcv (file_bytes f p) @ d)"

definition chunk_repeated :: "(string \<Rightarrow> string) \<Rightarrow> path \<Rightarrow> nat \<Rightarrow> string \<Rightarrow> string \<Rightarrow> nat \<Rightarrow> fs \<Rightarrow> nat \<Rightarrow> fs \<Rightarrow> bool" where
  "chunk_repeated sha p off d h rcv f rcv' g \<longleftrightarrow>
     off + length d \<le> rcv \<and> rcv' = rcv \<and> content g = content f
     \<and> h = ToLowerHex (sha d) \<and> h = ToLowerHex (sha (window off (length d) (file_bytes f p)))"

definition chunk_refused :: "path \<Rightarrow> nat \<Rightarrow> nat \<Rightarrow> fs \<Rightarrow> nat \<Rightarrow> fs \<Rightarrow> bool" where
  "chunk_refused p off rcv f rcv' g \<longleftrightarrow>
     (rcv' = rcv \<or> (rcv' = off \<and> off < rcv \<and> file_length g p = off))
     \<and> take rcv' (file_bytes g p) = take rcv' (file_bytes f p)"

lemma Sha256Hex_match: "IsValidSha256Hex h \<Longrightarrow> Sha256Hex sha b d = h \<Longrightarrow> h = ToLowerHex (sha d)"
  by (auto simp: Sha256Hex_def IsValidSha256Hex_def split: if_splits)

lemma truncate_refused:
  assumes "TruncateUploadFile p n f = (ok, g)" and "fs_ok f"
  shows "fs_ok g" "\<And>q. q \<noteq> p \<Longrightarrow> content g q = content f q"
    "take n (file_bytes g p) = take n (file_bytes f p)"
    "n \<le> file_length f p \<Longrightarrow> n \<le> file_length g p" "file_length g p \<le> file_length f p" "ok \<Longrightarrow> file_length g p = n"
    "\<not> ok \<Longrightarrow> content g = content f"
  using TruncateUploadFile_D [OF assms]
  by (auto simp: file_bytes_def file_length_def split: if_splits option.splits)

lemma WriteUploadChunk_D:
  assumes run: "WriteUploadChunk sha p tot chunk off d h rcv f = (code, rcv', g)"
    and ok: "fs_ok f" and part: "part_ok tot chunk rcv (file_length f p)"
  shows "fs_ok g" and "\<And>q. q \<noteq> p \<Longrightarrow> content g q = content f q"
    and "part_ok tot chunk rcv' (file_length g p)"
    and "if code = Success
         then chunk_appended sha p off d h rcv f rcv' g \<or> chunk_repeated sha p off d h rcv f rcv' g
         else chunk_refused p off rcv f rcv' g"
proof -
  let ?goal = "fs_ok g \<and> (\<forall>q. q \<noteq> p \<longrightarrow> content g q = content f q) \<and> part_ok tot chunk rcv' (file_length g p)
    \<and> (if code = Success
         then chunk_appended sha p off d h rcv f rcv' g \<or> chunk_repeated sha p off d h rcv f rcv' g
         else chunk_refused p off rcv f rcv' g)"
  obtain e f1 where e: "syscall f = (e, f1)" by fastforce
  then have f1: "f1 = f\<lparr>faults := tl (faults f)\<rparr>" by (auto elim: syscallE)
  have len: "file_length f1 p = file_length f p" "file_bytes f1 p = file_bytes f p" "content f1 = content f" "fs_ok f1"
    using f1 ok by (simp_all add: file_length_def file_bytes_def)
  let ?guard = "chunk_guards tot chunk off (length d) rcv"
  have ?goal
  proof (cases "?guard = Success \<and> IsValidSha256Hex h \<and> Sha256Hex sha (\<not> e) d = h")
    case False
    then have "(g = f \<or> g = f1) \<and> rcv' = rcv \<and> code \<noteq> Success"
      using run e by (auto simp: WriteUploadChunk_def Let_def split: if_splits)
    then show ?thesis using ok part len by (auto simp: chunk_refused_def)
  next
    case True
    then have guard: "?guard = Success" by simp
    note G = chunk_guards_Success [OF guard]
    have hd: "h = ToLowerHex (sha d)" using True Sha256Hex_match by blast
    show ?thesis
    proof (cases "off < rcv")
      case old: True
      obtain dh f2 where dh: "HashRange sha p off (length d) f1 = (dh, f2)" by fastforce
      note H = HashRange_D [OF dh]
      obtain tr f3 where tr: "TruncateUploadFile p off f2 = (tr, f3)" by fastforce
      note T = truncate_refused [OF tr H(2) [THEN iffD2, OF len(4)]]
      have same: "file_length f2 p = file_length f p" "file_bytes f2 p = file_bytes f p"
        using H(1) len by (simp_all add: file_length_def file_bytes_def)
      consider "dh = []" "code = FileReadFailed" "rcv' = rcv" "g = f2"
        | "dh \<noteq> []" "dh = h" "code = Success" "rcv' = rcv" "g = f2"
        | "\<not> tr" "code = FileWritePermissionFailed" "rcv' = rcv" "g = f3"
        | tr "code = FileHashMismatch" "rcv' = off" "g = f3"
        using run e True old dh tr by (auto simp: WriteUploadChunk_def Let_def split: if_splits)
      then show ?thesis
      proof cases
        case 1
        then show ?thesis using ok part len H same by (auto simp: chunk_refused_def)
      next
        case 2
        have "h = ToLowerHex (sha (window off (length d) (file_bytes f p)))"
          using H(3) 2 len by (auto simp: file_bytes_def)
        then show ?thesis using 2 ok part len H same G(7) [OF old] hd by (auto simp: chunk_repeated_def)
      next
        case 3
        then show ?thesis using part len H same T(1,7)
          by (auto simp: chunk_refused_def file_length_def file_bytes_def)
      next
        case 4
        then show ?thesis using len H same T G old part
          by (auto simp: chunk_refused_def part_ok_def file_length_bytes)
      qed
    next
      case new: False
      then have off: "off = rcv" using G(6) by simp
      obtain mk f2 where mk: "(if parent_path p = [] then (True, f1) else create_directories (parent_path p) f1) = (mk, f2)"
        by fastforce
      have f2: "fs_ok f2" "content f2 = content f"
        using mk len create_directories_D [of "parent_path p" f1 mk f2] by (auto split: if_splits)
      have same: "file_length f2 p = file_length f p" "file_bytes f2 p = file_bytes f p"
        using f2 by (simp_all add: file_length_def file_bytes_def)
      obtain wr f3 where wr: "WriteAndVerify p off d f2 = (wr, f3)" by fastforce
      have le: "off \<le> file_length f2 p" using part off same by (simp add: part_ok_def)
      note W = WriteAndVerify_D [OF wr f2(1) le]
      obtain tr f4 where tr: "TruncateUploadFile p rcv f3 = (tr, f4)" by fastforce
      note T = truncate_refused [OF tr W(1)]
      consider "\<not> mk" "code = CreateFilePathFailed" "rcv' = rcv" "g = f2"
        | "\<not> wr" "code = FileWritePermissionFailed" "rcv' = rcv" "g = f4"
        | wr "code = Success" "rcv' = rcv + length d" "g = f3"
        using run e True new mk wr tr by (auto simp: WriteUploadChunk_def Let_def split: if_splits)
      then show ?thesis
      proof cases
        case 1
        then show ?thesis using f2 part same by (auto simp: chunk_refused_def)
      next
        case 2
        have "rcv \<le> file_length f3 p" using W(3) le off same
          by (metis file_length_bytes length_take min.absorb_iff2)
        then have "part_ok tot chunk rcv (file_length f4 p)"
          using T(4,5) W(4) part G(5) off same by (auto simp: part_ok_def)
        then show ?thesis using 2 T(1-3) W(2,3) f2 off same by (auto simp: chunk_refused_def)
      next
        case 3
        have "file_length f p \<le> off + length d" using part G(5) off by (simp add: part_ok_def)
        then have put: "put_at off d (file_bytes f p) = take rcv (file_bytes f p) @ d"
          using le off same by (subst put_at_cover) (auto simp: file_length_bytes)
        then have c: "content f3 p = Some (take rcv (file_bytes f p) @ d)" using W(5) 3 same by simp
        then have "file_length f3 p = rcv + length d"
          using le off same by (simp add: file_length_def file_length_bytes [symmetric])
        then have "part_ok tot chunk (rcv + length d) (file_length f3 p)"
          using G(3,5,8) off by (auto simp: part_ok_def min_def)
        then show ?thesis using 3 W(1,2) f2 off hd c by (auto simp: chunk_appended_def)
      qed
    qed
  qed
  then show "fs_ok g" "\<And>q. q \<noteq> p \<Longrightarrow> content g q = content f q" "part_ok tot chunk rcv' (file_length g p)"
    "if code = Success
         then chunk_appended sha p off d h rcv f rcv' g \<or> chunk_repeated sha p off d h rcv f rcv' g
         else chunk_refused p off rcv f rcv' g" by simp_all
qed

subsection \<open>The guards at 64 bits\<close>

text \<open>The guards of \<open>WriteUploadChunk\<close> as the code computes them, on \<open>unsigned long long\<close>.\<close>

definition chunk_guards_u64 :: "u64 \<Rightarrow> u64 \<Rightarrow> u64 \<Rightarrow> u64 \<Rightarrow> u64 \<Rightarrow> ErrorCodes" where
  "chunk_guards_u64 total_size chunk_size offset len received =
     (if chunk_size = 0 then FileOffsetInvalid
      else if len = 0 \<or> len > chunk_size then FileSizeExceeded
      else if offset mod chunk_size \<noteq> 0 \<or> offset > total_size \<or> len > total_size - offset
        then FileOffsetInvalid
      else if len \<noteq> (if total_size - offset < chunk_size then total_size - offset else chunk_size)
        then FileSizeExceeded
      else if offset > received \<or> (offset < received \<and> offset + len > received) then FileOffsetInvalid
      else Success)"

lemma unat_sub_le: "b \<le> a \<Longrightarrow> unat (a - b) = unat a - unat b" for a b :: u64
  by (simp add: unat_sub)

lemma unat_add_le:
  fixes a b c :: u64
  assumes "a \<le> c" and "b \<le> c - a"
  shows "unat (a + b) = unat a + unat b"
proof -
  have "unat b \<le> unat c - unat a" using assms by (simp add: word_le_nat_alt unat_sub)
  moreover have "unat a \<le> unat c" using assms(1) by (simp add: word_le_nat_alt)
  ultimately have "unat a + unat b \<le> unat c" by simp
  moreover have "unat c < 2 ^ LENGTH(64)" by (rule unsigned_less)
  ultimately show ?thesis by (simp add: unat_word_ariths)
qed

subsection \<open>Properties\<close>

text \<open>
  C29.  No wrap-around in the chunk guards: computed on 64-bit unsigned integers they decide as they
  would on unbounded numbers, for every combination of arguments, and a chunk that passes ends at
  or before the declared size, so that advancing \<open>received\<close> cannot wrap either.
\<close>

theorem chunk_guards_no_wrap:
  "chunk_guards_u64 tot chunk off len rcv
     = chunk_guards (unat tot) (unat chunk) (unat off) (unat len) (unat rcv)
   \<and> (chunk_guards_u64 tot chunk off len rcv = Success \<longrightarrow> unat (off + len) = unat off + unat len)"
proof -
  have zero: "w = 0 \<longleftrightarrow> unat w = 0" for w :: u64 by (simp add: unat_eq_0)
  have md: "off mod chunk = 0 \<longleftrightarrow> unat off mod unat chunk = 0" by (simp add: zero unat_mod)
  have eq: "x = y \<longleftrightarrow> unat x = unat y" for x y :: u64 by (rule word_eq_iff_unsigned)
  have "chunk_guards_u64 tot chunk off len rcv
     = chunk_guards (unat tot) (unat chunk) (unat off) (unat len) (unat rcv)"
  proof (cases "off \<le> tot \<and> len \<le> tot - off")
    case True
    then have sub: "unat (tot - off) = unat tot - unat off" by (simp add: unat_sub_le)
    have add: "unat (off + len) = unat off + unat len" using True by (intro unat_add_le) auto
    have mn: "len = (if tot - off < chunk then tot - off else chunk)
        \<longleftrightarrow> unat len = min (unat chunk) (unat tot - unat off)"
      by (auto simp: eq word_less_nat_alt sub min_def)
    show ?thesis
      unfolding chunk_guards_u64_def chunk_guards_def zero [of chunk] zero [of len] md mn
      by (simp add: word_less_nat_alt sub add)
  next
    case False
    then have "off > tot \<or> len > tot - off" by auto
    moreover have "unat off > unat tot \<or> unat len > unat tot - unat off"
    proof (cases "off \<le> tot")
      case True
      with False have "len > tot - off" by auto
      with True show ?thesis by (simp add: word_less_nat_alt unat_sub_le)
    next
      case False
      then show ?thesis by (simp add: word_le_nat_alt)
    qed
    ultimately show ?thesis
      unfolding chunk_guards_u64_def chunk_guards_def zero [of chunk] zero [of len]
      by (auto simp: word_less_nat_alt)
  qed
  moreover have "unat (off + len) = unat off + unat len" if "chunk_guards_u64 tot chunk off len rcv = Success"
    using that by (intro unat_add_le [of off tot]) (auto simp: chunk_guards_u64_def split: if_splits)
  ultimately show ?thesis by blast
qed

theorem chunk_guards_no_wrap_witness:
  "chunk_guards_u64 5 3 3 2 0 = chunk_guards 5 3 3 2 0 \<and> unat (0 + 3 :: u64) = unat (0 :: u64) + unat (3 :: u64)"
  using chunk_guards_no_wrap [of 5 3 3 2 0] chunk_guards_no_wrap [of 5 3 0 3 0]
  by (simp add: chunk_guards_u64_def)

text \<open>
  C16.  Contract of \<open>WriteUploadChunk\<close> under every sequence of I/O failures, torn writes included: other
  files keep their content and the \<open>.part\<close> file stays well-formed.  Success means that the chunk has
  the announced SHA-256 and either was appended at \<open>received\<close>, the confirmed prefix being unchanged,
  or repeats a confirmed chunk whose bytes on disk have the same SHA-256.  Any other code leaves the
  confirmed prefix as it was; it is shortened only by truncating to the start of the chunk.
\<close>

theorem upload_chunk_contract:
  assumes "WriteUploadChunk sha p tot chunk off d h rcv f = (code, rcv', g)"
    and "fs_ok f" and "part_ok tot chunk rcv (file_length f p)"
  shows "fs_ok g \<and> (\<forall>q. q \<noteq> p \<longrightarrow> content g q = content f q) \<and> part_ok tot chunk rcv' (file_length g p)
    \<and> (if code = Success
       then chunk_appended sha p off d h rcv f rcv' g \<or> chunk_repeated sha p off d h rcv f rcv' g
       else chunk_refused p off rcv f rcv' g)"
  using WriteUploadChunk_D [OF assms] by blast

definition demo_sha :: "string \<Rightarrow> string" where
  "demo_sha d = take 32 (d @ replicate 32 (CHR 0x00))"

definition demo_fs :: fs where
  "demo_fs = \<lparr>names = (\<lambda>_. None)([''r''] \<mapsto> Dir), data = (\<lambda>_. []), next_inode = 0, dirty = (\<lambda>_. False),
              dnames = (\<lambda>_. None), faults = [], unlink_fallible = False\<rparr>"

theorem upload_chunk_contract_witness:
  "fst (WriteUploadChunk demo_sha [''r'', ''1.part''] 3 2 0 ''ab'' (ToLowerHex (demo_sha ''ab'')) 0 demo_fs) = Success
   \<and> part_ok 3 2 2 (file_length (snd (snd (WriteUploadChunk demo_sha [''r'', ''1.part''] 3 2 0 ''ab''
        (ToLowerHex (demo_sha ''ab'')) 0 demo_fs))) [''r'', ''1.part''])"
proof -
  obtain code rcv' g where r: "WriteUploadChunk demo_sha [''r'', ''1.part''] 3 2 0 ''ab''
      (ToLowerHex (demo_sha ''ab'')) 0 demo_fs = (code, rcv', g)" by (metis prod_cases3)
  have valid: "IsValidSha256Hex (ToLowerHex (demo_sha ''ab''))"
    by (rule digest_valid) (simp add: sha256_law_def demo_sha_def)
  have "code = Success \<and> rcv' = 2"
    using r valid
    by (simp add: WriteUploadChunk_def chunk_guards_def demo_fs_def syscall_def next_fault_def Sha256Hex_def
        parent_path_def create_directories_def prefixes_of.simps content_def WriteAndVerify_def open_existing_def
        open_append_def dir_exists_def is_directory_def new_file_def write_at_def set_data_def put_at_def
        read_at_def window_def split: if_splits)
  moreover have "fs_ok demo_fs" by (simp add: fs_ok_def fs_wf_def no_alias_def demo_fs_def)
  moreover have "part_ok 3 2 0 (file_length demo_fs [''r'', ''1.part''])"
    by (simp add: part_ok_def file_length_def content_def demo_fs_def)
  ultimately show ?thesis using upload_chunk_contract [OF r] r by simp
qed

text \<open>
  C20.  Recovery after a restart: \<open>RecoverUploadFile\<close> resumes at a chunk boundary strictly below the
  declared size, keeps exactly the bytes before it and touches no other file; when it fails nothing
  has changed.
\<close>

theorem recover_contract:
  assumes "RecoverUploadFile p tot chunk rcv f = (ok, rcv', g)" and "fs_ok f"
  shows "if ok then content g = (content f)(p := map_option (take rcv') (content f p))
              \<and> rcv' = file_length g p \<and> rcv' \<le> file_length f p \<and> chunk dvd rcv' \<and> rcv' \<le> tot
              \<and> (0 < tot \<longrightarrow> rcv' < tot)
         else rcv' = rcv \<and> content g = content f"
  by (rule RecoverUploadFile_D(2) [OF assms])

definition demo_part_fs :: fs where
  "demo_part_fs = demo_fs\<lparr>names := (names demo_fs)([''p''] \<mapsto> File 0), data := (\<lambda>_. ''abcd''), next_inode := 1\<rparr>"

theorem recover_contract_witness:
  "fst (snd (RecoverUploadFile [''p''] 9 3 0 demo_part_fs)) = 3
   \<and> content (snd (snd (RecoverUploadFile [''p''] 9 3 0 demo_part_fs))) [''p''] = Some ''abc''"
proof -
  obtain ok rcv' g where r: "RecoverUploadFile [''p''] 9 3 0 demo_part_fs = (ok, rcv', g)" by (metis prod_cases3)
  have run: "ok \<and> rcv' = 3" using r
    by (simp add: RecoverUploadFile_def ReadLength_def TruncateUploadFile_def demo_part_fs_def demo_fs_def
        syscall_def next_fault_def content_def resize_file_def split: if_splits)
  have "fs_ok demo_part_fs"
    by (auto simp: fs_ok_def fs_wf_def no_alias_def demo_part_fs_def demo_fs_def split: if_splits)
  from recover_contract [OF r this] run r show ?thesis
    by (simp add: content_def demo_part_fs_def demo_fs_def)
qed

end
