(* ===== verification/Durable_Move.thy ===== *)
theory Durable_Move
  imports Upload_File
begin

text \<open>
  What \<open>FlushFileToDisk\<close>, \<open>EnsureDirectoryDurable\<close> and \<open>DurableRename\<close> guarantee: which contents
  change, and what survives a power failure once they have returned \<open>true\<close>.
\<close>

subsection \<open>Directory synchronisation changes no content\<close>

text \<open>
  \<open>synced f g\<close>: \<open>g\<close> has the same files as \<open>f\<close>, and directory entries have at most been written out.
\<close>

definition synced :: "fs \<Rightarrow> fs \<Rightarrow> bool" where
  "synced f g \<longleftrightarrow> names g = names f \<and> data g = data f \<and> dirty g = dirty f \<and> next_inode g = next_inode f
     \<and> unlink_fallible g = unlink_fallible f \<and> (\<forall>p. dnames g p = dnames f p \<or> dnames g p = names f p)"

lemma synced_refl [simp]: "synced f f"
  by (simp add: synced_def)

lemma synced_trans:
  assumes "synced f g" and "synced g h"
  shows "synced f h"
proof -
  have "dnames h p = dnames f p \<or> dnames h p = names f p" for p
    using assms unfolding synced_def by (elim conjE allE [of _ p]) auto
  with assms show ?thesis by (simp add: synced_def)
qed

lemma synced_content: "synced f g \<Longrightarrow> content g = content f"
  unfolding synced_def by (intro content_cong) auto

lemma synced_fs_ok: "synced f g \<Longrightarrow> fs_ok f \<Longrightarrow> fs_ok g"
  unfolding synced_def by (rule fs_ok_cong) auto

lemma synced_dnames: "synced f g \<Longrightarrow> dnames f p = names f p \<Longrightarrow> dnames g p = names f p"
  unfolding synced_def by (elim conjE allE [of _ p]) auto

lemma FsyncDirectory_D:
  assumes "FsyncDirectory d f = (ok, g)"
  shows "synced f g" "ok \<Longrightarrow> dir_exists d f" "ok \<Longrightarrow> p \<noteq> [] \<Longrightarrow> parent_path p = d \<Longrightarrow> dnames g p = names f p"
  using assms
  by (auto simp: FsyncDirectory_def fsync_dir_def syscall_def next_fault_eq Let_def synced_def split: if_splits)

lemma fsync_chain_D:
  "fsync_chain p f = (ok, g) \<Longrightarrow>
   synced f g \<and> (ok \<longrightarrow> (\<forall>q \<in> set (prefixes_of p). names f q = Some Dir
     \<and> (\<forall>r. r \<noteq> [] \<longrightarrow> parent_path r = q \<longrightarrow> dnames g r = names f r)))"
proof (induction p f arbitrary: ok g rule: fsync_chain.induct)
  case (1 p f)
  obtain b f1 where b: "FsyncDirectory p f = (b, f1)" by fastforce
  note F = FsyncDirectory_D [OF b]
  have pre: "set (prefixes_of p) = (if p = [] then {} else insert p (set (prefixes_of (butlast p))))"
    by (subst prefixes_of.simps) auto
  consider "\<not> b" "\<not> ok" "g = f1" | b "butlast p = []" ok "g = f1"
    | b "butlast p \<noteq> []" "fsync_chain (butlast p) f1 = (ok, g)"
    using 1(2) b by (subst (asm) fsync_chain.simps) (auto split: if_splits)
  then show ?case
  proof cases
    case 1
    then show ?thesis using F(1) by simp
  next
    case 2
    then have "set (prefixes_of p) = (if p = [] then {} else {p})"
      by (simp add: pre) (simp add: prefixes_of.simps)
    then show ?thesis using 2 F by (auto simp: dir_exists_def is_directory_def)
  next
    case 3
    then have IH: "synced f1 g" "ok \<Longrightarrow> q \<in> set (prefixes_of (butlast p)) \<Longrightarrow> names f1 q = Some Dir
        \<and> (\<forall>r. r \<noteq> [] \<longrightarrow> parent_path r = q \<longrightarrow> dnames g r = names f1 r)" for q
      using 1(1) [OF b [symmetric] refl] by auto
    have names: "names f1 = names f" using F(1) by (simp add: synced_def)
    have "p \<noteq> []" using 3 by auto
    moreover have "dnames g r = names f r" if "r \<noteq> []" "parent_path r = p" for r
      using synced_dnames [OF IH(1), of r] F(3) [OF 3(1) that] names by simp
    ultimately show ?thesis
      using IH F(1,2) 3 names synced_trans [OF F(1) IH(1)] by (auto simp: pre dir_exists_def is_directory_def)
  qed
qed

lemma create_missing_D:
  "create_missing ds f = (ok, g) \<Longrightarrow> fs_ok f \<Longrightarrow>
   fs_ok g \<and> content g = content f \<and> data g = data f \<and> dirty g = dirty f \<and> next_inode g = next_inode f
   \<and> unlink_fallible g = unlink_fallible f \<and> (\<forall>p. names g p = names f p \<or> names g p = Some Dir)"
proof (induction ds arbitrary: f)
  case Nil
  then show ?case by simp
next
  case (Cons d ds)
  obtain mk f1 where mk: "create_directory d f = (mk, f1)" by fastforce
  note C = create_directory_D [OF mk Cons.prems(2)]
  have same: "data f1 = data f" "dirty f1 = dirty f" "next_inode f1 = next_inode f"
    "unlink_fallible f1 = unlink_fallible f" "\<forall>p. names f1 p = names f p \<or> names f1 p = Some Dir"
    using mk by (auto simp: create_directory_def syscall_def next_fault_eq Let_def split: if_splits)
  consider "g = f1" | "create_missing ds f1 = (ok, g)" using Cons.prems(1) mk by (auto split: if_splits)
  then show ?case
  proof cases
    case 1
    then show ?thesis using C same by simp
  next
    case 2
    note IH = Cons.IH [OF 2 C(1)]
    have "names g p = names f p \<or> names g p = Some Dir" for p
    proof -
      from IH have "names g p = names f1 p \<or> names g p = Some Dir" by blast
      moreover from same have "names f1 p = names f p \<or> names f1 p = Some Dir" by blast
      ultimately show ?thesis by auto
    qed
    then show ?thesis using C same IH by simp
  qed
qed

lemma set_prefixes_of: "set (prefixes_of p) = {q. q \<noteq> [] \<and> (\<exists>r. p = q @ r)}"
proof (induction p rule: prefixes_of.induct)
  case (1 p)
  show ?case
  proof (cases p rule: rev_cases)
    case Nil
    then show ?thesis by (simp add: prefixes_of.simps)
  next
    case (snoc xs x)
    then have "set (prefixes_of p) = insert p {q. q \<noteq> [] \<and> (\<exists>r. xs = q @ r)}"
      using 1 by (subst prefixes_of.simps) simp
    also have "\<dots> = {q. q \<noteq> [] \<and> (\<exists>r. p = q @ r)}"
    proof (intro equalityI subsetI)
      fix q assume "q \<in> insert p {q. q \<noteq> [] \<and> (\<exists>r. xs = q @ r)}"
      then show "q \<in> {q. q \<noteq> [] \<and> (\<exists>r. p = q @ r)}" using snoc by auto
    next
      fix q assume "q \<in> {q. q \<noteq> [] \<and> (\<exists>r. p = q @ r)}"
      then obtain r where "q \<noteq> []" "p = q @ r" by auto
      then show "q \<in> insert p {q. q \<noteq> [] \<and> (\<exists>r. xs = q @ r)}"
        using snoc by (cases r rule: rev_cases) auto
    qed
    finally show ?thesis .
  qed
qed

lemma prefixes_of_butlast:
  "q \<in> set (prefixes_of d) \<Longrightarrow> length q \<ge> 2 \<Longrightarrow> butlast q \<in> set (prefixes_of d)"
  by (cases q rule: rev_cases) (auto simp: set_prefixes_of)

lemma EnsureDirectoryDurable_D:
  assumes "EnsureDirectoryDurable d f = (ok, g)" and "fs_ok f"
  shows "fs_ok g" "content g = content f" "data g = data f" "dirty g = dirty f"
    "names g p = names f p \<or> names g p = Some Dir" "ok \<Longrightarrow> dir_durable g d"
proof -
  obtain mk f1 where mk: "create_missing (rev (missing_dirs d f)) f = (mk, f1)" by fastforce
  note M = create_missing_D [OF mk assms(2)]
  have "(if d = [] then (True, f) else if \<not> mk then (False, f1) else fsync_chain d f1) = (ok, g)"
    using assms(1) mk by (cases "d = []") (simp_all add: EnsureDirectoryDurable_def)
  then consider "g = f" "d = []" | "g = f1" "\<not> ok" | "d \<noteq> []" "fsync_chain d f1 = (ok, g)"
    by (cases "d = []"; cases mk) simp_all
  then have "fs_ok g \<and> content g = content f \<and> data g = data f \<and> dirty g = dirty f
      \<and> (names g p = names f p \<or> names g p = Some Dir) \<and> (ok \<longrightarrow> dir_durable g d)"
  proof cases
    case 1
    then show ?thesis using assms(2) by (simp add: dir_durable_def set_prefixes_of)
  next
    case 2
    then show ?thesis using M by simp
  next
    case 3
    note F = fsync_chain_D [OF 3(2)]
    then have sy: "synced f1 g" by simp
    have "dir_durable g d" if ok
    proof -
      have "names g q = Some Dir \<and> dnames g q = Some Dir"
        if q: "q \<in> set (prefixes_of d)" "length q \<ge> 2" for q
      proof -
        have par: "butlast q \<in> set (prefixes_of d)" using q by (rule prefixes_of_butlast)
        have "q \<noteq> []" using q(2) by auto
        moreover have "names f1 q = Some Dir" using F \<open>ok\<close> q(1) by blast
        moreover have "\<forall>r. r \<noteq> [] \<longrightarrow> parent_path r = butlast q \<longrightarrow> dnames g r = names f1 r"
          using F \<open>ok\<close> par by blast
        moreover have "names g = names f1" using sy by (simp add: synced_def)
        ultimately show ?thesis by (simp add: parent_path_def)
      qed
      then show ?thesis by (simp add: dir_durable_def)
    qed
    moreover have "names g p = names f p \<or> names g p = Some Dir" using M sy by (simp add: synced_def)
    ultimately show ?thesis using M sy synced_content [OF sy] synced_fs_ok [OF sy] by (simp add: synced_def)
  qed
  then show "fs_ok g" "content g = content f" "data g = data f" "dirty g = dirty f"
    "names g p = names f p \<or> names g p = Some Dir" "ok \<Longrightarrow> dir_durable g d" by simp_all
qed

subsection \<open>Moving a file\<close>

lemma FlushFileToDisk_D:
  assumes "FlushFileToDisk p f = (ok, g)"
  shows "content g = content f" "fs_ok f \<Longrightarrow> fs_ok g" "names g = names f" "data g = data f" "dnames g = dnames f"
    "dirty g i \<Longrightarrow> dirty f i" "ok \<Longrightarrow> names f p = Some (File i) \<Longrightarrow> \<not> dirty g i" "ok \<Longrightarrow> names f p \<noteq> None"
proof -
  obtain op f1 where op: "syscall f = (op, f1)" by fastforce
  then have f1: "f1 = f\<lparr>faults := tl (faults f)\<rparr>" by (auto elim: syscallE)
  have "(if \<not> op \<or> names f1 p = None then (False, f1) else fsync_file p f1) = (ok, g)"
    using assms op by (simp add: FlushFileToDisk_def)
  then consider "g = f1" "\<not> ok" | "fsync_file p f1 = (ok, g)" "names f1 p \<noteq> None"
    by (cases "\<not> op \<or> names f1 p = None") auto
  note cs = this
  show "content g = content f" using cs fsync_file_ok f1 by cases auto
  show "fs_ok f \<Longrightarrow> fs_ok g" using cs fsync_file_ok f1 by cases auto
  show "names g = names f" "data g = data f" "dnames g = dnames f"
    using cs fsync_file_D(1-3) [of p f1 ok g] f1 by (cases; simp)+
  show "dirty g i \<Longrightarrow> dirty f i" using cs fsync_file_D(7) [of p f1 ok g i] f1 by cases auto
  show "ok \<Longrightarrow> names f p = Some (File i) \<Longrightarrow> \<not> dirty g i"
    using cs fsync_file_D(6) [of p f1 ok g i] f1 by cases auto
  show "ok \<Longrightarrow> names f p \<noteq> None" using cs f1 by cases auto
qed

lemma content_link:
  "content (f\<lparr>names := (names f)(dst := names f src)\<rparr>) = (content f)(dst := content f src)"
  by (rule ext) (simp add: content_def split: option.split node.split)

text \<open>\<open>moved src dst f g\<close>: the file has its new name, the old name is free, everything else is as before.\<close>

definition moved :: "path \<Rightarrow> path \<Rightarrow> fs \<Rightarrow> fs \<Rightarrow> bool" where
  "moved src dst f g \<longleftrightarrow> content g = (content f)(dst := content f src, src := None)
     \<and> names g dst = names f src \<and> names g src = None \<and> data g = data f \<and> dirty g = dirty f"

lemma fs_ok_move:
  "fs_ok f \<Longrightarrow> src \<noteq> dst \<Longrightarrow> fs_ok (f\<lparr>names := (names f)(dst := names f src, src := None)\<rparr>)"
  unfolding fs_ok_def fs_wf_def no_alias_def by (auto split: if_splits)

lemma content_move:
  "src \<noteq> dst \<Longrightarrow> content (f\<lparr>names := (names f)(dst := names f src, src := None)\<rparr>)
     = (content f)(dst := content f src, src := None)"
  by (rule ext) (simp add: content_def split: option.split node.split)

lemma fsync_two_D:
  assumes "fsync_two src dst f = (ok, ex, g)"
  shows "synced f g" "\<not> ex" "ok \<Longrightarrow> dst \<noteq> [] \<Longrightarrow> dnames g dst = names f dst"
proof -
  obtain a g1 where a: "FsyncDirectory (parent_path dst) f = (a, g1)" by fastforce
  obtain b g2 where b: "FsyncDirectory (parent_path src) g1 = (b, g2)" by fastforce
  note A = FsyncDirectory_D [OF a] and B = FsyncDirectory_D [OF b]
  have "(g = g1 \<and> ok = a \<or> g = g2 \<and> ok = (b \<and> a)) \<and> \<not> ex"
    using assms a b by (auto simp: fsync_two_def split: if_splits)
  then show "synced f g" "\<not> ex" using A(1) B(1) synced_trans by blast+
  have n: "names g1 = names f" using A(1) by (simp add: synced_def)
  show "ok \<Longrightarrow> dst \<noteq> [] \<Longrightarrow> dnames g dst = names f dst"
    using \<open>(g = g1 \<and> ok = a \<or> g = g2 \<and> ok = (b \<and> a)) \<and> \<not> ex\<close> A(3) [of dst] synced_dnames [OF B(1), of dst] n
    by auto
qed

lemma link_unlink:
  assumes "link_file src dst f = (Linked, f2)" and "unlink_file src f2 = (ul, f3)" and "fs_ok f" and "src \<noteq> dst"
  shows "ul" "fs_ok f3" "moved src dst f f3" "dnames f3 = dnames f" "names f dst = None"
    "\<And>q. q \<noteq> src \<Longrightarrow> q \<noteq> dst \<Longrightarrow> names f3 q = names f q"
proof -
  have f2: "f2 = f\<lparr>names := (names f)(dst := names f src), faults := tl (faults f)\<rparr>" "content f src \<noteq> None"
    "names f dst = None"
    using assms(1) by (auto simp: link_file_def syscall_def next_fault_eq Let_def split: if_splits)
  have c2: "content f2 src \<noteq> None"
    using f2(2) content_link [of f dst src] by (simp add: f2(1))
  have nf: "\<not> unlink_fallible f2" using assms(3) f2 by (simp add: fs_ok_def)
  have f3: "f3 = f\<lparr>names := (names f)(dst := names f src, src := None), faults := tl (tl (faults f))\<rparr>" "ul"
    using assms(2) c2 nf f2(1) by (auto simp: unlink_file_def syscall_def next_fault_eq Let_def split: if_splits)
  show "ul" "names f dst = None" "dnames f3 = dnames f" using f2 f3 by simp_all
  show "fs_ok f3"
    using fs_ok_move [OF assms(3,4)] f3(1) by simp
  show "moved src dst f f3"
    using content_move [OF assms(4), of f] assms(4) f3(1) by (simp add: moved_def)
  show "\<And>q. q \<noteq> src \<Longrightarrow> q \<noteq> dst \<Longrightarrow> names f3 q = names f q" using f3(1) by simp
qed

lemma moved_synced: "moved src dst f g \<Longrightarrow> synced g h \<Longrightarrow> moved src dst f h"
  using synced_content [of g h] by (auto simp: moved_def synced_def)

text \<open>
  The no-replace move: it either reports that the target exists and changes nothing, or moves the
  file (durably when it returns \<open>true\<close>), or changes nothing.
\<close>

lemma DurableRename_no_replace:
  assumes run: "DurableRename src dst False True f = (ok, ex, g)" and fok: "fs_ok f"
    and ne: "src \<noteq> dst" "length dst \<ge> 2"
  shows "fs_ok g"
    and "ex \<Longrightarrow> ok \<and> content g = content f"
    and "\<not> ex \<Longrightarrow> content g = content f \<or> content g = (content f)(dst := content f src, src := None)"
    and "\<not> ex \<Longrightarrow> content f dst = None \<or> content g = content f"
    and "ok \<Longrightarrow> \<not> ex \<Longrightarrow> content g = (content f)(dst := content f src, src := None)
          \<and> content f src \<noteq> None \<and> content f dst = None"
    and "ok \<Longrightarrow> \<not> ex \<Longrightarrow> names f src = Some (File i) \<Longrightarrow> \<not> dirty f i \<Longrightarrow> file_durable g dst"
    and "dirty g j \<Longrightarrow> dirty f j"
proof -
  obtain dirs f1 where e: "EnsureDirectoryDurable (parent_path dst) f = (dirs, f1)" by fastforce
  note E = EnsureDirectoryDurable_D [OF e fok]
  obtain lr f2 where l: "link_file src dst f1 = (lr, f2)" by fastforce
  obtain ul f3 where u: "unlink_file src f2 = (ul, f3)" by fastforce
  obtain ok4 ex4 f4 where s: "fsync_two src dst f3 = (ok4, ex4, f4)" by (metis prod_cases3)
  have nolink: "f2 = f1\<lparr>faults := tl (faults f1)\<rparr>" if "lr \<noteq> Linked"
    using l that by (auto simp: link_file_def syscall_def next_fault_eq Let_def split: if_splits)
  have src1: "content f1 src \<noteq> None" if "lr = Linked"
    using l that by (auto simp: link_file_def syscall_def next_fault_eq Let_def split: if_splits)
  have dst: "dst \<noteq> []" using ne by auto
  consider (same) "content g = content f" "fs_ok g" "dirty g = dirty f" "ex \<longrightarrow> ok" "\<not> ex \<longrightarrow> \<not> ok"
    | (move) "lr = Linked" "dirs" "g = f4" "ok = ok4" "\<not> ex"
  proof (cases "dirs \<and> lr = Linked")
    case True
    then have "ul" using link_unlink(1) l u E(1) ne by blast
    then have "(ok, ex, g) = (ok4, ex4, f4)" using run True e l u s by (simp add: DurableRename_def)
    then show ?thesis using fsync_two_D(2) [OF s] True that(2) by simp
  next
    case False
    then have "(g = f1 \<or> g = f2 \<and> lr \<noteq> Linked) \<and> (ex \<longrightarrow> ok) \<and> (\<not> ex \<longrightarrow> \<not> ok)"
      using run e l by (cases lr) (auto simp: DurableRename_def split: if_splits)
    then show ?thesis using that(1) E nolink by auto
  qed
  note cs = this
  have mv: "fs_ok g \<and> moved src dst f1 g \<and> content f dst = None \<and> (ok \<longrightarrow> dnames g dst = names g dst)
      \<and> (ok \<longrightarrow> dir_durable g (parent_path dst))"
    if c: "lr = Linked" dirs "g = f4" "ok = ok4" "\<not> ex"
  proof -
    note L = link_unlink [OF l [unfolded c(1)] u E(1) ne(1)]
    note F = fsync_two_D [OF s]
    have "moved src dst f1 g" using moved_synced [OF L(3) F(1)] c by simp
    moreover have "content f dst = None" using L(5) E(2) by (metis content_def option.simps(4))
    moreover have "dnames g dst = names g dst" if ok using F(1,3) c that dst by (auto simp: synced_def)
    moreover have "dir_durable g (parent_path dst)" if ok
    proof -
      have d: "dir_durable f1 (parent_path dst)" using E(6) c by simp
      have "names g q = Some Dir \<and> dnames g q = Some Dir"
        if q: "names f1 q = Some Dir" "dnames f1 q = Some Dir" "q \<in> set (prefixes_of (parent_path dst))" for q
      proof -
        have "q \<noteq> dst" using L(5) q(1) by auto
        moreover have "q \<noteq> src" using src1 [OF c(1)] q(1) by (auto simp: content_def)
        ultimately have "names f3 q = Some Dir" "dnames f3 q = Some Dir" using L(4,6) q by auto
        then show ?thesis using F(1) c synced_dnames [OF F(1), of q] by (simp add: synced_def)
      qed
      with d show ?thesis by (simp add: dir_durable_def)
    qed
    ultimately show ?thesis using synced_fs_ok [OF F(1) L(2)] c by simp
  qed
  show "fs_ok g" using cs mv by cases auto
  show "ex \<Longrightarrow> ok \<and> content g = content f" using cs by cases auto
  show "\<not> ex \<Longrightarrow> content g = content f \<or> content g = (content f)(dst := content f src, src := None)"
    using cs mv E(2) by cases (auto simp: moved_def)
  show "\<not> ex \<Longrightarrow> content f dst = None \<or> content g = content f" using cs mv by cases auto
  show "ok \<Longrightarrow> \<not> ex \<Longrightarrow> content g = (content f)(dst := content f src, src := None)
          \<and> content f src \<noteq> None \<and> content f dst = None"
    using cs mv E(2) src1 by cases (auto simp: moved_def)
  show "dirty g j \<Longrightarrow> dirty f j" using cs mv E(4) by cases (auto simp: moved_def)
  show "file_durable g dst" if "ok" "\<not> ex" "names f src = Some (File i)" "\<not> dirty f i"
    using cs
  proof cases
    case same
    then show ?thesis using that by simp
  next
    case move
    note m = mv [OF move]
    have "names f1 src = Some (File i)" using E(5) [of src] that(3) src1 [OF move(1)]
      by (auto simp: content_def)
    then show ?thesis using m that E(4) by (auto simp: moved_def file_durable_def)
  qed
qed

subsection \<open>Properties\<close>


definition demo_move_fs :: fs where
  "demo_move_fs = demo_fs\<lparr>names := (names demo_fs)([''r'', ''p''] \<mapsto> File 0), data := (\<lambda>_. ''abc''),
                          dirty := (\<lambda>i. i = 0), next_inode := 1\<rparr>"


definition demo_stuck_fs :: fs where
  "demo_stuck_fs = \<lparr>names = (\<lambda>_. None)([''r''] \<mapsto> Dir, [''r'', ''p''] \<mapsto> File 0), data = (\<lambda>_. ''abcd''),
      next_inode = 1, dirty = (\<lambda>_. False), dnames = (\<lambda>_. None),
      faults = [Fine, Fine, Fine, Fails], unlink_fallible = True\<rparr>"



end
