(* ===== verification/Storage_Frame.thy ===== *)
theory Storage_Frame
  imports Durable_Move
begin

text \<open>
  Framing for the file operations: which paths an operation can affect.  \<open>touches P f g\<close> says that
  between the states \<open>f\<close> and \<open>g\<close> every path outside \<open>P\<close> kept its file, with content and durability;
  outside \<open>P\<close> at most directories were added and entries were written out.

  The rules in the collection \<open>keep\<close> are syntax-directed: they follow a definition through its
  \<open>let\<close>s, conditions and case distinctions down to the system calls.
\<close>

named_theorems keep \<open>rules for the framing of file operations\<close>

definition touches :: "path set \<Rightarrow> fs \<Rightarrow> fs \<Rightarrow> bool" where
  "touches P f g \<longleftrightarrow>
     (\<forall>q. q \<notin> P \<longrightarrow>
        (names g q = names f q \<or> names f q = None \<and> names g q = Some Dir)
        \<and> (\<forall>i. names f q = Some (File i) \<longrightarrow> data g i = data f i \<and> (dirty g i \<longrightarrow> dirty f i))
        \<and> (dnames g q = dnames f q \<or> dnames g q = names g q \<or> dnames g q = names f q))"

lemma touches_refl [simp]: "touches P f f"
  by (simp add: touches_def)

lemma touches_trans:
  assumes "touches P f g" and "touches P g h"
  shows "touches P f h"
  unfolding touches_def
proof (intro allI impI)
  fix q assume q: "q \<notin> P"
  note A = assms(1) [unfolded touches_def, rule_format, OF q]
  note B = assms(2) [unfolded touches_def, rule_format, OF q]
  show "(names h q = names f q \<or> names f q = None \<and> names h q = Some Dir)
        \<and> (\<forall>i. names f q = Some (File i) \<longrightarrow> data h i = data f i \<and> (dirty h i \<longrightarrow> dirty f i))
        \<and> (dnames h q = dnames f q \<or> dnames h q = names h q \<or> dnames h q = names f q)"
  proof (cases "names g q = names f q")
    case True
    then show ?thesis using A B by auto
  next
    case False
    then have "names f q = None" "names g q = Some Dir" "names h q = Some Dir" using A B by auto
    then show ?thesis using A B by auto
  qed
qed

lemma touches_content: "touches P f g \<Longrightarrow> q \<notin> P \<Longrightarrow> content g q = content f q"
  by (auto simp: touches_def content_def split: option.split node.split)

lemma touches_durable:
  assumes "touches P f g" and "file_durable f q" and "q \<notin> P" and "\<And>r. r \<in> set (prefixes_of (parent_path q)) \<Longrightarrow> length r \<ge> 2 \<Longrightarrow> r \<notin> P"
  shows "file_durable g q"
proof -
  obtain i where i: "names f q = Some (File i)" "dnames f q = Some (File i)" "\<not> dirty f i"
    and d: "dir_durable f (parent_path q)"
    using assms(2) by (auto simp: file_durable_def)
  have "names g q = Some (File i) \<and> dnames g q = Some (File i) \<and> \<not> dirty g i"
    using assms(1,3) i unfolding touches_def by (elim allE [of _ q]) auto
  moreover have "names g r = Some Dir \<and> dnames g r = Some Dir"
    if "r \<in> set (prefixes_of (parent_path q))" "length r \<ge> 2" for r
    using assms(1) assms(4) [OF that] d that unfolding touches_def dir_durable_def by (elim allE [of _ r]) auto
  ultimately show ?thesis by (auto simp: file_durable_def dir_durable_def)
qed

text \<open>The relation that the operations are shown to preserve, from a fixed earlier state.\<close>

definition keeps :: "path set \<Rightarrow> fs \<Rightarrow> fs \<Rightarrow> bool" where
  "keeps P f g \<longleftrightarrow> fs_ok g \<and> touches P f g"

definition ends2 :: "(fs \<Rightarrow> bool) \<Rightarrow> 'a \<times> fs \<Rightarrow> bool" where
  "ends2 R r \<longleftrightarrow> R (snd r)"

definition ends3 :: "(fs \<Rightarrow> bool) \<Rightarrow> 'a \<times> 'b \<times> fs \<Rightarrow> bool" where
  "ends3 R r \<longleftrightarrow> R (snd (snd r))"

lemma keeps_refl: "fs_ok f \<Longrightarrow> keeps P f f"
  by (simp add: keeps_def)

lemma keeps_trans: "keeps P f g \<Longrightarrow> keeps P g h \<Longrightarrow> keeps P f h"
  unfolding keeps_def using touches_trans by blast

lemma ends2_use: "ends2 R r \<Longrightarrow> r = (x, g) \<Longrightarrow> R g"
  by (simp add: ends2_def)

lemma ends3_use: "ends3 R r \<Longrightarrow> r = (x, y, g) \<Longrightarrow> R g"
  by (simp add: ends3_def)

lemma ends_Pair [keep]: "R g \<Longrightarrow> ends2 R (x, g)" "R g \<Longrightarrow> ends3 R (x, y, g)"
  by (simp_all add: ends2_def ends3_def)

lemma ends_snd [keep]: "ends2 (keeps P f) r \<Longrightarrow> keeps P f (snd r)"
  by (simp add: ends2_def)

lemma ends_case [keep]:
  "ends2 R m \<Longrightarrow> (\<And>x g. R g \<Longrightarrow> ends2 R (k x g)) \<Longrightarrow> ends2 R (case_prod k m)"
  "ends2 R m \<Longrightarrow> (\<And>x g. R g \<Longrightarrow> ends3 R (l x g)) \<Longrightarrow> ends3 R (case_prod l m)"
  by (auto simp: ends2_def split: prod.split)

lemma ends_case3 [keep]:
  "ends3 R m \<Longrightarrow> (\<And>x y g. R g \<Longrightarrow> ends2 R (k x y g)) \<Longrightarrow> ends2 R (case_prod (\<lambda>x. case_prod (k x)) m)"
  "ends3 R m \<Longrightarrow> (\<And>x y g. R g \<Longrightarrow> ends3 R (l x y g)) \<Longrightarrow> ends3 R (case_prod (\<lambda>x. case_prod (l x)) m)"
  by (auto simp: ends3_def split: prod.split)

lemma ends_if [keep]:
  "(c \<Longrightarrow> ends2 R a) \<Longrightarrow> (\<not> c \<Longrightarrow> ends2 R b) \<Longrightarrow> ends2 R (if c then a else b)"
  "(c \<Longrightarrow> ends3 R a') \<Longrightarrow> (\<not> c \<Longrightarrow> ends3 R b') \<Longrightarrow> ends3 R (if c then a' else b')"
  by simp_all

lemma ends_option [keep]:
  "ends2 R n \<Longrightarrow> (\<And>x. ends2 R (s x)) \<Longrightarrow> ends2 R (case opt of None \<Rightarrow> n | Some x \<Rightarrow> s x)"
  "ends3 R n' \<Longrightarrow> (\<And>x. ends3 R (s' x)) \<Longrightarrow> ends3 R (case opt of None \<Rightarrow> n' | Some x \<Rightarrow> s' x)"
  by (simp_all split: option.split)

subsection \<open>System calls\<close>

lemma keeps_step: "keeps P f g \<Longrightarrow> fs_ok h \<Longrightarrow> touches P g h \<Longrightarrow> keeps P f h"
  unfolding keeps_def using touches_trans by blast

lemma touches_faults [simp]: "touches P f (f\<lparr>faults := xs\<rparr>)"
  by (simp add: touches_def)

lemma keep_faults: "keeps P f g \<Longrightarrow> keeps P f (g\<lparr>faults := xs\<rparr>)"
  by (frule keeps_step [of _ _ _ "g\<lparr>faults := xs\<rparr>"]) (simp_all add: keeps_def)

lemma keep_syscall [keep]: "keeps P f g \<Longrightarrow> ends2 (keeps P f) (syscall g)"
  by (simp add: ends2_def syscall_def next_fault_eq keep_faults)

lemma keep_next_fault [keep]: "keeps P f g \<Longrightarrow> ends2 (keeps P f) (next_fault g)"
  by (simp add: ends2_def next_fault_eq keep_faults)

lemma keep_open_existing [keep]: "keeps P f g \<Longrightarrow> ends2 (keeps P f) (open_existing p g)"
  unfolding open_existing_def Let_def by (intro keep)

lemma keep_read_at [keep]: "keeps P f g \<Longrightarrow> ends2 (keeps P f) (read_at p off len g)"
  unfolding read_at_def Let_def by (intro keep)

lemma touches_set_data:
  assumes "no_alias f" and "p \<in> P"
  shows "touches P f (set_data p d f)"
  using assms unfolding touches_def no_alias_def
  by (auto simp: set_data_def split: option.splits node.splits)

lemma touches_new_file:
  assumes "fs_wf f" and "p \<in> P"
  shows "touches P f (new_file p d f)"
  using assms unfolding touches_def fs_wf_def by (auto simp: new_file_def)

lemma fs_ok_alias: "fs_ok f \<Longrightarrow> no_alias f" "fs_ok f \<Longrightarrow> fs_wf f"
  by (simp_all add: fs_ok_def)

lemma keep_set_data [keep]: "keeps P f g \<Longrightarrow> p \<in> P \<Longrightarrow> keeps P f (set_data p d g)"
  by (rule keeps_step [of P f g]) (auto simp: keeps_def fs_ok_set_data fs_ok_alias intro: touches_set_data)

lemma keep_new_file [keep]: "keeps P f g \<Longrightarrow> p \<in> P \<Longrightarrow> keeps P f (new_file p d g)"
  by (rule keeps_step [of P f g]) (auto simp: keeps_def fs_ok_new_file fs_ok_alias intro: touches_new_file)

lemma keep_node_case [keep]:
  "(\<And>i. ends2 R (a i)) \<Longrightarrow> ends2 R b \<Longrightarrow> ends2 R (case x of File i \<Rightarrow> a i | Dir \<Rightarrow> b)"
  by (simp split: node.split)

lemma keep_fault_case [keep]:
  "ends2 R a \<Longrightarrow> ends2 R b \<Longrightarrow> (\<And>t. ends2 R (c t)) \<Longrightarrow> ends2 R (case x of Fine \<Rightarrow> a | Fails \<Rightarrow> b | Torn t \<Rightarrow> c t)"
  by (simp split: fault.split)

lemma keep_open_append [keep]: "keeps P f g \<Longrightarrow> p \<in> P \<Longrightarrow> ends2 (keeps P f) (open_append p g)"
  unfolding open_append_def Let_def by (intro keep)

lemma keep_write_at [keep]: "keeps P f g \<Longrightarrow> p \<in> P \<Longrightarrow> ends2 (keeps P f) (write_at p off d g)"
  unfolding write_at_def Let_def by (intro keep)

lemma keep_resize [keep]: "keeps P f g \<Longrightarrow> p \<in> P \<Longrightarrow> ends2 (keeps P f) (resize_file p n g)"
  unfolding resize_file_def Let_def by (intro keep)

lemma keep_drop_name [keep]: "keeps P f g \<Longrightarrow> p \<in> P \<Longrightarrow> keeps P f (g\<lparr>names := (names g)(p := None)\<rparr>)"
  by (frule keeps_step [of _ _ _ "g\<lparr>names := (names g)(p := None)\<rparr>"])
    (auto simp: keeps_def fs_ok_drop_name touches_def)

lemma keep_remove [keep]: "keeps P f g \<Longrightarrow> p \<in> P \<Longrightarrow> ends2 (keeps P f) (remove_file p g)"
  unfolding remove_file_def Let_def by (intro keep)

lemma keep_fsync_file [keep]: 
  assumes "keeps P f g"
  shows "ends2 (keeps P f) (fsync_file p g)"
proof -
  obtain ok h where h: "fsync_file p g = (ok, h)" by fastforce
  note D = fsync_file_D [OF h]
  have "touches P g h" using D(1-5,7) by (simp add: touches_def)
  moreover have "fs_ok h" using fsync_file_ok(2) [OF h] assms by (simp add: keeps_def)
  ultimately show ?thesis using keeps_step [OF assms] h by (simp add: ends2_def)
qed

lemma synced_keeps: "keeps P f g \<Longrightarrow> synced g h \<Longrightarrow> keeps P f h"
  by (frule keeps_step [of _ _ _ h]) (auto simp: keeps_def synced_def touches_def intro: synced_fs_ok)

lemma keep_FsyncDirectory [keep]: "keeps P f g \<Longrightarrow> ends2 (keeps P f) (FsyncDirectory d g)"
  by (cases "FsyncDirectory d g") (simp add: ends2_def synced_keeps FsyncDirectory_D(1))

lemma touches_add_dirs:
  assumes "\<And>p. names g p = names f p \<or> names f p = None \<and> names g p = Some Dir"
    and "data g = data f" and "dirty g = dirty f" and "dnames g = dnames f"
  shows "touches P f g"
  using assms by (simp add: touches_def)

lemma add_dir_names: "content f p = None \<Longrightarrow> Some Dir = names f p \<or> names f p = None"
  by (auto simp: content_def split: option.splits node.splits)

lemma keep_create_directories [keep]:
  assumes "keeps P f g"
  shows "ends2 (keeps P f) (create_directories d g)"
proof -
  obtain ok h where h: "create_directories d g = (ok, h)" by fastforce
  have "touches P g h" using h
    by (intro touches_add_dirs)
      (auto simp: create_directories_def syscall_def next_fault_eq Let_def list_ex_iff split: if_splits
        dest!: bspec dest: add_dir_names)
  moreover have "fs_ok h" using create_directories_D(1) [OF h] assms by (simp add: keeps_def)
  ultimately show ?thesis using keeps_step [OF assms] h by (simp add: ends2_def)
qed

lemma keep_create_directory [keep]:
  assumes "keeps P f g"
  shows "ends2 (keeps P f) (create_directory d g)"
proof -
  obtain ok h where h: "create_directory d g = (ok, h)" by fastforce
  have "touches P g h" using h
    by (intro touches_add_dirs)
      (auto simp: create_directory_def syscall_def next_fault_eq Let_def split: if_splits dest: add_dir_names)
  moreover have "fs_ok h" using create_directory_D(1) [OF h] assms by (simp add: keeps_def)
  ultimately show ?thesis using keeps_step [OF assms] h by (simp add: ends2_def)
qed

lemma keep_file_hash [keep]: "keeps P f g \<Longrightarrow> ends2 (keeps P f) (file_hash sha p g)"
  unfolding file_hash_def Let_def by (intro keep)

subsection \<open>Operations on upload files\<close>

lemma keep_ReadLength [keep]: "keeps P f g \<Longrightarrow> ends2 (keeps P f) (ReadLength p g)"
  unfolding ReadLength_def Let_def by (intro keep)

lemma keep_HashRange [keep]: "keeps P f g \<Longrightarrow> ends2 (keeps P f) (HashRange sha p off len g)"
  unfolding HashRange_def Let_def by (intro keep)

lemma keep_WriteAndVerify [keep]: "keeps P f g \<Longrightarrow> p \<in> P \<Longrightarrow> ends2 (keeps P f) (WriteAndVerify p off d g)"
  unfolding WriteAndVerify_def Let_def by (intro keep)

lemma keep_Truncate [keep]: "keeps P f g \<Longrightarrow> p \<in> P \<Longrightarrow> ends2 (keeps P f) (TruncateUploadFile p n g)"
  unfolding TruncateUploadFile_def Let_def by (intro keep)

lemma keep_Recover [keep]: "keeps P f g \<Longrightarrow> p \<in> P \<Longrightarrow> ends3 (keeps P f) (RecoverUploadFile p tot chunk rcv g)"
  unfolding RecoverUploadFile_def Let_def by (intro keep)

lemma keep_WriteUploadChunk [keep]:
  "keeps P f g \<Longrightarrow> p \<in> P \<Longrightarrow> ends3 (keeps P f) (WriteUploadChunk sha p tot chunk off d h rcv g)"
  unfolding WriteUploadChunk_def Let_def by (intro keep)

lemma keep_Flush [keep]: "keeps P f g \<Longrightarrow> ends2 (keeps P f) (FlushFileToDisk p g)"
  unfolding FlushFileToDisk_def Let_def by (intro keep)

lemma keep_create_missing [keep]: "keeps P f g \<Longrightarrow> ends2 (keeps P f) (create_missing ds g)"
proof (induction ds arbitrary: g)
  case Nil
  then show ?case by (simp add: ends2_def)
next
  case (Cons d ds)
  show ?case unfolding create_missing.simps Let_def by (intro keep Cons)
qed

lemma keep_fsync_chain [keep]: "keeps P f g \<Longrightarrow> ends2 (keeps P f) (fsync_chain d g)"
  by (cases "fsync_chain d g") (auto simp: ends2_def intro: synced_keeps dest!: fsync_chain_D)

lemma keep_Ensure [keep]: "keeps P f g \<Longrightarrow> ends2 (keeps P f) (EnsureDirectoryDurable d g)"
  unfolding EnsureDirectoryDurable_def Let_def by (intro keep)

subsection \<open>The publishing move\<close>

lemma Ensure_entries:
  assumes "EnsureDirectoryDurable d f = (True, g)" and "d \<noteq> []" and "r \<noteq> []" and "parent_path r = d"
  shows "dnames g r = names g r"
proof -
  obtain mk f1 where mk: "create_missing (rev (missing_dirs d f)) f = (mk, f1)" by fastforce
  then have "fsync_chain d f1 = (True, g)"
    using assms(1,2) by (auto simp: EnsureDirectoryDurable_def split: if_splits)
  from fsync_chain_D [OF this] have "synced f1 g" "dnames g r = names f1 r"
    using assms(2-4) by (auto simp: set_prefixes_of)
  then show ?thesis by (simp add: synced_def)
qed

text \<open>A move that finds its target, or fails before the link, affects no path.\<close>

lemma DurableRename_frame:
  assumes run: "DurableRename src dst False True f = (ok, ex, g)" and k: "keeps P f0 f" and ne: "src \<noteq> dst"
  shows "src \<in> P \<Longrightarrow> dst \<in> P \<Longrightarrow> keeps P f0 g" and "names f dst \<noteq> None \<Longrightarrow> keeps P f0 g"
    and "ex \<Longrightarrow> parent_path dst \<noteq> [] \<Longrightarrow> keeps P f0 g \<and> dir_durable g (parent_path dst) \<and> dnames g dst = names g dst"
proof -
  have fok: "fs_ok f" using k by (simp add: keeps_def)
  obtain dirs f1 where e: "EnsureDirectoryDurable (parent_path dst) f = (dirs, f1)" by fastforce
  note E = EnsureDirectoryDurable_D [OF e fok]
  have k1: "keeps P f0 f1" using keep_Ensure [OF k] e by (rule ends2_use)
  obtain lr f2 where l: "link_file src dst f1 = (lr, f2)" by fastforce
  obtain ul f3 where u: "unlink_file src f2 = (ul, f3)" by fastforce
  obtain ok4 ex4 f4 where s: "fsync_two src dst f3 = (ok4, ex4, f4)" by (metis prod_cases3)
  have nolink: "f2 = f1\<lparr>faults := tl (faults f1)\<rparr>" if "lr \<noteq> Linked"
    using l that by (auto simp: link_file_def syscall_def next_fault_eq Let_def split: if_splits)
  consider (same) "keeps P f0 g" "g = f1 \<or> g = f2" "ex \<longrightarrow> dirs \<and> g = f2 \<and> lr \<noteq> Linked" | (move) "lr = Linked" dirs "g = f4" "\<not> ex"
  proof (cases "dirs \<and> lr = Linked")
    case True
    then have "ul" using link_unlink(1) l u E(1) ne by blast
    then have "(ok, ex, g) = (ok4, ex4, f4)" using run True e l u s by (simp add: DurableRename_def)
    then show ?thesis using fsync_two_D(2) [OF s] True that(2) by simp
  next
    case False
    then have c: "(g = f1 \<or> g = f2 \<and> lr \<noteq> Linked) \<and> (ex \<longrightarrow> dirs \<and> g = f2)"
      using run e l by (cases lr) (auto simp: DurableRename_def split: if_splits)
    then have "keeps P f0 g" using k1 nolink by (auto simp: keep_faults)
    then show ?thesis using that(1) c False by auto
  qed
  note cs = this
  have mv: "keeps P f0 g" "names f1 dst = None"
    if c: "lr = Linked" dirs "g = f4" "src \<in> P" "dst \<in> P"
  proof -
    note L = link_unlink [OF l [unfolded c(1)] u E(1) ne(1)]
    have "names f3 q = names f1 q" if "q \<notin> P" for q using L(6) c(4,5) that by metis
    then have "touches P f1 f3" using L(3,4) unfolding touches_def moved_def by auto
    then have "keeps P f0 f3" by (rule keeps_step [OF k1 L(2)])
    then show "keeps P f0 g" "names f1 dst = None" using synced_keeps fsync_two_D(1) [OF s] c L(5) by blast+
  qed
  show "src \<in> P \<Longrightarrow> dst \<in> P \<Longrightarrow> keeps P f0 g" using cs mv by cases auto
  have nd: "names f1 dst = None" if "lr = Linked" dirs
    using link_unlink(5) [OF l [unfolded that(1)] u E(1) ne(1)] .
  show "names f dst \<noteq> None \<Longrightarrow> keeps P f0 g"
    using cs nd E(5) [of dst] by cases auto
  show "keeps P f0 g \<and> dir_durable g (parent_path dst) \<and> dnames g dst = names g dst"
    if "ex" "parent_path dst \<noteq> []"
    using cs
  proof cases
    case same
    have "dst \<noteq> []" using that(2) by (auto simp: parent_path_def)
    then have "dnames f1 dst = names f1 dst" using Ensure_entries [of "parent_path dst" f f1 dst] e same that by auto
    then show ?thesis using same that nolink E(6) by (auto simp: dir_durable_def)
  next
    case move
    then show ?thesis using that by simp
  qed
qed

end
