(* ===== verification/Chat_Database.thy ===== *)
theory Chat_Database
  imports Chat_Prelude
begin

text \<open>
  The MySQL schema that all servers share (the schema script of the repository), and how the data
  access objects run statements and transactions on it.

  A table is the list of its rows in the order of insertion; a row is a record with the columns as
  fields.  Ids and counters are natural numbers.  The connector's behaviour is a list of outcomes
  in the state, one per connection taken from the pool: there may be no connection, a statement
  may throw (InnoDB reports a deadlock or another error, and the transaction is rolled back), and
  \<open>commit\<close> may throw although the server has or has not made the changes durable.
\<close>

datatype MessageStatus = Pending | Published | Failed

record user_row =
  usr_id :: nat
  usr_username :: string
  usr_email :: string
  usr_password_hash :: string
  usr_nickname :: string
  usr_profile_bio :: string
  usr_gender :: nat
  usr_avatar_key :: string
  usr_last_event_seq :: nat

record friendship_row =
  frd_lower :: nat
  frd_higher :: nat

record private_chat_row =
  pc_thread_id :: nat
  pc_lower :: nat
  pc_higher :: nat

record message_row =
  msg_id :: nat
  msg_thread_id :: nat
  msg_sender :: nat
  msg_client_id :: string
  msg_type :: nat
  msg_text :: "string option"
  msg_status :: MessageStatus
  msg_created_at :: nat

record resource_row =
  res_message_id :: nat
  res_original_file_name :: string
  res_file_size_bytes :: nat
  res_sha256 :: string
  res_mime_type :: string

record request_row =
  req_id :: nat
  req_requester :: nat
  req_target :: nat
  req_client_id :: string
  req_message :: string
  req_status :: nat
  req_thread_id :: "nat option"
  req_created_at :: nat

record event_row =
  evt_recipient :: nat
  evt_seq :: nat
  evt_type :: nat
  evt_message_id :: "nat option"
  evt_request_id :: "nat option"

datatype txn_outcome = TxnOk | NoConnection | Throws bool | CommitThrows bool bool

record db =
  users :: "user_row list"
  friendships :: "friendship_row list"
  private_chats :: "private_chat_row list"
  chat_messages :: "message_row list"
  message_resources :: "resource_row list"
  friend_requests :: "request_row list"
  user_events :: "event_row list"
  outcomes :: "txn_outcome list"

subsection \<open>Statements\<close>

definition update_rows :: "('r \<Rightarrow> bool) \<Rightarrow> ('r \<Rightarrow> 'r) \<Rightarrow> 'r list \<Rightarrow> nat \<times> 'r list" where
  "update_rows P f rows = (length (filter (\<lambda>r. P r \<and> f r \<noteq> r) rows), map (\<lambda>r. if P r then f r else r) rows)"

lemma update_rows_snd [simp]: "snd (update_rows P f rows) = map (\<lambda>r. if P r then f r else r) rows"
  by (simp add: update_rows_def)

text \<open>The recipient of a message: the other member of the private chat.\<close>

definition peer_of :: "private_chat_row \<Rightarrow> nat \<Rightarrow> nat" where
  "peer_of pc sender = (if pc_lower pc = sender then pc_higher pc else pc_lower pc)"

definition find_user :: "nat \<Rightarrow> db \<Rightarrow> user_row option" where
  "find_user u d = List.find (\<lambda>r. usr_id r = u) (users d)"

definition find_chat :: "nat \<Rightarrow> db \<Rightarrow> private_chat_row option" where
  "find_chat t d = List.find (\<lambda>r. pc_thread_id r = t) (private_chats d)"

definition find_message :: "nat \<Rightarrow> db \<Rightarrow> message_row option" where
  "find_message m d = List.find (\<lambda>r. msg_id r = m) (chat_messages d)"

definition find_resource :: "nat \<Rightarrow> db \<Rightarrow> resource_row option" where
  "find_resource m d = List.find (\<lambda>r. res_message_id r = m) (message_resources d)"

definition find_message_event :: "nat \<Rightarrow> nat \<Rightarrow> nat \<Rightarrow> db \<Rightarrow> event_row option" where
  "find_message_event u ty m d =
     List.find (\<lambda>r. evt_recipient r = u \<and> evt_type r = ty \<and> evt_message_id r = Some m) (user_events d)"

subsection \<open>Transactions\<close>

definition next_outcome :: "db \<Rightarrow> txn_outcome \<times> db" where
  "next_outcome d = (case outcomes d of [] \<Rightarrow> (TxnOk, d) | x # xs \<Rightarrow> (x, d\<lparr>outcomes := xs\<rparr>))"

text \<open>
  A transaction body computes its result, the new tables, and whether it ends with \<open>commit\<close> or
  \<open>rollback\<close>.  \<open>Inl\<close> is an exception or a missing connection; its flag says that InnoDB reported a
  deadlock.
\<close>

definition transact :: "(db \<Rightarrow> 'r \<times> bool \<times> db) \<Rightarrow> db \<Rightarrow> (bool + 'r) \<times> db" where
  "transact body d =
     (let (x, d1) = next_outcome d; (r, commit, d2) = body d1 in
      case x of
        TxnOk \<Rightarrow> (Inr r, if commit then d2 else d1)
      | NoConnection \<Rightarrow> (Inl False, d1)
      | Throws deadlock \<Rightarrow> (Inl deadlock, d1)
      | CommitThrows applied deadlock \<Rightarrow> (Inl deadlock, if commit \<and> applied then d2 else d1))"

definition query :: "(db \<Rightarrow> 'r) \<Rightarrow> db \<Rightarrow> (bool + 'r) \<times> db" where
  "query body d = transact (\<lambda>d. (body d, False, d)) d"

lemma next_outcome_eq: "next_outcome d = (hd (outcomes d @ [TxnOk]), d\<lparr>outcomes := tl (outcomes d)\<rparr>)"
  by (cases "outcomes d") (auto simp: next_outcome_def)

text \<open>A property of the tables that the body keeps is kept by the transaction, whatever the outcome.\<close>

lemma transact_preserves:
  assumes "transact body d = (r, d')" and "P (d\<lparr>outcomes := tl (outcomes d)\<rparr>)"
    and "\<And>x c d2. body (d\<lparr>outcomes := tl (outcomes d)\<rparr>) = (x, c, d2) \<Longrightarrow> c \<Longrightarrow> P d2"
  shows "P d'"
proof -
  obtain x c d2 where b: "body (d\<lparr>outcomes := tl (outcomes d)\<rparr>) = (x, c, d2)" by (metis prod_cases3)
  from assms(1) b have "d' = d\<lparr>outcomes := tl (outcomes d)\<rparr> \<or> (c \<and> d' = d2)"
    by (auto simp: transact_def next_outcome_eq split: txn_outcome.splits if_splits)
  with assms(2,3) b show ?thesis by blast
qed

lemma transact_Inr:
  assumes "transact body d = (Inr r, d')"
  obtains c d2 where "body (d\<lparr>outcomes := tl (outcomes d)\<rparr>) = (r, c, d2)"
    "d' = (if c then d2 else d\<lparr>outcomes := tl (outcomes d)\<rparr>)"
proof -
  obtain x c d2 where b: "body (d\<lparr>outcomes := tl (outcomes d)\<rparr>) = (x, c, d2)" by (metis prod_cases3)
  with assms that [of c d2] show ?thesis
    by (auto simp: transact_def next_outcome_eq split: txn_outcome.splits if_splits)
qed

lemma transact_cases:
  assumes "transact body d = (r, d')"
  obtains (kept) "d' = d\<lparr>outcomes := tl (outcomes d)\<rparr>"
    | (applied) x d2 where "body (d\<lparr>outcomes := tl (outcomes d)\<rparr>) = (x, True, d2)" "d' = d2"
proof -
  obtain x c d2 where b: "body (d\<lparr>outcomes := tl (outcomes d)\<rparr>) = (x, c, d2)" by (metis prod_cases3)
  with assms that show ?thesis
    by (cases c) (auto simp: transact_def next_outcome_eq split: txn_outcome.splits if_splits)
qed

lemma query_D:
  assumes "query body d = (r, d')"
  shows "d' = d\<lparr>outcomes := tl (outcomes d)\<rparr>" "r = Inr x \<Longrightarrow> x = body (d\<lparr>outcomes := tl (outcomes d)\<rparr>)"
  using assms by (auto simp: query_def transact_def next_outcome_eq split: txn_outcome.splits)

subsection \<open>Lookups after updates\<close>

lemma find_map:
  "List.find P (map f xs) = map_option f (List.find (P \<circ> f) xs)"
  by (induction xs) auto

lemma find_map_same:
  "(\<And>x. P (f x) = P x) \<Longrightarrow> List.find P (map f xs) = map_option f (List.find P xs)"
  by (induction xs) auto

lemma find_append:
  "List.find P (xs @ ys) = (case List.find P xs of Some x \<Rightarrow> Some x | None \<Rightarrow> List.find P ys)"
  by (induction xs) auto

lemma find_SomeD: "List.find P xs = Some x \<Longrightarrow> x \<in> set xs \<and> P x"
  by (induction xs) (auto split: if_splits)

lemma find_distinct:
  assumes "x \<in> set xs" and "P x" and "\<And>y. y \<in> set xs \<Longrightarrow> P y \<Longrightarrow> y = x"
  shows "List.find P xs = Some x"
proof (cases "List.find P xs")
  case None
  with assms(1,2) show ?thesis by (auto simp: find_None_iff)
next
  case (Some y)
  with assms(3) [of y] show ?thesis by (auto dest: find_SomeD)
qed

lemmas find_defs = find_user_def find_chat_def find_message_def find_resource_def find_message_event_def

lemma finds_outcomes [simp]:
  "find_user u (d\<lparr>outcomes := xs\<rparr>) = find_user u d"
  "find_chat t (d\<lparr>outcomes := xs\<rparr>) = find_chat t d"
  "find_message m (d\<lparr>outcomes := xs\<rparr>) = find_message m d"
  "find_resource m (d\<lparr>outcomes := xs\<rparr>) = find_resource m d"
  "find_message_event u t m (d\<lparr>outcomes := xs\<rparr>) = find_message_event u t m d"
  by (simp_all add: find_defs)

subsection \<open>What the schema guarantees, and the event log\<close>

text \<open>Primary and foreign keys that the properties use.\<close>

definition keys_ok :: "db \<Rightarrow> bool" where
  "keys_ok d \<longleftrightarrow> distinct (map usr_id (users d)) \<and> distinct (map msg_id (chat_messages d))
     \<and> distinct (map res_message_id (message_resources d)) \<and> distinct (map pc_thread_id (private_chats d))
     \<and> (\<forall>e \<in> set (user_events d). find_user (evt_recipient e) d \<noteq> None)
     \<and> (\<forall>e \<in> set (user_events d). \<forall>m. evt_message_id e = Some m \<longrightarrow> find_message m d \<noteq> None)
     \<and> (\<forall>r \<in> set (message_resources d). find_message (res_message_id r) d \<noteq> None)"

definition event_seqs :: "db \<Rightarrow> nat \<Rightarrow> nat list" where
  "event_seqs d u = map evt_seq (filter (\<lambda>e. evt_recipient e = u) (user_events d))"

text \<open>
  Every user's events are numbered 1, 2, \dots without a gap up to \<open>last_event_seq\<close>.
\<close>

definition events_ok :: "db \<Rightarrow> bool" where
  "events_ok d \<longleftrightarrow> (\<forall>r \<in> set (users d). event_seqs d (usr_id r) = [1..<Suc (usr_last_event_seq r)])"

text \<open>A message has an event exactly when it is published, and then one.\<close>

definition message_events :: "db \<Rightarrow> nat \<Rightarrow> event_row list" where
  "message_events d m = filter (\<lambda>e. evt_message_id e = Some m) (user_events d)"

definition publication_ok :: "db \<Rightarrow> bool" where
  "publication_ok d \<longleftrightarrow> (\<forall>r \<in> set (chat_messages d).
     if msg_status r = Published
     then (\<exists>e pc. message_events d (msg_id r) = [e] \<and> evt_type e = msg_type r
             \<and> find_chat (msg_thread_id r) d = Some pc \<and> evt_recipient e = peer_of pc (msg_sender r))
     else message_events d (msg_id r) = [])"

definition db_ok :: "db \<Rightarrow> bool" where
  "db_ok d \<longleftrightarrow> keys_ok d \<and> events_ok d \<and> publication_ok d"

lemma db_ok_outcomes [simp]: "db_ok (d\<lparr>outcomes := xs\<rparr>) = db_ok d"
  by (simp add: db_ok_def keys_ok_def events_ok_def publication_ok_def event_seqs_def message_events_def)

lemma find_message_set: "find_message i d = Some m \<Longrightarrow> m \<in> set (chat_messages d) \<and> msg_id m = i"
  by (auto simp: find_message_def dest: find_SomeD)

lemma find_user_set: "find_user i d = Some m \<Longrightarrow> m \<in> set (users d) \<and> usr_id m = i"
  by (auto simp: find_user_def dest: find_SomeD)

lemma distinct_key: "distinct (map k xs) \<Longrightarrow> x \<in> set xs \<Longrightarrow> y \<in> set xs \<Longrightarrow> k x = k y \<Longrightarrow> x = y"
  by (induction xs) (auto simp: image_iff)

text \<open>Numbering the next event of a user keeps the event log.\<close>

lemma log_events_ok:
  assumes "distinct (map usr_id (users d))" and "events_ok d" and "find_user u d = Some head"
    and "seq = Suc (usr_last_event_seq head)"
    and us: "users d' = map (\<lambda>r. if usr_id r = u then r\<lparr>usr_last_event_seq := seq\<rparr> else r) (users d)"
    and ev: "user_events d' = user_events d @ [e]" and e: "evt_recipient e = u" "evt_seq e = seq"
  shows "events_ok d'"
  unfolding events_ok_def
proof
  fix r' assume "r' \<in> set (users d')"
  then obtain r where r: "r \<in> set (users d)" "r' = (if usr_id r = u then r\<lparr>usr_last_event_seq := seq\<rparr> else r)"
    unfolding us set_map by blast
  have seqs: "event_seqs d' x = event_seqs d x @ (if x = u then [seq] else [])" for x
    by (simp add: event_seqs_def ev e)
  have old: "event_seqs d (usr_id r) = [1..<Suc (usr_last_event_seq r)]" using assms(2) r(1) by (simp add: events_ok_def)
  show "event_seqs d' (usr_id r') = [1..<Suc (usr_last_event_seq r')]"
  proof (cases "usr_id r = u")
    case True
    then have "r = head" using distinct_key [OF assms(1) r(1)] find_user_set [OF assms(3)] by simp
    then show ?thesis using old True r(2) assms(4) by (simp add: seqs)
  next
    case False
    then show ?thesis using old r(2) by (simp add: seqs)
  qed
qed

end
