(* ===== verification/Resource_Dao.thy ===== *)
theory Resource_Dao
  imports Chat_Database "HOL-Library.Product_Lexorder"
begin

text \<open>
  \<open>server/ResourceServer/src/MysqlDao.cpp\<close>: the statements and transactions of the resource server.
  An out-parameter is part of the result; the \<open>event_seq\<close> that accompanies a transient failure is
  read by no caller and is 0 here.
\<close>

datatype PublishResult = Pub_Published | Pub_AlreadyPublished | Pub_NotPending | Pub_NotFound | Pub_Transient

datatype TriState = Yes | No | Unknown

record ChatMessage =
  cm_message_id :: nat
  cm_thread_id :: nat
  cm_sender_user_id :: nat
  cm_recipient_user_id :: nat
  cm_client_message_id :: string
  cm_message_type :: nat
  cm_status :: MessageStatus
  cm_created_at :: nat
  cm_resource :: "resource_row option"
  cm_event_seq :: nat

datatype ChatMsgLookup = Found ChatMessage | NotFound | Transient

record ExpiredResource =
  ex_message_id :: nat
  ex_sender_user_id :: nat
  ex_created_at :: nat

definition kPublishDeadlockMaxRetries :: nat where
  "kPublishDeadlockMaxRetries = 3"

subsection \<open>Users\<close>

definition GetUser :: "nat \<Rightarrow> db \<Rightarrow> user_row option \<times> db" where
  "GetUser user_id d =
     (case query (find_user user_id) d of (Inr r, d1) \<Rightarrow> (r, d1) | (Inl _, d1) \<Rightarrow> (None, d1))"

definition UpdateHeadInfo :: "nat \<Rightarrow> string \<Rightarrow> db \<Rightarrow> bool \<times> db" where
  "UpdateHeadInfo user_id avatar_key d =
     (case transact (\<lambda>d.
        let (n, rows) = update_rows (\<lambda>r. usr_id r = user_id) (\<lambda>r. r\<lparr>usr_avatar_key := avatar_key\<rparr>) (users d)
        in (n = 1, True, d\<lparr>users := rows\<rparr>)) d of
        (Inr ok, d1) \<Rightarrow> (ok, d1)
      | (Inl _, d1) \<Rightarrow> (False, d1))"

subsection \<open>Publication\<close>

definition publish_pending :: "nat \<Rightarrow> message_row \<Rightarrow> nat \<Rightarrow> db \<Rightarrow> (PublishResult \<times> nat) \<times> bool \<times> db" where
  "publish_pending message_id m recipient d =
     (case find_user recipient d of
        None \<Rightarrow> ((Pub_NotFound, 0), False, d)
      | Some head \<Rightarrow>
          let event_seq = usr_last_event_seq head + 1;
              (n1, us) = update_rows (\<lambda>r. usr_id r = recipient) (\<lambda>r. r\<lparr>usr_last_event_seq := event_seq\<rparr>) (users d);
              (n2, ms) = update_rows (\<lambda>r. msg_id r = message_id \<and> msg_status r = Pending)
                           (\<lambda>r. r\<lparr>msg_status := Published\<rparr>) (chat_messages d);
              e = \<lparr>evt_recipient = recipient, evt_seq = event_seq, evt_type = msg_type m,
                   evt_message_id = Some message_id, evt_request_id = None\<rparr>
          in if n1 \<noteq> 1 then ((Pub_Transient, event_seq), False, d)
             else if n2 \<noteq> 1 then ((Pub_Transient, event_seq), False, d)
             else ((Pub_Published, event_seq), True,
                   d\<lparr>users := us, chat_messages := ms, user_events := user_events d @ [e]\<rparr>))"

definition publish_body :: "nat \<Rightarrow> nat \<Rightarrow> db \<Rightarrow> (PublishResult \<times> nat) \<times> bool \<times> db" where
  "publish_body message_id sender_user_id d =
     (case (find_message message_id d, find_resource message_id d) of
        (Some m, Some res) \<Rightarrow>
          (case find_chat (msg_thread_id m) d of
             None \<Rightarrow> ((Pub_NotFound, 0), False, d)
           | Some pc \<Rightarrow>
               let recipient = peer_of pc (msg_sender m) in
               if msg_sender m \<noteq> sender_user_id then ((Pub_NotFound, 0), False, d)
               else if (msg_type m \<noteq> 1 \<and> msg_type m \<noteq> 3) \<or> recipient = 0 then ((Pub_NotFound, 0), False, d)
               else if msg_status m = Published then
                 (case find_message_event recipient (msg_type m) message_id d of
                    None \<Rightarrow> ((Pub_NotFound, 0), False, d)
                  | Some e \<Rightarrow> ((Pub_AlreadyPublished, evt_seq e), True, d))
               else if msg_status m \<noteq> Pending then ((Pub_NotPending, 0), False, d)
               else publish_pending message_id m recipient d)
      | _ \<Rightarrow> ((Pub_NotFound, 0), False, d))"

text \<open>The last result is the \<open>deadlock\<close> flag.\<close>

definition CompleteResourceUploadOnce :: "nat \<Rightarrow> nat \<Rightarrow> db \<Rightarrow> PublishResult \<times> nat \<times> bool \<times> db" where
  "CompleteResourceUploadOnce message_id sender_user_id d =
     (case transact (publish_body message_id sender_user_id) d of
        (Inr (rc, event_seq), d1) \<Rightarrow> (rc, event_seq, False, d1)
      | (Inl deadlock, d1) \<Rightarrow> (Pub_Transient, 0, deadlock, d1))"

function publish_attempts :: "nat \<Rightarrow> nat \<Rightarrow> nat \<Rightarrow> db \<Rightarrow> PublishResult \<times> nat \<times> db" where
  "publish_attempts attempt message_id sender_user_id d =
     (let (rc, event_seq, deadlock, d1) = CompleteResourceUploadOnce message_id sender_user_id d in
      if rc \<noteq> Pub_Transient \<or> \<not> deadlock \<or> attempt \<ge> kPublishDeadlockMaxRetries then (rc, event_seq, d1)
      else publish_attempts (attempt + 1) message_id sender_user_id d1)"
  by pat_completeness auto
termination
  by (relation "measure (\<lambda>(a, m, s, d). kPublishDeadlockMaxRetries - a)") auto

declare publish_attempts.simps [simp del]

definition CompleteResourceUpload :: "nat \<Rightarrow> nat \<Rightarrow> db \<Rightarrow> PublishResult \<times> nat \<times> db" where
  "CompleteResourceUpload message_id sender_user_id d = publish_attempts 1 message_id sender_user_id d"

definition fail_pending :: "nat \<Rightarrow> db \<Rightarrow> nat \<times> db" where
  "fail_pending message_id d =
     (let (n, ms) = update_rows (\<lambda>r. msg_id r = message_id \<and> msg_status r = Pending)
                      (\<lambda>r. r\<lparr>msg_status := Failed\<rparr>) (chat_messages d)
      in (n, d\<lparr>chat_messages := ms\<rparr>))"

definition MarkResourceFailed :: "nat \<Rightarrow> db \<Rightarrow> bool \<times> db" where
  "MarkResourceFailed message_id d =
     (case transact (\<lambda>d. let (n, d1) = fail_pending message_id d in (n = 1, True, d1)) d of
        (Inr ok, d1) \<Rightarrow> (ok, d1)
      | (Inl _, d1) \<Rightarrow> (False, d1))"

subsection \<open>Queries\<close>

definition published_resource :: "(message_row \<Rightarrow> bool) \<Rightarrow> (resource_row \<Rightarrow> bool) \<Rightarrow> db \<Rightarrow> bool" where
  "published_resource P Q d =
     list_ex (\<lambda>r. Q r \<and> list_ex (\<lambda>m. msg_id m = res_message_id r \<and> msg_status m = Published \<and> P m) (chat_messages d))
       (message_resources d)"

definition SenderHasPublishedContent :: "nat \<Rightarrow> string \<Rightarrow> nat \<Rightarrow> db \<Rightarrow> TriState \<times> db" where
  "SenderHasPublishedContent sender_user_id sha256 file_size_bytes d =
     (case query (published_resource (\<lambda>m. msg_sender m = sender_user_id)
                   (\<lambda>r. res_sha256 r = sha256 \<and> res_file_size_bytes r = file_size_bytes)) d of
        (Inr hit, d1) \<Rightarrow> (if hit then Yes else No, d1)
      | (Inl _, d1) \<Rightarrow> (Unknown, d1))"

definition BlobHasPublishedReference :: "string \<Rightarrow> db \<Rightarrow> TriState \<times> db" where
  "BlobHasPublishedReference sha256 d =
     (case query (published_resource (\<lambda>m. True) (\<lambda>r. res_sha256 r = sha256)) d of
        (Inr hit, d1) \<Rightarrow> (if hit then Yes else No, d1)
      | (Inl _, d1) \<Rightarrow> (Unknown, d1))"

definition select_message :: "nat \<Rightarrow> db \<Rightarrow> ChatMessage option" where
  "select_message message_id d =
     (case (find_message message_id d, find_resource message_id d) of
        (Some m, Some res) \<Rightarrow>
          (case find_chat (msg_thread_id m) d of
             None \<Rightarrow> None
           | Some pc \<Rightarrow>
               let recipient = peer_of pc (msg_sender m) in
               Some \<lparr>cm_message_id = msg_id m, cm_thread_id = msg_thread_id m, cm_sender_user_id = msg_sender m,
                     cm_recipient_user_id = recipient, cm_client_message_id = msg_client_id m,
                     cm_message_type = msg_type m, cm_status = msg_status m, cm_created_at = msg_created_at m,
                     cm_resource = Some res,
                     cm_event_seq = (case find_message_event recipient (msg_type m) message_id d of
                                       None \<Rightarrow> 0 | Some e \<Rightarrow> evt_seq e)\<rparr>)
      | _ \<Rightarrow> None)"

definition GetChatMsgById :: "nat \<Rightarrow> db \<Rightarrow> ChatMsgLookup \<times> db" where
  "GetChatMsgById message_id d =
     (case query (select_message message_id) d of
        (Inr None, d1) \<Rightarrow> (NotFound, d1)
      | (Inr (Some m), d1) \<Rightarrow> (Found m, d1)
      | (Inl _, d1) \<Rightarrow> (Transient, d1))"

subsection \<open>Expiry\<close>

text \<open>The cursor is the pair (created_at, message_id); \<open>None\<close> is the first page.\<close>

definition GetExpiredResourceIds ::
  "nat \<Rightarrow> nat option \<Rightarrow> nat \<Rightarrow> nat \<Rightarrow> db \<Rightarrow> ExpiredResource list option \<times> db" where
  "GetExpiredResourceIds before_time after_created_at after_message_id limit d =
     (case query (\<lambda>d.
        let hits = filter (\<lambda>r. msg_status r = Pending \<and> (msg_type r = 1 \<or> msg_type r = 3) \<and> msg_created_at r < before_time
              \<and> (case after_created_at of None \<Rightarrow> True
                 | Some a \<Rightarrow> msg_created_at r > a \<or> (msg_created_at r = a \<and> msg_id r > after_message_id)))
              (chat_messages d);
            ordered = sort_key (\<lambda>r. (msg_created_at r, msg_id r)) hits
        in map (\<lambda>r. \<lparr>ex_message_id = msg_id r, ex_sender_user_id = msg_sender r, ex_created_at = msg_created_at r\<rparr>)
             (take limit ordered)) d of
        (Inr rows, d1) \<Rightarrow> (Some rows, d1)
      | (Inl _, d1) \<Rightarrow> (None, d1))"

definition MarkResourceExpired :: "ExpiredResource list \<Rightarrow> db \<Rightarrow> bool \<times> db" where
  "MarkResourceExpired items d =
     (if items = [] then (True, d)
      else case transact (\<lambda>d. ((), True, fold (\<lambda>i d. snd (fail_pending (ex_message_id i) d)) items d)) d of
        (Inr _, d1) \<Rightarrow> (True, d1)
      | (Inl _, d1) \<Rightarrow> (False, d1))"

subsection \<open>How rows may change\<close>

text \<open>
  \<open>evolves P d d'\<close>: messages keep everything but their status, a status only leaves \<open>Pending\<close>, and
  it becomes \<open>Published\<close> only for ids in \<open>P\<close>; resources and chats stay.
\<close>

definition status_step :: "(nat \<Rightarrow> bool) \<Rightarrow> message_row \<Rightarrow> message_row \<Rightarrow> bool" where
  "status_step P r r' \<longleftrightarrow> r' = r\<lparr>msg_status := msg_status r'\<rparr>
     \<and> (msg_status r' = msg_status r
        \<or> msg_status r = Pending \<and> (msg_status r' = Failed \<or> msg_status r' = Published \<and> P (msg_id r)))"

definition evolves :: "(nat \<Rightarrow> bool) \<Rightarrow> db \<Rightarrow> db \<Rightarrow> bool" where
  "evolves P d d' \<longleftrightarrow> list_all2 (status_step P) (chat_messages d) (chat_messages d')
     \<and> message_resources d' = message_resources d \<and> private_chats d' = private_chats d"

lemma status_step_refl [simp]: "status_step P r r"
  by (simp add: status_step_def)

lemma status_step_id: "status_step P r r' \<Longrightarrow> msg_id r' = msg_id r"
  by (cases r; cases r') (simp add: status_step_def)

lemma status_step_trans: "status_step P a b \<Longrightarrow> status_step P b c \<Longrightarrow> status_step P a c"
  using status_step_id [of P a b] by (cases a; cases b; cases c) (auto simp: status_step_def)

lemma evolves_refl [simp]: "evolves P d d"
  by (simp add: evolves_def list.rel_refl)

lemma evolves_trans: "evolves P a b \<Longrightarrow> evolves P b c \<Longrightarrow> evolves P a c"
  unfolding evolves_def by (auto intro: list_all2_trans [OF status_step_trans])

lemma evolves_outcomes [simp]:
  "evolves P (d\<lparr>outcomes := xs\<rparr>) d' = evolves P d d'" "evolves P d (d'\<lparr>outcomes := xs\<rparr>) = evolves P d d'"
  by (simp_all add: evolves_def)

lemma evolves_mono: "evolves P d d' \<Longrightarrow> (\<And>i. P i \<Longrightarrow> Q i) \<Longrightarrow> evolves Q d d'"
  unfolding evolves_def status_step_def by (auto elim!: list_all2_mono)

lemma evolves_find:
  assumes "evolves P d d'" and "find_message i d = Some r"
  obtains r' where "find_message i d' = Some r'" "status_step P r r'"
proof -
  have "list_all2 (status_step P) xs ys \<Longrightarrow> List.find (\<lambda>r. msg_id r = i) xs = Some r \<Longrightarrow>
      \<exists>r'. List.find (\<lambda>r. msg_id r = i) ys = Some r' \<and> status_step P r r'" for xs ys
    by (induction rule: list_all2_induct) (auto dest: status_step_id split: if_splits)
  with assms that show ?thesis by (auto simp: evolves_def find_message_def)
qed

lemma evolves_published:
  assumes "evolves P d d'" and "m' \<in> set (chat_messages d')" and "msg_status m' = Published"
  obtains m where "m \<in> set (chat_messages d)" "m' = m\<lparr>msg_status := Published\<rparr>" "msg_id m' = msg_id m"
    "msg_status m = Published \<or> msg_status m = Pending \<and> P (msg_id m)"
proof -
  obtain m where m: "m \<in> set (chat_messages d)" "status_step P m m'"
    using assms(1,2) unfolding evolves_def by (auto simp: list_all2_conv_all_nth in_set_conv_nth) (metis nth_mem)
  show thesis
    using that [of m] m assms(3) status_step_id [OF m(2)] by (auto simp: status_step_def)
qed

lemma evolves_update:
  assumes "\<And>r. r \<in> set (chat_messages d) \<Longrightarrow> status_step P r (f r)"
  shows "evolves P d (d\<lparr>chat_messages := map f (chat_messages d)\<rparr>)"
  using assms by (simp add: evolves_def list_all2_map2 list_all2_same)

subsection \<open>Publication keeps the event log\<close>

lemma publish_body_cases:
  assumes "publish_body i s d = ((rc, seq), c, d')"
  obtains (rolled_back) "\<not> c" "rc \<noteq> Pub_Published" "rc \<noteq> Pub_AlreadyPublished"
    | (already) m res pc e where "find_message i d = Some m" "find_resource i d = Some res"
        "find_chat (msg_thread_id m) d = Some pc" "msg_sender m = s" "msg_status m = Published"
        "find_message_event (peer_of pc s) (msg_type m) i d = Some e" "rc = Pub_AlreadyPublished" "seq = evt_seq e"
        "c" "d' = d" "msg_type m = 1 \<or> msg_type m = 3" "peer_of pc s \<noteq> 0"
    | (fresh) m res pc head where "find_message i d = Some m" "find_resource i d = Some res"
        "find_chat (msg_thread_id m) d = Some pc" "msg_sender m = s" "msg_status m = Pending"
        "msg_type m = 1 \<or> msg_type m = 3"
        "find_user (peer_of pc s) d = Some head" "seq = Suc (usr_last_event_seq head)" "rc = Pub_Published" "c"
        "d' = d\<lparr>users := map (\<lambda>r. if usr_id r = peer_of pc s then r\<lparr>usr_last_event_seq := seq\<rparr> else r) (users d),
               chat_messages := map (\<lambda>r. if msg_id r = i \<and> msg_status r = Pending then r\<lparr>msg_status := Published\<rparr> else r) (chat_messages d),
               user_events := user_events d @ [\<lparr>evt_recipient = peer_of pc s, evt_seq = seq, evt_type = msg_type m,
                                                evt_message_id = Some i, evt_request_id = None\<rparr>]\<rparr>"
        "peer_of pc s \<noteq> 0"
proof (cases "find_message i d")
  case None
  then show thesis using assms rolled_back by (simp add: publish_body_def)
next
  case m: (Some m)
  show thesis
  proof (cases "find_resource i d")
    case None
    then show thesis using m assms rolled_back by (simp add: publish_body_def)
  next
    case res: (Some res)
    show thesis
    proof (cases "find_chat (msg_thread_id m) d")
      case None
      then show thesis using m res assms rolled_back by (simp add: publish_body_def)
    next
      case pc: (Some pc)
      let ?u = "peer_of pc (msg_sender m)"
      note simps = publish_body_def m res pc Let_def
      consider "msg_sender m \<noteq> s \<or> (msg_type m \<noteq> 1 \<and> msg_type m \<noteq> 3) \<or> ?u = 0" | (published) "msg_status m = Published"
        "msg_sender m = s" "msg_type m = 1 \<or> msg_type m = 3" "?u \<noteq> 0"
        | (pending) "msg_status m = Pending" "msg_sender m = s" "msg_type m = 1 \<or> msg_type m = 3" "?u \<noteq> 0"
        | "msg_status m = Failed" "msg_sender m = s" "msg_type m = 1 \<or> msg_type m = 3" "?u \<noteq> 0"
        by (cases "msg_status m") blast+
      then show thesis
      proof cases
        case 1
        then show thesis using assms rolled_back by (auto simp: simps split: if_splits)
      next
        case published
        then show thesis using assms rolled_back already [OF m res pc]
          by (cases "find_message_event ?u (msg_type m) i d") (auto simp: simps)
      next
        case pending
        then have run: "publish_pending i m ?u d = ((rc, seq), c, d')" using assms by (auto simp: simps)
        show thesis
        proof (cases "find_user ?u d")
          case None
          then show thesis using run rolled_back by (simp add: publish_pending_def)
        next
          case (Some head)
          define seq' where "seq' = Suc (usr_last_event_seq head)"
          define d2 where "d2 = d\<lparr>users := map (\<lambda>r. if usr_id r = ?u then r\<lparr>usr_last_event_seq := seq'\<rparr> else r) (users d),
               chat_messages := map (\<lambda>r. if msg_id r = i \<and> msg_status r = Pending then r\<lparr>msg_status := Published\<rparr> else r) (chat_messages d),
               user_events := user_events d @ [\<lparr>evt_recipient = ?u, evt_seq = seq', evt_type = msg_type m,
                                                evt_message_id = Some i, evt_request_id = None\<rparr>]\<rparr>"
          define n1 where "n1 = fst (update_rows (\<lambda>r. usr_id r = ?u) (\<lambda>r. r\<lparr>usr_last_event_seq := seq'\<rparr>) (users d))"
          define n2 where "n2 = fst (update_rows (\<lambda>r. msg_id r = i \<and> msg_status r = Pending)
                (\<lambda>r. r\<lparr>msg_status := Published\<rparr>) (chat_messages d))"
          have "publish_pending i m ?u d = (if n1 \<noteq> 1 then ((Pub_Transient, seq'), False, d)
              else if n2 \<noteq> 1 then ((Pub_Transient, seq'), False, d)
              else ((Pub_Published, seq'), True, d2))"
            by (simp add: Some publish_pending_def update_rows_def Let_def d2_def seq'_def n1_def n2_def)
          then have "rc = Pub_Transient \<and> \<not> c \<or> rc = Pub_Published \<and> seq = seq' \<and> c \<and> d' = d2"
            using run by (cases "n1 = 1"; cases "n2 = 1") simp_all
          then show thesis
          proof (elim disjE conjE)
            assume "rc = Pub_Transient" "\<not> c"
            then show thesis using rolled_back by simp
          next
            assume eqs: "rc = Pub_Published" "seq = seq'" "c" "d' = d2"
            show thesis
              by (rule fresh [OF m res pc]) (use eqs pending Some in \<open>simp_all add: seq'_def d2_def\<close>)
          qed
        qed
      next
        case 4
        then show thesis using assms rolled_back by (auto simp: simps)
      qed
    qed
  qed
qed

lemma publish_body_evolves:
  assumes "publish_body i s d = (r, c, d')" and "c"
  shows "evolves (\<lambda>j. j = i) d d'"
proof -
  obtain rc seq where r: "r = (rc, seq)" by fastforce
  from assms(1) [unfolded r] show ?thesis
  proof (cases rule: publish_body_cases)
    case rolled_back
    with assms(2) show ?thesis by simp
  next
    case already
    then show ?thesis by simp
  next
    case (fresh m res pc head)
    let ?f = "\<lambda>r. if msg_id r = i \<and> msg_status r = Pending then r\<lparr>msg_status := Published\<rparr> else r"
    have "evolves (\<lambda>j. j = i) d (d\<lparr>chat_messages := map ?f (chat_messages d)\<rparr>)"
      by (rule evolves_update) (auto simp: status_step_def)
    then show ?thesis unfolding fresh by (simp add: evolves_def)
  qed
qed

lemma publish_body_db_ok:
  assumes "publish_body i s d = (r, c, d')" and "c" and ok: "db_ok d"
  shows "db_ok d'"
proof -
  obtain rc seq where r: "r = (rc, seq)" by fastforce
  from assms(1) [unfolded r] show ?thesis
  proof (cases rule: publish_body_cases)
    case rolled_back
    with assms(2) show ?thesis by simp
  next
    case already
    then show ?thesis using ok by simp
  next
    case (fresh m res pc head)
    let ?u = "peer_of pc s"
    let ?f = "\<lambda>r. if msg_id r = i \<and> msg_status r = Pending then r\<lparr>msg_status := Published\<rparr> else r"
    let ?g = "\<lambda>r. if usr_id r = ?u then r\<lparr>usr_last_event_seq := seq\<rparr> else r"
    have rows: "users d' = map ?g (users d)" "chat_messages d' = map ?f (chat_messages d)"
      "message_resources d' = message_resources d" "private_chats d' = private_chats d"
      "user_events d' = user_events d @ [\<lparr>evt_recipient = ?u, evt_seq = seq, evt_type = msg_type m,
                                          evt_message_id = Some i, evt_request_id = None\<rparr>]"
      by (simp_all add: fresh)
    have keys: "keys_ok d" "events_ok d" "publication_ok d" using ok by (simp_all add: db_ok_def)
    have m: "m \<in> set (chat_messages d)" "msg_id m = i" using fresh(1) find_message_set by blast+
    have head: "head \<in> set (users d)" "usr_id head = ?u" using fresh(7) find_user_set by blast+
    have ids: "map usr_id (map ?g (users d)) = map usr_id (users d)"
      "map msg_id (map ?f (chat_messages d)) = map msg_id (chat_messages d)" by simp_all
    have fu: "find_user u d' \<noteq> None \<longleftrightarrow> find_user u d \<noteq> None" for u
      by (simp add: find_user_def rows find_map_same)
    have fm: "find_message j d' \<noteq> None \<longleftrightarrow> find_message j d \<noteq> None" for j
      by (simp add: find_message_def rows find_map_same)
    have fc: "find_chat t d' = find_chat t d" for t by (simp add: find_chat_def rows)
    have "keys_ok d'"
    proof -
      have "\<forall>e \<in> set (user_events d'). find_user (evt_recipient e) d' \<noteq> None"
        using keys(1) fresh(7) by (auto simp: keys_ok_def fu rows simp del: not_None_eq)
      moreover have "\<forall>e \<in> set (user_events d'). \<forall>j. evt_message_id e = Some j \<longrightarrow> find_message j d' \<noteq> None"
        using keys(1) fresh(1) by (auto simp: keys_ok_def fm rows simp del: not_None_eq)
      moreover have "distinct (map usr_id (users d'))" "distinct (map msg_id (chat_messages d'))"
        using keys(1) unfolding rows(1,2) ids by (simp_all add: keys_ok_def)
      moreover have "\<forall>r \<in> set (message_resources d'). find_message (res_message_id r) d' \<noteq> None"
        using keys(1) unfolding keys_ok_def fm rows(3) by blast
      ultimately show ?thesis using keys(1) by (simp add: keys_ok_def rows(3,4))
    qed
    moreover have "events_ok d'"
      by (rule log_events_ok [OF _ keys(2) fresh(7,8) rows(1,5)]) (use keys(1) in \<open>simp_all add: keys_ok_def\<close>)
    moreover have "publication_ok d'"
    proof -
      have evs: "message_events d' j = message_events d j @ (if j = i then
          [\<lparr>evt_recipient = ?u, evt_seq = seq, evt_type = msg_type m, evt_message_id = Some i, evt_request_id = None\<rparr>] else [])" for j
        by (simp add: message_events_def rows)
      have "if msg_status r' = Published
        then (\<exists>e pc. message_events d' (msg_id r') = [e] \<and> evt_type e = msg_type r'
             \<and> find_chat (msg_thread_id r') d' = Some pc \<and> evt_recipient e = peer_of pc (msg_sender r'))
        else message_events d' (msg_id r') = []" if mem: "r' \<in> set (chat_messages d')" for r'
      proof -
        obtain r where r: "r \<in> set (chat_messages d)" "r' = ?f r"
          using mem unfolding rows(2) set_map by blast
        note P = keys(3) [unfolded publication_ok_def, rule_format, OF r(1)]
        show ?thesis
        proof (cases "msg_id r = i")
          case True
          then have "r = m" using distinct_key [of msg_id "chat_messages d" r m] keys(1) r(1) m by (simp add: keys_ok_def)
          then show ?thesis using P r(2) fresh(3,4,5) m by (simp add: evs fc)
        next
          case False
          then show ?thesis using P r(2) by (auto simp: evs fc split: if_splits)
        qed
      qed
      then show ?thesis unfolding publication_ok_def by blast
    qed
    ultimately show ?thesis by (simp add: db_ok_def)
  qed
qed

lemma published_row:
  assumes "publish_body i s d = ((rc, seq), c, d')" and "db_ok d" and "rc = Pub_Published \<or> rc = Pub_AlreadyPublished"
  obtains m res pc e where "find_message i d' = Some m" "msg_status m = Published" "msg_sender m = s"
    "find_resource i d' = Some res" "find_resource i d = Some res" "find_chat (msg_thread_id m) d' = Some pc"
    "find_message_event (peer_of pc s) (msg_type m) i d' = Some e" "evt_seq e = seq" "c"
    "msg_type m = 1 \<or> msg_type m = 3" "peer_of pc s \<noteq> 0"
    "rc = Pub_Published \<Longrightarrow> \<exists>m0. find_message i d = Some m0 \<and> msg_status m0 = Pending"
    "rc = Pub_AlreadyPublished \<Longrightarrow> d' = d"
  using assms(1)
proof (cases rule: publish_body_cases)
  case rolled_back
  with assms(3) show thesis by simp
next
  case (already m res pc e)
  then show thesis using that [of m res pc e] by simp
next
  case (fresh m res pc head)
  let ?f = "\<lambda>r. if msg_id r = i \<and> msg_status r = Pending then r\<lparr>msg_status := Published\<rparr> else r"
  let ?e = "\<lparr>evt_recipient = peer_of pc s, evt_seq = seq, evt_type = msg_type m,
             evt_message_id = Some i, evt_request_id = None\<rparr>"
  have m: "m \<in> set (chat_messages d)" "msg_id m = i" using fresh(1) find_message_set by blast+
  have "publication_ok d" using assms(2) by (simp add: db_ok_def)
  note pub = this [unfolded publication_ok_def, rule_format, OF m(1)]
  have none: "message_events d i = []" using pub m(2) fresh(5) by simp
  have "List.find (\<lambda>r. evt_recipient r = peer_of pc s \<and> evt_type r = msg_type m \<and> evt_message_id r = Some i) (user_events d) = None"
    using none by (auto simp: find_None_iff message_events_def filter_empty_conv)
  then have "find_message_event (peer_of pc s) (msg_type m) i d' = Some ?e"
    by (simp add: fresh(11) find_message_event_def find_append)
  moreover have "find_message i d' = Some (m\<lparr>msg_status := Published\<rparr>)"
    using fresh(1,5) m by (simp add: fresh(11) find_message_def find_map_same)
  ultimately show thesis
    using that [of "m\<lparr>msg_status := Published\<rparr>" res pc ?e] fresh
    by (simp add: find_resource_def find_chat_def)
qed

subsection \<open>Effects of the operations\<close>

lemma CompleteResourceUploadOnce_D:
  assumes "CompleteResourceUploadOnce i s d = (rc, seq, dl, d')"
  shows "evolves (\<lambda>j. j = i) d d'" "db_ok d \<Longrightarrow> db_ok d'"
    "rc = Pub_Published \<or> rc = Pub_AlreadyPublished \<Longrightarrow>
       \<exists>d2. publish_body i s (d\<lparr>outcomes := tl (outcomes d)\<rparr>) = ((rc, seq), True, d2) \<and> d' = d2"
proof -
  obtain r d1 where t: "transact (publish_body i s) d = (r, d1)" by fastforce
  have d1: "d' = d1" using assms t by (auto simp: CompleteResourceUploadOnce_def split: sum.splits)
  show "evolves (\<lambda>j. j = i) d d'" unfolding d1
    by (rule transact_preserves [OF t]) (auto dest: publish_body_evolves)
  show "db_ok d \<Longrightarrow> db_ok d'" unfolding d1
    by (rule transact_preserves [OF t]) (auto dest: publish_body_db_ok)
  assume rc: "rc = Pub_Published \<or> rc = Pub_AlreadyPublished"
  then have "r = Inr (rc, seq)" using assms t by (auto simp: CompleteResourceUploadOnce_def split: sum.splits)
  with t have "transact (publish_body i s) d = (Inr (rc, seq), d1)" by simp
  then obtain c d2 where b: "publish_body i s (d\<lparr>outcomes := tl (outcomes d)\<rparr>) = ((rc, seq), c, d2)"
    "d1 = (if c then d2 else d\<lparr>outcomes := tl (outcomes d)\<rparr>)"
    by (rule transact_Inr)
  from b(1) rc have c by (cases rule: publish_body_cases) auto
  with b d1 show "\<exists>d2. publish_body i s (d\<lparr>outcomes := tl (outcomes d)\<rparr>) = ((rc, seq), True, d2) \<and> d' = d2"
    by auto
qed

text \<open>A successful publication: the message is published, and its event carries the returned number.\<close>

definition published_as :: "nat \<Rightarrow> nat \<Rightarrow> nat \<Rightarrow> db \<Rightarrow> bool" where
  "published_as i s seq d \<longleftrightarrow>
     (\<exists>m res pc e. find_message i d = Some m \<and> msg_status m = Published \<and> msg_sender m = s
        \<and> find_resource i d = Some res \<and> find_chat (msg_thread_id m) d = Some pc
        \<and> (msg_type m = 1 \<or> msg_type m = 3) \<and> peer_of pc s \<noteq> 0
        \<and> find_message_event (peer_of pc s) (msg_type m) i d = Some e \<and> evt_seq e = seq)"

lemma publish_attempts_D:
  "publish_attempts a i s d = (rc, seq, d') \<Longrightarrow>
   evolves (\<lambda>j. j = i) d d' \<and> (db_ok d \<longrightarrow> db_ok d')
   \<and> (db_ok d \<longrightarrow> rc = Pub_Published \<or> rc = Pub_AlreadyPublished \<longrightarrow> published_as i s seq d')"
proof (induction a i s d arbitrary: rc seq d' rule: publish_attempts.induct)
  case (1 a i s d)
  obtain rc1 seq1 dl d1 where o: "CompleteResourceUploadOnce i s d = (rc1, seq1, dl, d1)" by (metis prod_cases4)
  note O = CompleteResourceUploadOnce_D [OF o]
  show ?case
  proof (cases "rc1 \<noteq> Pub_Transient \<or> \<not> dl \<or> a \<ge> kPublishDeadlockMaxRetries")
    case True
    then have eq: "rc = rc1" "seq = seq1" "d' = d1"
      using 1(2) o by (subst (asm) publish_attempts.simps, simp)+
    have "published_as i s seq d'" if ok: "db_ok d" and rc: "rc = Pub_Published \<or> rc = Pub_AlreadyPublished"
    proof -
      obtain d2 where b: "publish_body i s (d\<lparr>outcomes := tl (outcomes d)\<rparr>) = ((rc, seq), True, d2)" "d' = d2"
        using O(3) rc eq by auto
      show ?thesis
        using published_row [OF b(1) _ rc] ok b(2) unfolding published_as_def by (metis db_ok_outcomes)
    qed
    with O eq show ?thesis by blast
  next
    case False
    then have "publish_attempts (a + 1) i s d1 = (rc, seq, d')"
      using 1(2) o by (subst (asm) publish_attempts.simps) simp
    with 1(1) [OF o [symmetric] refl refl refl] False O evolves_trans show ?thesis by blast
  qed
qed

lemma CompleteResourceUpload_D:
  assumes "CompleteResourceUpload i s d = (rc, seq, d')"
  shows "evolves (\<lambda>j. j = i) d d'" "db_ok d \<Longrightarrow> db_ok d'"
    "db_ok d \<Longrightarrow> rc = Pub_Published \<or> rc = Pub_AlreadyPublished \<Longrightarrow> published_as i s seq d'"
  using publish_attempts_D assms unfolding CompleteResourceUpload_def by blast+

lemma publish_again:
  assumes "published_as i s seq d"
  shows "publish_attempts a i s d = (rc2, seq2, d2) \<Longrightarrow>
    user_events d2 = user_events d \<and> chat_messages d2 = chat_messages d
    \<and> (rc2 = Pub_Transient \<or> rc2 = Pub_AlreadyPublished \<and> seq2 = seq)"
  using assms
proof (induction a i s d arbitrary: rc2 seq2 d2 rule: publish_attempts.induct)
  case (1 a i s d)
  from 1(3) obtain m res pc e where m: "find_message i d = Some m" "msg_status m = Published" "msg_sender m = s"
    "find_resource i d = Some res" "find_chat (msg_thread_id m) d = Some pc"
    "find_message_event (peer_of pc s) (msg_type m) i d = Some e" "evt_seq e = seq"
    "msg_type m = 1 \<or> msg_type m = 3" "peer_of pc s \<noteq> 0"
    by (auto simp: published_as_def)
  obtain rc1 seq1 dl d1 where o: "CompleteResourceUploadOnce i s d = (rc1, seq1, dl, d1)" by (metis prod_cases4)
  have body: "publish_body i s (d\<lparr>outcomes := tl (outcomes d)\<rparr>)
      = ((Pub_AlreadyPublished, seq), True, d\<lparr>outcomes := tl (outcomes d)\<rparr>)"
    using m by (auto simp: publish_body_def Let_def)
  have eff: "d1 = d\<lparr>outcomes := tl (outcomes d)\<rparr>"
    "rc1 = Pub_Transient \<or> rc1 = Pub_AlreadyPublished \<and> seq1 = seq"
    using o by (auto simp: CompleteResourceUploadOnce_def transact_def next_outcome_eq body
        split: txn_outcome.splits)
  have keep: "published_as i s seq d1" using 1(3) by (simp add: published_as_def eff(1))
  show ?case
  proof (cases "rc1 \<noteq> Pub_Transient \<or> \<not> dl \<or> a \<ge> kPublishDeadlockMaxRetries")
    case True
    then have "rc2 = rc1" "seq2 = seq1" "d2 = d1" using 1(2) o by (subst (asm) publish_attempts.simps, simp)+
    then show ?thesis using eff by auto
  next
    case False
    then have "publish_attempts (a + 1) i s d1 = (rc2, seq2, d2)"
      using 1(2) o by (subst (asm) publish_attempts.simps) simp
    from 1(1) [OF o [symmetric] refl refl refl False this keep] show ?thesis by (simp add: eff(1))
  qed
qed

lemma fail_pending_D:
  assumes "fail_pending i d = (n, d')"
  shows "evolves (\<lambda>_. False) d d'" "db_ok d \<Longrightarrow> db_ok d'"
proof -
  let ?f = "\<lambda>r. if msg_id r = i \<and> msg_status r = Pending then r\<lparr>msg_status := Failed\<rparr> else r"
  have d': "d' = d\<lparr>chat_messages := map ?f (chat_messages d)\<rparr>"
    using assms by (auto simp: fail_pending_def update_rows_def)
  show "evolves (\<lambda>_. False) d d'" unfolding d' by (rule evolves_update) (auto simp: status_step_def)
  have ids: "map msg_id (map ?f (chat_messages d)) = map msg_id (chat_messages d)" by simp
  have fm: "find_message j d' \<noteq> None \<longleftrightarrow> find_message j d \<noteq> None" for j
    by (simp add: find_message_def d' find_map_same)
  have fs: "find_user u d' = find_user u d" "find_chat t d' = find_chat t d"
    "event_seqs d' u = event_seqs d u" "message_events d' j = message_events d j" for u t j
    by (simp_all add: find_user_def find_chat_def d' event_seqs_def message_events_def)
  assume ok: "db_ok d"
  then have "keys_ok d'" using ids fm fs unfolding db_ok_def keys_ok_def d' by (simp del: map_map not_None_eq)
  moreover have "events_ok d'" using ok fs by (simp add: db_ok_def events_ok_def d')
  moreover have "publication_ok d'"
  proof -
    have "publication_ok d" using ok by (simp add: db_ok_def)
    then show ?thesis unfolding publication_ok_def fs by (auto simp: d')
  qed
  ultimately show "db_ok d'" by (simp add: db_ok_def)
qed

lemma MarkResourceFailed_D:
  assumes "MarkResourceFailed i d = (ok, d')"
  shows "evolves (\<lambda>_. False) d d'" "db_ok d \<Longrightarrow> db_ok d'"
proof -
  let ?b = "\<lambda>d. let (n, d1) = fail_pending i d in (n = 1, True, d1)"
  obtain r d1 where t: "transact ?b d = (r, d1)" by fastforce
  then have d1: "d' = d1" using assms by (auto simp: MarkResourceFailed_def split: sum.splits)
  show "evolves (\<lambda>_. False) d d'" unfolding d1
    by (rule transact_preserves [OF t]) (auto split: prod.splits dest: fail_pending_D)
  show "db_ok d \<Longrightarrow> db_ok d'" unfolding d1
    by (rule transact_preserves [OF t]) (auto split: prod.splits dest: fail_pending_D)
qed

lemma fold_fail_pending:
  "evolves (\<lambda>_. False) d (fold (\<lambda>i d. snd (fail_pending (ex_message_id i) d)) items d)
   \<and> (db_ok d \<longrightarrow> db_ok (fold (\<lambda>i d. snd (fail_pending (ex_message_id i) d)) items d))"
proof (induction items arbitrary: d)
  case Nil
  then show ?case by simp
next
  case (Cons i items)
  obtain n d1 where f: "fail_pending (ex_message_id i) d = (n, d1)" by fastforce
  from fail_pending_D [OF f] Cons.IH [of d1] show ?case by (auto simp: f intro: evolves_trans)
qed

lemma MarkResourceExpired_D:
  assumes "MarkResourceExpired items d = (ok, d')"
  shows "evolves (\<lambda>_. False) d d'" "db_ok d \<Longrightarrow> db_ok d'"
proof -
  let ?b = "\<lambda>d. ((), True, fold (\<lambda>i d. snd (fail_pending (ex_message_id i) d)) items d)"
  obtain r d1 where t: "transact ?b d = (r, d1)" by fastforce
  then have d1: "d' = d \<or> d' = d1"
    using assms by (auto simp: MarkResourceExpired_def split: sum.splits if_splits)
  have "evolves (\<lambda>_. False) d d1"
    by (rule transact_preserves [OF t]) (auto simp: fold_fail_pending [THEN conjunct1, of "d\<lparr>outcomes := tl (outcomes d)\<rparr>", simplified])
  then show "evolves (\<lambda>_. False) d d'" using d1 by auto
  have "db_ok d \<Longrightarrow> db_ok d1"
    by (rule transact_preserves [OF t]) (auto simp: fold_fail_pending)
  then show "db_ok d \<Longrightarrow> db_ok d'" using d1 by auto
qed

lemma GetChatMsgById_D:
  assumes "GetChatMsgById i d = (r, d')"
  shows "d' = d\<lparr>outcomes := tl (outcomes d)\<rparr>"
    "r = Found m \<Longrightarrow> select_message i d = Some m" "r = NotFound \<Longrightarrow> select_message i d = None"
proof -
  have sel: "select_message i (d\<lparr>outcomes := xs\<rparr>) = select_message i d" for xs
    by (simp add: select_message_def Let_def split: option.split)
  show "d' = d\<lparr>outcomes := tl (outcomes d)\<rparr>"
    "r = Found m \<Longrightarrow> select_message i d = Some m" "r = NotFound \<Longrightarrow> select_message i d = None"
    using assms sel query_D [of "select_message i" d]
    by (auto simp: GetChatMsgById_def split: prod.splits sum.splits option.splits)
qed

lemma SenderHasPublishedContent_D:
  assumes "SenderHasPublishedContent u sha n d = (r, d')"
  shows "d' = d\<lparr>outcomes := tl (outcomes d)\<rparr>"
    "r = Yes \<Longrightarrow> published_resource (\<lambda>m. msg_sender m = u) (\<lambda>r. res_sha256 r = sha \<and> res_file_size_bytes r = n) d"
  using assms query_D [of "published_resource (\<lambda>m. msg_sender m = u) (\<lambda>r. res_sha256 r = sha \<and> res_file_size_bytes r = n)" d]
  by (auto simp: SenderHasPublishedContent_def published_resource_def split: prod.splits sum.splits if_splits)

lemma BlobHasPublishedReference_D:
  assumes "BlobHasPublishedReference sha d = (r, d')"
  shows "d' = d\<lparr>outcomes := tl (outcomes d)\<rparr>"
    "r = No \<Longrightarrow> \<not> published_resource (\<lambda>m. True) (\<lambda>r. res_sha256 r = sha) d"
  using assms query_D [of "published_resource (\<lambda>m. True) (\<lambda>r. res_sha256 r = sha)" d]
  by (auto simp: BlobHasPublishedReference_def published_resource_def split: prod.splits sum.splits if_splits)

subsection \<open>Properties\<close>

text \<open>
  C11.  The publishing transaction keeps the event log consistent under every outcome of the database
  calls (no connection, deadlock with retries, a commit whose result is unknown): keys stay
  consistent, every user's events stay numbered without gaps up to \<open>last_event_seq\<close>, a message
  has an event exactly when it is published, and only the message itself can become published.
  When it reports success the message is published and its event has the returned number.
\<close>

theorem publish_keeps_event_log:
  assumes "CompleteResourceUpload i s d = (rc, seq, d')" and "db_ok d"
  shows "db_ok d' \<and> evolves (\<lambda>j. j = i) d d'
         \<and> (rc = Pub_Published \<or> rc = Pub_AlreadyPublished \<longrightarrow> published_as i s seq d')"
  using CompleteResourceUpload_D [OF assms(1)] assms(2) by blast

definition demo_db :: db where
  "demo_db = \<lparr>users = [\<lparr>usr_id = 1, usr_username = ''a'', usr_email = ''a'', usr_password_hash = [], usr_nickname = [],
                        usr_profile_bio = [], usr_gender = 0, usr_avatar_key = [], usr_last_event_seq = 0\<rparr>,
                       \<lparr>usr_id = 2, usr_username = ''b'', usr_email = ''b'', usr_password_hash = [], usr_nickname = [],
                        usr_profile_bio = [], usr_gender = 0, usr_avatar_key = [], usr_last_event_seq = 0\<rparr>],
     friendships = [], private_chats = [\<lparr>pc_thread_id = 5, pc_lower = 1, pc_higher = 2\<rparr>],
     chat_messages = [\<lparr>msg_id = 9, msg_thread_id = 5, msg_sender = 1, msg_client_id = ''c'', msg_type = 3,
                       msg_text = None, msg_status = Pending, msg_created_at = 0\<rparr>],
     message_resources = [\<lparr>res_message_id = 9, res_original_file_name = ''f'', res_file_size_bytes = 3,
                           res_sha256 = ''s'', res_mime_type = ''m''\<rparr>],
     friend_requests = [], user_events = [], outcomes = [Throws True, TxnOk]\<rparr>"

lemma demo_db_ok: "db_ok demo_db"
  by (simp add: db_ok_def keys_ok_def events_ok_def publication_ok_def event_seqs_def message_events_def find_message_def demo_db_def)

lemma demo_publish: "fst (CompleteResourceUpload 9 1 demo_db) = Pub_Published
   \<and> fst (snd (CompleteResourceUpload 9 1 demo_db)) = 1"
proof -
  have once: "CompleteResourceUploadOnce 9 1 demo_db = (Pub_Transient, 0, True, demo_db\<lparr>outcomes := [TxnOk]\<rparr>)"
    by (simp add: CompleteResourceUploadOnce_def transact_def next_outcome_def demo_db_def split: prod.splits)
  obtain d2 where twice: "CompleteResourceUploadOnce 9 1 (demo_db\<lparr>outcomes := [TxnOk]\<rparr>) = (Pub_Published, 1, False, d2)"
    by (simp add: CompleteResourceUploadOnce_def transact_def next_outcome_def publish_body_def publish_pending_def
        demo_db_def find_defs peer_of_def update_rows_def)
  have "publish_attempts 1 9 1 demo_db = publish_attempts 2 9 1 (demo_db\<lparr>outcomes := [TxnOk]\<rparr>)"
    by (subst publish_attempts.simps) (use once in \<open>simp add: kPublishDeadlockMaxRetries_def numeral_2_eq_2\<close>)
  also have "\<dots> = (Pub_Published, 1, d2)"
    by (subst publish_attempts.simps) (use twice in simp)
  finally show ?thesis by (simp add: CompleteResourceUpload_def)
qed

theorem publish_keeps_event_log_witness:
  "published_as 9 1 1 (snd (snd (CompleteResourceUpload 9 1 demo_db)))"
proof -
  obtain rc seq d' where r: "CompleteResourceUpload 9 1 demo_db = (rc, seq, d')" by (metis prod_cases3)
  with publish_keeps_event_log [OF r demo_db_ok] demo_publish show ?thesis by simp
qed

text \<open>
  C10.  Publication is exactly-once: after a publication that succeeded, publishing the same message again
  either fails transiently or answers \<open>AlreadyPublished\<close> with the event number of the first time; it
  never creates a second event.
\<close>

theorem publish_exactly_once:
  assumes "CompleteResourceUpload i s d = (rc, seq, d1)" and "db_ok d"
    and "rc = Pub_Published \<or> rc = Pub_AlreadyPublished"
    and "CompleteResourceUpload i s d1 = (rc2, seq2, d2)"
  shows "user_events d2 = user_events d1 \<and> chat_messages d2 = chat_messages d1
         \<and> (rc2 = Pub_Transient \<or> rc2 = Pub_AlreadyPublished \<and> seq2 = seq)"
proof -
  have pub: "published_as i s seq d1" using CompleteResourceUpload_D(3) [OF assms(1,2,3)] .
  show ?thesis using publish_again [OF pub] assms(4) unfolding CompleteResourceUpload_def by blast
qed

theorem publish_exactly_once_witness:
  "user_events (snd (snd (CompleteResourceUpload 9 1 (snd (snd (CompleteResourceUpload 9 1 demo_db))))))
   = user_events (snd (snd (CompleteResourceUpload 9 1 demo_db)))"
proof -
  obtain rc seq d1 where r: "CompleteResourceUpload 9 1 demo_db = (rc, seq, d1)" by (metis prod_cases3)
  obtain rc2 seq2 d2 where r2: "CompleteResourceUpload 9 1 d1 = (rc2, seq2, d2)" by (metis prod_cases3)
  from publish_exactly_once [OF r demo_db_ok _ r2] demo_publish r r2 show ?thesis by simp
qed

end
