(* ===== verification/Resource_Session.thy ===== *)
theory Resource_Session
  imports Resource_Wire Session_Lifecycle
begin

text \<open>
  One TCP session of the resource server (\<open>server/ResourceServer/src/CSession.cpp\<close>): login state,
  send queue with its budget, task quota, and the closing protocol.

  Closures that the code posts to the I/O thread of the socket are values in \<open>cs_posted\<close>, run in
  the order they were posted by the \<open>\<dots>_posted\<close> definitions; a \<open>SendBudgetGuard\<close> is the
  reservation that such a closure carries.  \<open>cs_writing\<close> says that an \<open>async_write\<close> of the front of
  the queue is in flight, \<open>cs_tokens\<close> holds the sizes of the live \<open>SessionTaskQuota\<close> tokens, and
  \<open>cs_sent\<close> the frames whose write was completed.
\<close>

subsection \<open>State\<close>

datatype posted = PostedSend string u16 | PostedSendAndClose string u16 | PostedClose

record CSession =
  cs_id :: nat
  cs_lifecycle :: State
  cs_authed :: bool
  cs_user_uid :: nat
  cs_socket_open :: bool
  cs_timer :: bool
  cs_send_que :: "string list"
  cs_writing :: bool
  cs_send_pending_frames :: nat
  cs_send_pending_bytes :: nat
  cs_inflight_task_bytes :: nat
  cs_tokens :: "nat list"
  cs_posted :: "posted list"
  cs_sent :: "string list"
  cs_removals :: nat

definition kMaxSendQueFrames :: nat where
  "kMaxSendQueFrames = 1024"

definition kMaxSendQueBytes :: nat where
  "kMaxSendQueBytes = 64 * 1024 * 1024"

definition kMaxSessionInflightTaskBytes :: nat where
  "kMaxSessionInflightTaskBytes = 8 * 1024 * 1024"

definition CSession_new :: "nat \<Rightarrow> CSession" where
  "CSession_new i = \<lparr>cs_id = i, cs_lifecycle = Open, cs_authed = False, cs_user_uid = 0, cs_socket_open = True,
     cs_timer = False, cs_send_que = [], cs_writing = False, cs_send_pending_frames = 0,
     cs_send_pending_bytes = 0, cs_inflight_task_bytes = 0, cs_tokens = [], cs_posted = [], cs_sent = [],
     cs_removals = 0\<rparr>"

subsection \<open>Login state\<close>

definition TrySetAuth :: "int \<Rightarrow> CSession \<Rightarrow> bool \<times> CSession" where
  "TrySetAuth uid s =
     (if uid \<le> 0 then (False, s)
      else if \<not> IsOpen (cs_lifecycle s) \<or> cs_authed s then (False, s)
      else (True, s\<lparr>cs_user_uid := nat uid, cs_authed := True\<rparr>))"

subsection \<open>Budgets\<close>

definition TryAcquireTaskBytes :: "nat \<Rightarrow> CSession \<Rightarrow> bool \<times> CSession" where
  "TryAcquireTaskBytes bytes s =
     (if bytes = 0 then (True, s)
      else if cs_inflight_task_bytes s > kMaxSessionInflightTaskBytes
        \<or> bytes > kMaxSessionInflightTaskBytes - cs_inflight_task_bytes s then (False, s)
      else (True, s\<lparr>cs_inflight_task_bytes := cs_inflight_task_bytes s + bytes\<rparr>))"

definition ReleaseTaskBytes :: "nat \<Rightarrow> CSession \<Rightarrow> CSession" where
  "ReleaseTaskBytes bytes s =
     (if bytes = 0 then s else s\<lparr>cs_inflight_task_bytes := cs_inflight_task_bytes s - bytes\<rparr>)"

definition Quota_Acquire :: "nat \<Rightarrow> CSession \<Rightarrow> bool \<times> CSession" where
  "Quota_Acquire bytes s =
     (let (ok, s1) = TryAcquireTaskBytes bytes s in
      if \<not> ok then (False, s1) else (True, s1\<lparr>cs_tokens := bytes # cs_tokens s1\<rparr>))"

definition Quota_destroy :: "nat \<Rightarrow> CSession \<Rightarrow> CSession" where
  "Quota_destroy bytes s =
     (let s1 = ReleaseTaskBytes bytes s in s1\<lparr>cs_tokens := remove1 bytes (cs_tokens s1)\<rparr>)"

definition TryReserveSendBudget :: "nat \<Rightarrow> CSession \<Rightarrow> bool \<times> CSession" where
  "TryReserveSendBudget frame_bytes s =
     (if cs_send_pending_frames s \<ge> kMaxSendQueFrames
        \<or> cs_send_pending_bytes s + frame_bytes > kMaxSendQueBytes then (False, s)
      else (True, s\<lparr>cs_send_pending_frames := cs_send_pending_frames s + 1,
                    cs_send_pending_bytes := cs_send_pending_bytes s + frame_bytes\<rparr>))"

definition ReleaseSendBudget :: "nat \<Rightarrow> CSession \<Rightarrow> CSession" where
  "ReleaseSendBudget frame_bytes s =
     (let s1 = (if cs_send_pending_frames s > 0
                then s\<lparr>cs_send_pending_frames := cs_send_pending_frames s - 1\<rparr> else s) in
      if cs_send_pending_bytes s1 \<ge> frame_bytes
      then s1\<lparr>cs_send_pending_bytes := cs_send_pending_bytes s1 - frame_bytes\<rparr>
      else s1\<lparr>cs_send_pending_bytes := 0\<rparr>)"

subsection \<open>Closing\<close>

definition Close :: "CSession \<Rightarrow> CSession" where
  "Close s =
     (let (won, st) = BeginClose (cs_lifecycle s) in
      if \<not> won then s\<lparr>cs_lifecycle := st\<rparr>
      else s\<lparr>cs_lifecycle := st, cs_posted := cs_posted s @ [PostedClose], cs_removals := cs_removals s + 1\<rparr>)"

definition Close_posted :: "CSession \<Rightarrow> CSession" where
  "Close_posted s =
     s\<lparr>cs_timer := False, cs_socket_open := False, cs_lifecycle := snd (CompleteClose (cs_lifecycle s))\<rparr>"

subsection \<open>Sending\<close>

definition frame_bytes_of :: "string \<Rightarrow> nat" where
  "frame_bytes_of msg = HEAD_TOTAL_LEN + length msg"

definition Send :: "string \<Rightarrow> u16 \<Rightarrow> CSession \<Rightarrow> CSession" where
  "Send msg msg_type s =
     (let (ok, s1) = TryReserveSendBudget (frame_bytes_of msg) s in
      if \<not> ok then Close s1 else s1\<lparr>cs_posted := cs_posted s1 @ [PostedSend msg msg_type]\<rparr>)"

definition push_frame :: "string \<Rightarrow> u16 \<Rightarrow> CSession \<Rightarrow> CSession" where
  "push_frame msg msg_type s =
     (let s1 = s\<lparr>cs_send_que := cs_send_que s @ [SendNode msg msg_type]\<rparr> in
      if length (cs_send_que s1) > 1 then s1 else s1\<lparr>cs_writing := True\<rparr>)"

definition Send_posted :: "string \<Rightarrow> u16 \<Rightarrow> CSession \<Rightarrow> CSession" where
  "Send_posted msg msg_type s =
     (if \<not> IsOpen (cs_lifecycle s) \<or> \<not> cs_socket_open s then ReleaseSendBudget (frame_bytes_of msg) s
      else push_frame msg msg_type s)"

definition SendAndClose :: "string \<Rightarrow> u16 \<Rightarrow> CSession \<Rightarrow> CSession" where
  "SendAndClose msg msg_type s =
     (let (ok, s1) = TryReserveSendBudget (frame_bytes_of msg) s in
      if \<not> ok then Close s1 else s1\<lparr>cs_posted := cs_posted s1 @ [PostedSendAndClose msg msg_type]\<rparr>)"

definition SendAndClose_posted :: "string \<Rightarrow> u16 \<Rightarrow> CSession \<Rightarrow> CSession" where
  "SendAndClose_posted msg msg_type s =
     (if \<not> cs_socket_open s then Close (ReleaseSendBudget (frame_bytes_of msg) s)
      else let (drain, st) = BeginDrain (cs_lifecycle s) in
        if \<not> drain then ReleaseSendBudget (frame_bytes_of msg) s
        else push_frame msg msg_type (s\<lparr>cs_lifecycle := st, cs_timer := True\<rparr>))"

definition run_posted :: "CSession \<Rightarrow> CSession option" where
  "run_posted s =
     (case cs_posted s of [] \<Rightarrow> None
      | c # cs \<Rightarrow>
          let s1 = s\<lparr>cs_posted := cs\<rparr> in
          Some (case c of PostedSend m t \<Rightarrow> Send_posted m t s1
                | PostedSendAndClose m t \<Rightarrow> SendAndClose_posted m t s1
                | PostedClose \<Rightarrow> Close_posted s1))"

text \<open>
  The completion of the write in flight: without error, with an error, or with an exception from
  starting the next write.
\<close>

datatype write_outcome = WriteOk | WriteError | NextWriteThrows

definition pop_front :: "CSession \<Rightarrow> CSession" where
  "pop_front s =
     (case cs_send_que s of [] \<Rightarrow> s
      | x # xs \<Rightarrow> (ReleaseSendBudget (length x) s)\<lparr>cs_send_que := xs\<rparr>)"

fun clear_frames :: "string list \<Rightarrow> CSession \<Rightarrow> CSession" where
  "clear_frames [] s = s"
| "clear_frames (x # xs) s = clear_frames xs (ReleaseSendBudget (length x) s)"

definition ClearSendQueueLocked :: "CSession \<Rightarrow> CSession" where
  "ClearSendQueueLocked s = (clear_frames (cs_send_que s) s)\<lparr>cs_send_que := []\<rparr>"

definition HandleWrite :: "write_outcome \<Rightarrow> CSession \<Rightarrow> CSession" where
  "HandleWrite out s =
     (if out = WriteError then Close (ClearSendQueueLocked (s\<lparr>cs_writing := False\<rparr>))
      else
        let s1 = pop_front (s\<lparr>cs_writing := False, cs_sent := cs_sent s @ take 1 (cs_send_que s)\<rparr>) in
        if cs_send_que s1 \<noteq> [] then
          (if out = NextWriteThrows then Close (ClearSendQueueLocked s1) else s1\<lparr>cs_writing := True\<rparr>)
        else if cs_lifecycle s1 = Draining then Close s1
        else s1)"

definition drain_timeout :: "CSession \<Rightarrow> CSession" where
  "drain_timeout s = Close (s\<lparr>cs_timer := False\<rparr>)"

subsection \<open>Reading a body\<close>

text \<open>The first result says that the body is posted to the logic worker together with its quota token.\<close>

definition AsyncReadBody_cb :: "bool \<Rightarrow> nat \<Rightarrow> nat \<Rightarrow> CSession \<Rightarrow> bool \<times> CSession" where
  "AsyncReadBody_cb ec bytes_transfered total_len s =
     (if ec then (False, Close s)
      else if bytes_transfered < total_len then (False, Close s)
      else if \<not> IsOpen (cs_lifecycle s) then (False, s)
      else let (quota, s1) = Quota_Acquire (HEAD_TOTAL_LEN + total_len) s in
        if \<not> quota then (False, Close s1) else (True, s1))"

text \<open>
  \<open>asyncReadLen\<close> on the sequence of results of \<open>async_read_some\<close>, each an error flag with the number
  of bytes read: the values with which the handler is called, once.
\<close>

fun asyncReadLen :: "(bool \<times> nat) list \<Rightarrow> nat \<Rightarrow> nat \<Rightarrow> (bool \<times> nat) option" where
  "asyncReadLen [] read_len total_len = None"
| "asyncReadLen ((ec, n) # rs) read_len total_len =
     (if ec then Some (True, read_len + n)
      else if read_len + n \<ge> total_len then Some (False, read_len + n)
      else asyncReadLen rs (read_len + n) total_len)"

definition asyncReadFull :: "(bool \<times> nat) list \<Rightarrow> nat \<Rightarrow> (bool \<times> nat) option" where
  "asyncReadFull rs total_len = asyncReadLen rs 0 total_len"

subsection \<open>Budgets as an interface\<close>

text \<open>
  A counted budget: what was taken and not yet given back is exactly what is used, and never more
  than the cap.
\<close>

locale budget =
  fixes try_take :: "nat \<Rightarrow> 's \<Rightarrow> bool \<times> 's" and give :: "nat \<Rightarrow> 's \<Rightarrow> 's" and used :: "'s \<Rightarrow> nat" and cap :: nat
  assumes take_adds: "try_take n s = (True, s') \<Longrightarrow> used s' = used s + n"
    and take_capped: "used s \<le> cap \<Longrightarrow> try_take n s = (ok, s') \<Longrightarrow> used s' \<le> cap"
    and take_refused: "try_take n s = (False, s') \<Longrightarrow> s' = s"
    and give_subtracts: "n \<le> used s \<Longrightarrow> used (give n s) = used s - n"
begin

lemma take_token: "try_take n s = (True, s') \<Longrightarrow> used s = sum_list ts \<Longrightarrow> used s' = sum_list (n # ts)"
  by (simp add: take_adds)

lemma give_token:
  assumes "used s = sum_list ts" and "n \<in> set ts"
  shows "used (give n s) = sum_list (remove1 n ts)"
proof -
  have "n \<le> sum_list ts" using assms(2) by (simp add: member_le_sum_list)
  moreover have "sum_list (remove1 n ts) = sum_list ts - n" using assms(2) using sum_list_map_remove1 [of n ts id] by simp
  ultimately show ?thesis using assms(1) by (simp add: give_subtracts)
qed

lemma give_back: "try_take n s = (True, s') \<Longrightarrow> used (give n s') = used s"
  by (simp add: take_adds give_subtracts)

lemma give_capped: "used s \<le> cap \<Longrightarrow> n \<le> used s \<Longrightarrow> used (give n s) \<le> cap"
  by (simp add: give_subtracts)

end

interpretation task_quota: budget TryAcquireTaskBytes ReleaseTaskBytes cs_inflight_task_bytes kMaxSessionInflightTaskBytes
  by unfold_locales (auto simp: TryAcquireTaskBytes_def ReleaseTaskBytes_def split: if_splits)

interpretation send_bytes: budget TryReserveSendBudget ReleaseSendBudget cs_send_pending_bytes kMaxSendQueBytes
  by unfold_locales (auto simp: TryReserveSendBudget_def ReleaseSendBudget_def Let_def split: if_splits)

subsection \<open>Steps of a session\<close>

text \<open>
  What other threads and the I/O thread can do to a session: calls from anywhere, the posted
  closures in order, completion of the write in flight, the drain timer, and the end of a task.
\<close>

inductive session_step :: "CSession \<Rightarrow> CSession \<Rightarrow> bool" where
  step_auth: "session_step s (snd (TrySetAuth uid s))"
| step_send: "session_step s (Send msg t s)"
| step_send_close: "session_step s (SendAndClose msg t s)"
| step_close: "session_step s (Close s)"
| step_posted: "run_posted s = Some s' \<Longrightarrow> session_step s s'"
| step_written: "cs_writing s \<Longrightarrow> session_step s (HandleWrite out s)"
| step_timer: "cs_timer s \<Longrightarrow> session_step s (drain_timeout s)"
| step_body: "session_step s (snd (AsyncReadBody_cb ec n tot s))"
| step_task_done: "n \<in> set (cs_tokens s) \<Longrightarrow> session_step s (Quota_destroy n s)"

fun posted_bytes :: "posted \<Rightarrow> nat" where
  "posted_bytes (PostedSend m t) = frame_bytes_of m"
| "posted_bytes (PostedSendAndClose m t) = frame_bytes_of m"
| "posted_bytes PostedClose = 0"

fun posted_frames :: "posted \<Rightarrow> nat" where
  "posted_frames (PostedSend m t) = 1"
| "posted_frames (PostedSendAndClose m t) = 1"
| "posted_frames PostedClose = 0"

text \<open>The budget is what the queue holds and what the posted closures have reserved.\<close>

definition budget_exact :: "CSession \<Rightarrow> bool" where
  "budget_exact s \<longleftrightarrow>
     cs_send_pending_frames s = length (cs_send_que s) + sum_list (map posted_frames (cs_posted s))
     \<and> cs_send_pending_bytes s = sum_list (map length (cs_send_que s)) + sum_list (map posted_bytes (cs_posted s))
     \<and> cs_send_pending_frames s \<le> kMaxSendQueFrames \<and> cs_send_pending_bytes s \<le> kMaxSendQueBytes"

definition quota_exact :: "CSession \<Rightarrow> bool" where
  "quota_exact s \<longleftrightarrow> cs_inflight_task_bytes s = sum_list (cs_tokens s)
     \<and> cs_inflight_task_bytes s \<le> kMaxSessionInflightTaskBytes"

definition closing_ok :: "CSession \<Rightarrow> bool" where
  "closing_ok s \<longleftrightarrow> cs_writing s = (cs_send_que s \<noteq> [])
     \<and> cs_removals s = (if cs_lifecycle s = Open \<or> cs_lifecycle s = Draining then 0 else 1)
     \<and> length (filter (\<lambda>c. c = PostedClose) (cs_posted s)) = (if cs_lifecycle s = Closing then 1 else 0)
     \<and> (cs_socket_open s \<longleftrightarrow> cs_lifecycle s \<noteq> Closed)
     \<and> (cs_authed s \<longleftrightarrow> cs_user_uid s > 0)"

definition session_inv :: "CSession \<Rightarrow> bool" where
  "session_inv s \<longleftrightarrow> budget_exact s \<and> quota_exact s \<and> closing_ok s
     \<and> (cs_lifecycle s = Draining \<longrightarrow> cs_send_que s \<noteq> [])"

lemma length_SendNode [simp]: "length (SendNode m t) = frame_bytes_of m"
  by (simp add: SendNode_def be_bytes16_def be_bytes32_def frame_bytes_of_def HEAD_TOTAL_LEN_def)

lemma Close_fields [simp]:
  "cs_send_que (Close s) = cs_send_que s" "cs_writing (Close s) = cs_writing s"
  "cs_send_pending_frames (Close s) = cs_send_pending_frames s"
  "cs_send_pending_bytes (Close s) = cs_send_pending_bytes s"
  "cs_inflight_task_bytes (Close s) = cs_inflight_task_bytes s" "cs_tokens (Close s) = cs_tokens s"
  "cs_socket_open (Close s) = cs_socket_open s" "cs_authed (Close s) = cs_authed s"
  "cs_user_uid (Close s) = cs_user_uid s" "cs_sent (Close s) = cs_sent s"
  by (simp_all add: Close_def Let_def split: prod.split)

lemma Close_lifecycle:
  "cs_lifecycle (Close s) = (if cs_lifecycle s = Open \<or> cs_lifecycle s = Draining then Closing else cs_lifecycle s)"
  "cs_posted (Close s) = cs_posted s @ (if cs_lifecycle s = Open \<or> cs_lifecycle s = Draining then [PostedClose] else [])"
  "cs_removals (Close s) = cs_removals s + (if cs_lifecycle s = Open \<or> cs_lifecycle s = Draining then 1 else 0)"
  by (simp_all add: Close_def BeginClose_def)

lemma Release_fields [simp]:
  "cs_send_que (ReleaseSendBudget n s) = cs_send_que s" "cs_writing (ReleaseSendBudget n s) = cs_writing s"
  "cs_send_pending_frames (ReleaseSendBudget n s) = cs_send_pending_frames s - 1"
  "cs_send_pending_bytes (ReleaseSendBudget n s) = cs_send_pending_bytes s - n"
  "cs_inflight_task_bytes (ReleaseSendBudget n s) = cs_inflight_task_bytes s"
  "cs_tokens (ReleaseSendBudget n s) = cs_tokens s" "cs_lifecycle (ReleaseSendBudget n s) = cs_lifecycle s"
  "cs_socket_open (ReleaseSendBudget n s) = cs_socket_open s" "cs_authed (ReleaseSendBudget n s) = cs_authed s"
  "cs_user_uid (ReleaseSendBudget n s) = cs_user_uid s" "cs_posted (ReleaseSendBudget n s) = cs_posted s"
  "cs_removals (ReleaseSendBudget n s) = cs_removals s" "cs_sent (ReleaseSendBudget n s) = cs_sent s"
  by (simp_all add: ReleaseSendBudget_def Let_def)

lemma clear_frames_fields [simp]:
  "cs_send_pending_frames (clear_frames xs s) = cs_send_pending_frames s - length xs"
  "cs_send_pending_bytes (clear_frames xs s) = cs_send_pending_bytes s - sum_list (map length xs)"
  "cs_writing (clear_frames xs s) = cs_writing s"
  "cs_inflight_task_bytes (clear_frames xs s) = cs_inflight_task_bytes s"
  "cs_tokens (clear_frames xs s) = cs_tokens s" "cs_lifecycle (clear_frames xs s) = cs_lifecycle s"
  "cs_socket_open (clear_frames xs s) = cs_socket_open s" "cs_authed (clear_frames xs s) = cs_authed s"
  "cs_user_uid (clear_frames xs s) = cs_user_uid s" "cs_posted (clear_frames xs s) = cs_posted s"
  "cs_removals (clear_frames xs s) = cs_removals s" "cs_sent (clear_frames xs s) = cs_sent s"
  by (induction xs arbitrary: s) simp_all

lemmas session_parts = session_inv_def budget_exact_def quota_exact_def closing_ok_def

lemma Close_inv:
  assumes "budget_exact s" and "quota_exact s" and "closing_ok s"
  shows "session_inv (Close s)"
  using assms by (auto simp: session_parts Close_lifecycle)

lemma session_invD:
  assumes "session_inv s"
  shows "budget_exact s" "quota_exact s" "closing_ok s" "cs_lifecycle s = Draining \<longrightarrow> cs_send_que s \<noteq> []"
  using assms by (simp_all add: session_inv_def)

lemma inv_Close: "session_inv s \<Longrightarrow> session_inv (Close s)"
  by (intro Close_inv) (simp_all add: session_inv_def)

lemma ClearSendQueueLocked_Close:
  assumes "budget_exact s" and "quota_exact s" and "closing_ok (s\<lparr>cs_writing := cs_send_que s \<noteq> []\<rparr>)" and "\<not> cs_writing s"
  shows "session_inv (Close (ClearSendQueueLocked s))"
  using assms by (intro Close_inv) (auto simp: ClearSendQueueLocked_def session_parts)

lemma inv_auth: "session_inv s \<Longrightarrow> session_inv (snd (TrySetAuth uid s))"
  by (auto simp: TrySetAuth_def session_parts)

lemma reserve_cases:
  assumes "TryReserveSendBudget n s = (ok, s1)"
  obtains "\<not> ok" "s1 = s"
    | "ok" "s1 = s\<lparr>cs_send_pending_frames := cs_send_pending_frames s + 1,
                    cs_send_pending_bytes := cs_send_pending_bytes s + n\<rparr>"
      "cs_send_pending_frames s < kMaxSendQueFrames" "cs_send_pending_bytes s + n \<le> kMaxSendQueBytes"
  using assms by (auto simp: TryReserveSendBudget_def split: if_splits)

lemma inv_reserve_post:
  assumes "session_inv s" and "posted_frames c = 1" and "posted_bytes c = n"
  shows "session_inv (let (ok, s1) = TryReserveSendBudget n s in
           if \<not> ok then Close s1 else s1\<lparr>cs_posted := cs_posted s1 @ [c]\<rparr>)"
proof -
  obtain ok s1 where r: "TryReserveSendBudget n s = (ok, s1)" by fastforce
  have "c \<noteq> PostedClose" using assms(2) by auto
  from r show ?thesis
  proof (cases rule: reserve_cases)
    case 1
    then show ?thesis using r assms(1) by (simp add: inv_Close)
  next
    case 2
    then show ?thesis using r assms \<open>c \<noteq> PostedClose\<close> by (auto simp: session_parts)
  qed
qed

lemma inv_Send: "session_inv s \<Longrightarrow> session_inv (Send m t s)"
  unfolding Send_def by (rule inv_reserve_post) simp_all

lemma inv_SendAndClose: "session_inv s \<Longrightarrow> session_inv (SendAndClose m t s)"
  unfolding SendAndClose_def by (rule inv_reserve_post) simp_all

lemma push_frame_fields [simp]:
  "cs_send_que (push_frame m t s) = cs_send_que s @ [SendNode m t]"
  "cs_writing (push_frame m t s) = (cs_send_que s = [] \<or> cs_writing s)"
  "cs_send_pending_frames (push_frame m t s) = cs_send_pending_frames s"
  "cs_send_pending_bytes (push_frame m t s) = cs_send_pending_bytes s"
  "cs_inflight_task_bytes (push_frame m t s) = cs_inflight_task_bytes s"
  "cs_tokens (push_frame m t s) = cs_tokens s" "cs_lifecycle (push_frame m t s) = cs_lifecycle s"
  "cs_socket_open (push_frame m t s) = cs_socket_open s" "cs_authed (push_frame m t s) = cs_authed s"
  "cs_user_uid (push_frame m t s) = cs_user_uid s" "cs_posted (push_frame m t s) = cs_posted s"
  "cs_removals (push_frame m t s) = cs_removals s" "cs_sent (push_frame m t s) = cs_sent s"
  by (simp_all add: push_frame_def Let_def)

text \<open>A posted closure either turns its reservation into a queued frame or gives it back.\<close>

lemma push_reserved:
  assumes "session_inv s" and "cs_posted s = c # cs" and "posted_frames c = 1" and "posted_bytes c = frame_bytes_of m"
    and "c \<noteq> PostedClose" and "cs_lifecycle s = Open" and "l = Open \<or> l = Draining"
  shows "session_inv (push_frame m t (s\<lparr>cs_posted := cs, cs_lifecycle := l, cs_timer := b\<rparr>))"
proof -
  have "budget_exact (push_frame m t (s\<lparr>cs_posted := cs, cs_lifecycle := l, cs_timer := b\<rparr>))"
    using session_invD(1) [OF assms(1)] assms(2-4) by (simp add: budget_exact_def)
  moreover have "closing_ok (push_frame m t (s\<lparr>cs_posted := cs, cs_lifecycle := l, cs_timer := b\<rparr>))"
    using session_invD(3) [OF assms(1)] assms(2,5,6,7) by (auto simp: closing_ok_def)
  ultimately show ?thesis using session_invD(2) [OF assms(1)] by (simp add: session_inv_def quota_exact_def)
qed

lemma give_back_reserved:
  assumes "session_inv s" and "cs_posted s = c # cs" and "posted_frames c = 1" and "posted_bytes c = n" and "c \<noteq> PostedClose"
  shows "session_inv (ReleaseSendBudget n (s\<lparr>cs_posted := cs\<rparr>))"
proof -
  have "budget_exact (ReleaseSendBudget n (s\<lparr>cs_posted := cs\<rparr>))"
    using session_invD(1) [OF assms(1)] assms(2-4) by (simp add: budget_exact_def)
  moreover have "closing_ok (ReleaseSendBudget n (s\<lparr>cs_posted := cs\<rparr>))"
    using session_invD(3) [OF assms(1)] assms(2,5) by (simp add: closing_ok_def)
  ultimately show ?thesis using session_invD(2,4) [OF assms(1)] by (simp add: session_inv_def quota_exact_def)
qed

lemma inv_posted:
  assumes "session_inv s" and "run_posted s = Some s'"
  shows "session_inv s'"
proof -
  obtain c cs where c: "cs_posted s = c # cs" using assms(2) by (auto simp: run_posted_def split: list.splits)
  show ?thesis
  proof (cases c)
    case (PostedSend m t)
    then have s': "s' = Send_posted m t (s\<lparr>cs_posted := cs\<rparr>)" using assms(2) c by (simp add: run_posted_def)
    have e: "s\<lparr>cs_posted := cs\<rparr> = s\<lparr>cs_posted := cs, cs_lifecycle := Open, cs_timer := cs_timer s\<rparr>"
      if "cs_lifecycle s = Open" using that by (cases s) simp
    have "session_inv (push_frame m t (s\<lparr>cs_posted := cs\<rparr>))" if "cs_lifecycle s = Open"
      by (subst e [OF that]) (rule push_reserved [OF assms(1) c], use PostedSend that in simp_all)
    then show ?thesis using s' PostedSend give_back_reserved [OF assms(1) c] by (simp add: Send_posted_def IsOpen_def)
  next
    case (PostedSendAndClose m t)
    then have s': "s' = SendAndClose_posted m t (s\<lparr>cs_posted := cs\<rparr>)" using assms(2) c by (simp add: run_posted_def)
    have give: "session_inv (ReleaseSendBudget (frame_bytes_of m) (s\<lparr>cs_posted := cs\<rparr>))"
      using give_back_reserved [OF assms(1) c] PostedSendAndClose by simp
    have push: "session_inv (push_frame m t (s\<lparr>cs_posted := cs, cs_lifecycle := Draining, cs_timer := True\<rparr>))"
      if "cs_lifecycle s = Open"
      using push_reserved [OF assms(1) c, of m Draining t True] PostedSendAndClose that by simp
    show ?thesis
      using s' give push by (auto simp: SendAndClose_posted_def inv_Close BeginDrain_def compare_exchange_def)
  next
    case PostedClose
    then have s': "s' = Close_posted (s\<lparr>cs_posted := cs\<rparr>)" using assms(2) c by (simp add: run_posted_def)
    have l: "cs_lifecycle s = Closing" using session_invD(3) [OF assms(1)] c PostedClose
      by (auto simp: closing_ok_def split: if_splits)
    have "budget_exact s'" "quota_exact s'" using session_invD(1,2) [OF assms(1)] c PostedClose
      by (simp_all add: s' Close_posted_def budget_exact_def quota_exact_def)
    moreover have "closing_ok s'" "cs_lifecycle s' \<noteq> Draining" using session_invD(3) [OF assms(1)] c PostedClose l
      by (auto simp: s' Close_posted_def closing_ok_def CompleteClose_def compare_exchange_def)
    ultimately show ?thesis by (simp add: session_inv_def)
  qed
qed

lemma pop_front_parts:
  assumes "cs_send_que s = x # xs" and "budget_exact s"
  shows "budget_exact (pop_front s)" "cs_send_que (pop_front s) = xs"
  using assms by (auto simp: pop_front_def budget_exact_def)

lemma pop_front_fields [simp]:
  "cs_writing (pop_front s) = cs_writing s" "cs_lifecycle (pop_front s) = cs_lifecycle s"
  "cs_removals (pop_front s) = cs_removals s" "cs_posted (pop_front s) = cs_posted s"
  "cs_socket_open (pop_front s) = cs_socket_open s" "cs_authed (pop_front s) = cs_authed s"
  "cs_user_uid (pop_front s) = cs_user_uid s" "cs_sent (pop_front s) = cs_sent s"
  "cs_inflight_task_bytes (pop_front s) = cs_inflight_task_bytes s" "cs_tokens (pop_front s) = cs_tokens s"
  by (simp_all add: pop_front_def split: list.split)

lemma inv_HandleWrite:
  assumes "session_inv s" and "cs_writing s"
  shows "session_inv (HandleWrite out s)"
proof (cases "out = WriteError")
  case True
  let ?s0 = "s\<lparr>cs_writing := False\<rparr>"
  have "budget_exact ?s0" "quota_exact ?s0" using session_invD(1,2) [OF assms(1)]
    by (simp_all add: budget_exact_def quota_exact_def)
  moreover have "closing_ok (?s0\<lparr>cs_writing := cs_send_que ?s0 \<noteq> []\<rparr>)" using session_invD(3) [OF assms(1)]
    by (simp add: closing_ok_def)
  ultimately have "session_inv (Close (ClearSendQueueLocked ?s0))" by (rule ClearSendQueueLocked_Close) simp
  then show ?thesis using True by (simp add: HandleWrite_def)
next
  case False
  let ?s0 = "s\<lparr>cs_writing := False, cs_sent := cs_sent s @ take 1 (cs_send_que s)\<rparr>"
  let ?s1 = "pop_front ?s0"
  obtain x xs where q: "cs_send_que s = x # xs"
    using assms by (cases "cs_send_que s") (auto simp: session_parts)
  have b: "budget_exact ?s0" using session_invD(1) [OF assms(1)] by (simp add: budget_exact_def)
  have p: "budget_exact ?s1" "cs_send_que ?s1 = xs" using pop_front_parts [OF _ b, of x xs] q by simp_all
  have qu: "quota_exact ?s1" using session_invD(2) [OF assms(1)] by (simp add: quota_exact_def)
  have c: "closing_ok (?s1\<lparr>cs_writing := (xs \<noteq> [])\<rparr>)"
    using session_invD(3) [OF assms(1)] p(2) by (simp add: closing_ok_def)
  consider "xs \<noteq> []" "out = NextWriteThrows" | "xs \<noteq> []" "out = WriteOk" | "xs = []"
    using False by (cases out) auto
  then show ?thesis
  proof cases
    case 1
    have "session_inv (Close (ClearSendQueueLocked ?s1))"
      using p qu c by (intro ClearSendQueueLocked_Close) simp_all
    then show ?thesis using 1 p(2) by (simp add: HandleWrite_def)
  next
    case 2
    then have "session_inv (?s1\<lparr>cs_writing := True\<rparr>)"
      using p qu c by (simp add: session_inv_def budget_exact_def quota_exact_def)
    then show ?thesis using 2 p(2) by (simp add: HandleWrite_def)
  next
    case 3
    then have "closing_ok ?s1" using c p(2) by (simp add: closing_ok_def)
    with p qu have "session_inv (Close ?s1)" by (intro Close_inv)
    moreover have "session_inv ?s1" if "cs_lifecycle s \<noteq> Draining"
      using p qu \<open>closing_ok ?s1\<close> that by (simp add: session_inv_def)
    ultimately
    show ?thesis using 3 False p(2) by (simp add: HandleWrite_def Let_def)
  qed
qed

lemma inv_quota:
  assumes "session_inv s" and "Quota_Acquire n s = (ok, s1)"
  shows "session_inv s1"
proof -
  have "s1 = s \<or> (\<exists>k. s1 = s\<lparr>cs_inflight_task_bytes := k, cs_tokens := n # cs_tokens s\<rparr>
      \<and> k = cs_inflight_task_bytes s + n \<and> k \<le> kMaxSessionInflightTaskBytes)"
    using assms(2) session_invD(2) [OF assms(1)]
    by (auto simp: Quota_Acquire_def TryAcquireTaskBytes_def quota_exact_def split: if_splits)
  then show ?thesis
    using assms(1) by (elim disjE exE conjE) (simp_all add: session_parts)
qed

lemma inv_body: "session_inv s \<Longrightarrow> session_inv (snd (AsyncReadBody_cb ec n tot s))"
  by (auto simp: AsyncReadBody_cb_def Let_def inv_Close inv_quota split: prod.splits)

lemma inv_task_done:
  assumes "session_inv s" and "n \<in> set (cs_tokens s)"
  shows "session_inv (Quota_destroy n s)"
proof -
  have q: "cs_inflight_task_bytes s = sum_list (cs_tokens s)" "cs_inflight_task_bytes s \<le> kMaxSessionInflightTaskBytes"
    using assms(1) by (simp_all add: session_parts)
  have "n \<le> sum_list (cs_tokens s)" using assms(2) by (simp add: member_le_sum_list)
  then have "cs_inflight_task_bytes (ReleaseTaskBytes n s) \<le> kMaxSessionInflightTaskBytes"
    using task_quota.give_capped [of s n] q by simp
  then show ?thesis using task_quota.give_token [OF q(1) assms(2)] assms(1)
    by (auto simp: Quota_destroy_def ReleaseTaskBytes_def session_parts)
qed

lemma inv_timer: "session_inv s \<Longrightarrow> session_inv (drain_timeout s)"
  unfolding drain_timeout_def by (intro inv_Close) (simp add: session_parts)

interpretation session: invariant_system "\<lambda>s. \<exists>i. s = CSession_new i" session_step session_inv
proof unfold_locales
  show "session_inv s" if "\<exists>i. s = CSession_new i" for s
    using that by (auto simp: CSession_new_def session_parts)
  show "session_inv t" if "session_inv s" "session_step s t" for s t
    using that(2,1) by (cases rule: session_step.cases)
      (auto intro: inv_auth inv_Send inv_SendAndClose inv_Close inv_posted inv_HandleWrite inv_timer inv_body inv_task_done)
qed

subsection \<open>Properties\<close>

text \<open>
  C18.  Send budget and task quota are exact in every reachable state of a session, whatever the
  interleaving of callers, posted closures, completed or failed writes and closing: the counters
  are what the queue, the posted closures and the live tokens hold, and stay within the limits.
\<close>

theorem session_budgets_exact:
  assumes "reach (\<lambda>s. \<exists>i. s = CSession_new i) session_step s"
  shows "cs_send_pending_frames s = length (cs_send_que s) + sum_list (map posted_frames (cs_posted s))
    \<and> cs_send_pending_bytes s = sum_list (map length (cs_send_que s)) + sum_list (map posted_bytes (cs_posted s))
    \<and> cs_send_pending_frames s \<le> kMaxSendQueFrames \<and> cs_send_pending_bytes s \<le> kMaxSendQueBytes
    \<and> cs_inflight_task_bytes s = sum_list (cs_tokens s) \<and> cs_inflight_task_bytes s \<le> kMaxSessionInflightTaskBytes"
  using session.inv_reach [OF assms] by (simp add: session_parts)

theorem session_budgets_exact_witness:
  "cs_send_pending_bytes (Send ''hi'' 1502 (CSession_new 0)) = 8"
proof -
  have "reach (\<lambda>s. \<exists>i. s = CSession_new i) session_step (Send ''hi'' 1502 (CSession_new 0))"
    by (rule reach_step [where s = "CSession_new 0"]) (auto intro: reach_init step_send)
  from session_budgets_exact [OF this] show ?thesis
    by (simp add: Send_def TryReserveSendBudget_def CSession_new_def kMaxSendQueFrames_def kMaxSendQueBytes_def
        frame_bytes_of_def HEAD_TOTAL_LEN_def)
qed



end
