(* ===== verification/File_Worker.thy ===== *)
theory File_Worker
  imports Durable_Move Resource_Dao Resource_Session Base64
begin

text \<open>
  The upload side of the resource server (\<open>server/ResourceServer/src/FileWorker.cpp\<close>): upload
  sessions, the chunk handler (1505), completion with publication, the proof handler (1513) and
  the old avatar upload (1601).

  A message id always goes to the same worker (\<open>ResourceWorkerIndex\<close>), so the session tables of the
  workers are disjoint and are one table here; eviction is per worker.  Files and database are shared by all workers.  A
  handler runs to its end before the next one of the same worker; what it shares with others, the
  blob directory and the publication, it touches under \<open>BlobInstallGcMutex\<close>.  The clock is a parameter
  \<open>now\<close> in seconds, the digest function a parameter \<open>sha\<close>, the storage root a parameter \<open>root\<close>.  A failure
  of the digest library is one of the environment's choices in the file system state.

  A handler returns the reply it passes to its callback, if any.
\<close>

subsection \<open>State\<close>

definition kUploadChunkSize :: nat where
  "kUploadChunkSize = kResourceChunkSize"

definition kSessionIdleTimeout :: nat where
  "kSessionIdleTimeout = 30 * 60"

definition kInstantProofChallengeTtlSeconds :: nat where
  "kInstantProofChallengeTtlSeconds = 120"

definition FILE_WORKER_COUNT :: nat where
  "FILE_WORKER_COUNT = 4"

text \<open>Message ids are not negative, so that the conversion of the code to \<open>unsigned long long\<close> is exact.\<close>

definition ResourceWorkerIndex :: "nat \<Rightarrow> nat \<Rightarrow> nat" where
  "ResourceWorkerIndex message_id worker_count = message_id mod worker_count"

record UploadSession =
  us_message_id :: nat
  us_file_size_bytes :: nat
  us_sha256 :: string
  us_received :: nat
  us_sender_user_id :: nat
  us_recipient_user_id :: nat
  us_last_active :: nat
  us_whole_hash_mismatches :: nat
  us_hasher :: Sha256Stream
  us_hash_valid :: bool
  us_final_hex :: string
  us_challenge_nonce_raw :: string
  us_challenge_offset :: nat
  us_challenge_length :: nat
  us_challenge_active :: bool
  us_challenge_session :: "nat option"
  us_challenge_issued_at :: nat
  us_challenge_suppressed :: bool

record file_worker =
  fw_fs :: fs
  fw_db :: db
  fw_sessions :: "nat \<Rightarrow> UploadSession option"
  fw_notified :: "(nat \<times> nat \<times> nat) list"

text \<open>\<open>rp_status = None\<close> is the status \<open>-1\<close>.\<close>

record reply =
  rp_error :: ErrorCodes
  rp_message_id :: nat
  rp_offset :: "nat option"
  rp_server_offset :: "nat option"
  rp_status :: "MessageStatus option"
  rp_event_seq :: "nat option"

record ResourceChunkTask =
  tk_session :: "CSession option"
  tk_message_id :: nat
  tk_offset :: nat
  tk_chunk_sha256 :: string
  tk_file_data :: string

definition put_session :: "nat \<Rightarrow> UploadSession \<Rightarrow> file_worker \<Rightarrow> file_worker" where
  "put_session i s w = w\<lparr>fw_sessions := (fw_sessions w)(i \<mapsto> s)\<rparr>"

definition EvictUploadSession :: "nat \<Rightarrow> file_worker \<Rightarrow> file_worker" where
  "EvictUploadSession i w = w\<lparr>fw_sessions := (fw_sessions w)(i := None)\<rparr>"

definition set_fs :: "fs \<Rightarrow> file_worker \<Rightarrow> file_worker" where
  "set_fs f w = w\<lparr>fw_fs := f\<rparr>"

definition set_db :: "db \<Rightarrow> file_worker \<Rightarrow> file_worker" where
  "set_db d w = w\<lparr>fw_db := d\<rparr>"

definition DiskFileLength :: "path \<Rightarrow> fs \<Rightarrow> nat option \<times> fs" where
  "DiskFileLength p f =
     (let (ok, f1) = syscall f in
      if ok \<and> names f1 p = None then (Some 0, f1)
      else if \<not> ok then (None, f1)
      else let (ok2, f2) = syscall f1 in
        if \<not> ok2 then (None, f2) else (map_option length (content f2 p), f2))"

definition RemoveStubPart :: "path \<Rightarrow> nat \<Rightarrow> file_worker \<Rightarrow> file_worker" where
  "RemoveStubPart root message_id w =
     set_fs (snd (remove_file (ResourceUploadingPartPath root message_id) (fw_fs w))) w"

subsection \<open>Upload sessions\<close>

definition FindUploadSession :: "nat \<Rightarrow> nat \<Rightarrow> file_worker \<Rightarrow> UploadSession option \<times> file_worker" where
  "FindUploadSession now message_id w =
     (case fw_sessions w message_id of
        None \<Rightarrow> (None, w)
      | Some s \<Rightarrow> let s1 = s\<lparr>us_last_active := now\<rparr> in (Some s1, put_session message_id s1 w))"

definition init_choice :: "fs \<Rightarrow> init_outcome \<times> fs" where
  "init_choice f =
     (let (x, f1) = next_fault f in
      (case x of Fine \<Rightarrow> InitOk | Fails \<Rightarrow> NoContext | Torn _ \<Rightarrow> DigestInitFails, f1))"

definition LoadUploadSession :: "path \<Rightarrow> nat \<Rightarrow> nat \<Rightarrow> ChatMessage \<Rightarrow> file_worker \<Rightarrow> UploadSession option \<times> file_worker" where
  "LoadUploadSession root now message_id msg w =
     (let (out, f1) = init_choice (fw_fs w) in
      case cm_resource msg of
        None \<Rightarrow> (None, set_fs f1 w)
      | Some res \<Rightarrow>
          let (ok, received, f2) = RecoverUploadFile (ResourceUploadingPartPath root message_id)
                (res_file_size_bytes res) kUploadChunkSize 0 f1 in
          if \<not> ok then (None, set_fs f2 w)
          else
            let s = \<lparr>us_message_id = message_id, us_file_size_bytes = res_file_size_bytes res,
                     us_sha256 = res_sha256 res, us_received = received,
                     us_sender_user_id = cm_sender_user_id msg, us_recipient_user_id = cm_recipient_user_id msg,
                     us_last_active = now, us_whole_hash_mismatches = 0, us_hasher = stream_new out,
                     us_hash_valid = (received = 0), us_final_hex = [], us_challenge_nonce_raw = [],
                     us_challenge_offset = 0, us_challenge_length = 0, us_challenge_active = False,
                     us_challenge_session = None, us_challenge_issued_at = 0, us_challenge_suppressed = False\<rparr>
            in (Some s, put_session message_id s (set_fs f2 w)))"

text \<open>Worker number \<open>index\<close> drops those of its own sessions that are idle.\<close>

definition EvictIdleUploadSessions :: "nat \<Rightarrow> nat \<Rightarrow> file_worker \<Rightarrow> file_worker" where
  "EvictIdleUploadSessions index now w =
     w\<lparr>fw_sessions := (\<lambda>i. case fw_sessions w i of
          None \<Rightarrow> None
        | Some s \<Rightarrow>
            if ResourceWorkerIndex i FILE_WORKER_COUNT = index \<and> now - us_last_active s > kSessionIdleTimeout
            then None else Some s)\<rparr>"

subsection \<open>Completion of an upload\<close>

definition chunk_reply :: "ResourceChunkTask \<Rightarrow> ErrorCodes \<Rightarrow> nat \<Rightarrow> MessageStatus option \<Rightarrow> nat \<Rightarrow> reply" where
  "chunk_reply task error server_offset status event_seq =
     \<lparr>rp_error = error, rp_message_id = tk_message_id task, rp_offset = Some (tk_offset task),
      rp_server_offset = Some server_offset, rp_status = status,
      rp_event_seq = (if event_seq > 0 then Some event_seq else None)\<rparr>"

definition whole_file_hash ::
  "(string \<Rightarrow> string) \<Rightarrow> path \<Rightarrow> UploadSession \<Rightarrow> fs \<Rightarrow> string \<times> UploadSession \<times> fs" where
  "whole_file_hash sha part_path s f =
     (if us_final_hex s \<noteq> [] then (us_final_hex s, s, f)
      else
        let (s1, f1) =
              (if us_hash_valid s then
                 let (ok, g) = syscall f; (h, st) = stream_FinalHex sha (\<not> ok) (us_hasher s)
                 in (s\<lparr>us_hasher := st, us_final_hex := h\<rparr>, g)
               else (s, f));
            (s2, f2) =
              (if us_final_hex s1 = [] then
                 let (h, g) = file_hash sha part_path f1 in (s1\<lparr>us_final_hex := h\<rparr>, g)
               else (s1, f1))
        in (us_final_hex s2, s2, f2))"

definition content_mismatch ::
  "path \<Rightarrow> ResourceChunkTask \<Rightarrow> UploadSession \<Rightarrow> file_worker \<Rightarrow> reply option \<times> file_worker" where
  "content_mismatch root task s w =
     (let message_id = tk_message_id task; part_path = ResourceUploadingPartPath root message_id;
          s1 = s\<lparr>us_whole_hash_mismatches := us_whole_hash_mismatches s + 1\<rparr> in
      if us_whole_hash_mismatches s1 \<ge> 3 then
        let (failed, d1) = MarkResourceFailed message_id (fw_db w); w1 = set_db d1 w in
        if \<not> failed then (Some (chunk_reply task RPCFailed (us_received s1) (Some Pending) 0), put_session message_id s1 w1)
        else let (_, f1) = remove_file part_path (fw_fs w1) in
          (Some (chunk_reply task ResourceStateInvalid 0 (Some Failed) 0), EvictUploadSession message_id (set_fs f1 w1))
      else
        let (removed, f1) = remove_file part_path (fw_fs w); w1 = set_fs f1 w in
        if \<not> removed
        then (Some (chunk_reply task FileWritePermissionFailed (us_received s1) (Some Pending) 0), put_session message_id s1 w1)
        else let (out, f2) = init_choice f1 in
          (Some (chunk_reply task FileContentMismatch 0 (Some Pending) 0),
           put_session message_id
             (s1\<lparr>us_received := 0, us_hasher := stream_Reset out (us_hasher s1), us_hash_valid := True, us_final_hex := []\<rparr>)
             (set_fs f2 w1)))"

text \<open>
  \<open>copy_file\<close> of \<open>boost::filesystem\<close> without options: fails when the target exists; a failure may leave
  the beginning of the copy behind.
\<close>

definition copy_file :: "path \<Rightarrow> path \<Rightarrow> fs \<Rightarrow> bool \<times> fs" where
  "copy_file src dst f =
     (let (x, f1) = next_fault f in
      case content f1 src of
        None \<Rightarrow> (False, f1)
      | Some c \<Rightarrow>
          if names f1 dst \<noteq> None \<or> \<not> dir_exists (parent_path dst) f1 then (False, f1)
          else case x of Fine \<Rightarrow> (True, new_file dst c f1)
            | Fails \<Rightarrow> (False, f1)
            | Torn t \<Rightarrow> (False, new_file dst (take (length t) c) f1))"

text \<open>The lambda \<open>restore_part_after_publish_failure\<close>; the session is evicted where the result is not \<open>expected\<close>.\<close>

definition restore_part ::
  "path \<Rightarrow> path \<Rightarrow> nat \<Rightarrow> nat \<Rightarrow> fs \<Rightarrow> nat \<times> bool \<times> fs" where
  "restore_part part_path base_path file_size expected f =
     (let recover = (\<lambda>f. let (ok, disk_received, f') = RecoverUploadFile part_path file_size kUploadChunkSize 0 f
                         in (if ok then disk_received else 0, True, f'));
          (part_len, f1) = DiskFileLength part_path f in
      if part_len = Some expected then (expected, False, f1)
      else let (base_len, f2) = DiskFileLength base_path f1 in
        if base_len = Some expected then
          (let (rm, f3) = remove_file part_path f2;
               (cp, f4) = copy_file base_path part_path f3;
               (copied_len, f5) = (if rm \<and> cp then DiskFileLength part_path f4 else (None, f4)) in
           if rm \<and> cp \<and> copied_len = Some expected then (expected, False, f5) else recover f5)
        else recover f2)"

definition restore_part_after_publish_failure ::
  "path \<Rightarrow> nat \<Rightarrow> UploadSession \<Rightarrow> file_worker \<Rightarrow> nat \<times> file_worker" where
  "restore_part_after_publish_failure root message_id s w =
     (let (n, evicted, f) = restore_part (ResourceUploadingPartPath root message_id) (ResourceBlobPath root (us_sha256 s))
            (us_file_size_bytes s) (us_received s) (fw_fs w) in
      (n, if evicted then EvictUploadSession message_id (set_fs f w) else set_fs f w))"

definition install_blob ::
  "(string \<Rightarrow> string) \<Rightarrow> path \<Rightarrow> path \<Rightarrow> UploadSession \<Rightarrow> fs \<Rightarrow> bool \<times> fs" where
  "install_blob sha part_path base_path s f =
     (let (dirs, f1) = EnsureDirectoryDurable (parent_path base_path) f in
      if \<not> dirs then (False, f1)
      else let (moved, dedup_hit, f2) = DurableRename part_path base_path False True f1 in
        if \<not> moved then (False, f2)
        else if \<not> dedup_hit then (True, f2)
        else
          let (existing_len, f3) = DiskFileLength base_path f2;
              len_ok = (existing_len = Some (us_file_size_bytes s));
              (hex, f4) = (if len_ok then file_hash sha base_path f3 else ([], f3));
              hex_ok = (len_ok \<and> hex = us_sha256 s) in
          if \<not> len_ok \<or> \<not> hex_ok then (False, f4)
          else let (flushed, f5) = FlushFileToDisk base_path f4 in
            if \<not> flushed then (False, f5) else (True, snd (remove_file part_path f5)))"

definition respond_restored ::
  "path \<Rightarrow> ResourceChunkTask \<Rightarrow> UploadSession \<Rightarrow> ErrorCodes \<Rightarrow> file_worker \<Rightarrow> reply option \<times> file_worker" where
  "respond_restored root task s error w =
     (let (n, w1) = restore_part_after_publish_failure root (tk_message_id task) s w in
      (Some (chunk_reply task error n (Some Pending) 0), w1))"

definition publish_upload ::
  "path \<Rightarrow> ResourceChunkTask \<Rightarrow> UploadSession \<Rightarrow> file_worker \<Rightarrow> reply option \<times> file_worker" where
  "publish_upload root task s w =
     (let message_id = tk_message_id task; (found, d1) = GetChatMsgById message_id (fw_db w); w1 = set_db d1 w in
      case found of
        NotFound \<Rightarrow> (Some (chunk_reply task MsgIdErr 0 (Some Failed) 0), EvictUploadSession message_id w1)
      | Transient \<Rightarrow> respond_restored root task s RPCFailed w1
      | Found msg \<Rightarrow>
          let (rc, event_seq, d2) = CompleteResourceUpload message_id (cm_sender_user_id msg) (fw_db w1); w2 = set_db d2 w1 in
          (case rc of
             Pub_NotPending \<Rightarrow> (Some (chunk_reply task ResourceStateInvalid 0 (Some Failed) 0), EvictUploadSession message_id w2)
           | Pub_NotFound \<Rightarrow> (Some (chunk_reply task MsgIdErr 0 (Some Failed) 0), EvictUploadSession message_id w2)
           | Pub_Transient \<Rightarrow> respond_restored root task s RPCFailed w2
           | _ \<Rightarrow>
               (Some ((chunk_reply task Success (us_received s) (Some Published) 0)\<lparr>rp_event_seq := Some event_seq\<rparr>),
                (EvictUploadSession message_id w2)\<lparr>fw_notified :=
                   fw_notified w2 @ [(message_id, cm_message_type msg, cm_recipient_user_id msg)]\<rparr>)))"

definition FileWorker_CompleteResourceUpload ::
  "(string \<Rightarrow> string) \<Rightarrow> path \<Rightarrow> ResourceChunkTask \<Rightarrow> UploadSession \<Rightarrow> file_worker \<Rightarrow> reply option \<times> file_worker" where
  "FileWorker_CompleteResourceUpload sha root task s w =
     (let message_id = tk_message_id task;
          part_path = ResourceUploadingPartPath root message_id; base_path = ResourceBlobPath root (us_sha256 s);
          (full_hash, s1, f1) = whole_file_hash sha part_path s (fw_fs w);
          w1 = put_session message_id s1 (set_fs f1 w) in
      if full_hash = [] then (Some (chunk_reply task FileReadFailed (us_received s1) (Some Pending) 0), w1)
      else if full_hash \<noteq> us_sha256 s1 then content_mismatch root task s1 w1
      else let (flushed, f2) = FlushFileToDisk part_path (fw_fs w1); w2 = set_fs f2 w1 in
        if \<not> flushed then (Some (chunk_reply task FileWritePermissionFailed (us_received s1) (Some Pending) 0), w2)
        else let (installed, f3) = install_blob sha part_path base_path s1 (fw_fs w2); w3 = set_fs f3 w2 in
          if \<not> installed then respond_restored root task s1 FileWritePermissionFailed w3
          else publish_upload root task s1 w3)"

subsection \<open>Chunks (1505)\<close>

text \<open>A session that is not in the table is loaded from the database row and the \<open>.part\<close> file.\<close>

definition chunk_session ::
  "path \<Rightarrow> nat \<Rightarrow> nat \<Rightarrow> ResourceChunkTask \<Rightarrow> file_worker \<Rightarrow> (reply + UploadSession) \<times> file_worker" where
  "chunk_session root now uid task w =
     (let message_id = tk_message_id task; (found, d1) = GetChatMsgById message_id (fw_db w); w1 = set_db d1 w in
      case found of
        NotFound \<Rightarrow> (Inl (chunk_reply task MsgIdErr 0 None 0), w1)
      | Transient \<Rightarrow> (Inl (chunk_reply task RPCFailed 0 None 0), w1)
      | Found msg \<Rightarrow>
          if uid = 0 \<or> uid \<noteq> cm_sender_user_id msg then (Inl (chunk_reply task ResourceForbidden 0 None 0), w1)
          else if cm_message_type msg \<noteq> 1 \<and> cm_message_type msg \<noteq> 3
            then (Inl (chunk_reply task ResourceStateInvalid 0 None 0), w1)
          else if cm_status msg = Published
            then (Inl (chunk_reply task Success (case cm_resource msg of None \<Rightarrow> 0 | Some r \<Rightarrow> res_file_size_bytes r)
                         (Some Published) (cm_event_seq msg)), w1)
          else if cm_status msg = Failed
            then (Inl (chunk_reply task ResourceStateInvalid 0 (Some Failed) 0), w1)
          else (case LoadUploadSession root now message_id msg w1 of
                  (None, w2) \<Rightarrow> (Inl (chunk_reply task RPCFailed 0 None 0), w2)
                | (Some s, w2) \<Rightarrow> (Inr s, w2)))"

definition hash_append :: "string \<Rightarrow> UploadSession \<Rightarrow> fs \<Rightarrow> UploadSession \<times> fs" where
  "hash_append d s f =
     (if us_hash_valid s then
        let (evp, f1) = syscall f; (ok, st) = stream_Update (\<not> evp) d (us_hasher s)
        in (s\<lparr>us_hasher := st, us_hash_valid := ok\<rparr>, f1)
      else (s, f))"

definition write_chunk ::
  "(string \<Rightarrow> string) \<Rightarrow> path \<Rightarrow> ResourceChunkTask \<Rightarrow> UploadSession \<Rightarrow> file_worker \<Rightarrow> reply option \<times> file_worker" where
  "write_chunk sha root task s w =
     (let message_id = tk_message_id task;
          s1 = s\<lparr>us_challenge_active := False, us_challenge_suppressed := True\<rparr>;
          received_before = us_received s1;
          (error, received, f1) = WriteUploadChunk sha (ResourceUploadingPartPath root message_id) (us_file_size_bytes s1)
             kUploadChunkSize (tk_offset task) (tk_file_data task) (tk_chunk_sha256 task) (us_received s1) (fw_fs w);
          s2 = s1\<lparr>us_received := received\<rparr> in
      if error \<noteq> Success then
        (Some (chunk_reply task error received None 0),
         put_session message_id (s2\<lparr>us_hash_valid := False, us_final_hex := []\<rparr>) (set_fs f1 w))
      else
        let (s3, f2) = (if tk_offset task = received_before then hash_append (tk_file_data task) s2 f1 else (s2, f1));
            w2 = put_session message_id s3 (set_fs f2 w) in
        if us_received s3 = us_file_size_bytes s3 then FileWorker_CompleteResourceUpload sha root task s3 w2
        else (Some (chunk_reply task Success (us_received s3) (Some Pending) 0), w2))"

definition HandleResourceChunk ::
  "(string \<Rightarrow> string) \<Rightarrow> path \<Rightarrow> nat \<Rightarrow> ResourceChunkTask \<Rightarrow> file_worker \<Rightarrow> reply option \<times> file_worker" where
  "HandleResourceChunk sha root now task w =
     (case tk_session task of
        None \<Rightarrow> (None, w)
      | Some cs \<Rightarrow>
          if \<not> IsOpen (cs_lifecycle cs) then (None, w)
          else
            let uid = cs_user_uid cs; index = ResourceWorkerIndex (tk_message_id task) FILE_WORKER_COUNT;
                (cached, w1) = FindUploadSession now (tk_message_id task) (EvictIdleUploadSessions index now w);
                (loaded, w2) = (case cached of Some s \<Rightarrow> (Inr s, w1) | None \<Rightarrow> chunk_session root now uid task w1) in
            (case loaded of
               Inl r \<Rightarrow> (Some r, w2)
             | Inr s \<Rightarrow>
                 if uid = 0 \<or> uid \<noteq> us_sender_user_id s then (Some (chunk_reply task ResourceForbidden 0 None 0), w2)
                 else write_chunk sha root task s w2))"

subsection \<open>Proof of possession (1513)\<close>

definition proof_reply :: "nat \<Rightarrow> ErrorCodes \<Rightarrow> MessageStatus \<Rightarrow> reply" where
  "proof_reply message_id error status =
     \<lparr>rp_error = error, rp_message_id = message_id, rp_offset = None, rp_server_offset = None,
      rp_status = Some status, rp_event_seq = None\<rparr>"

definition proof_success :: "nat \<Rightarrow> nat \<Rightarrow> nat \<Rightarrow> reply" where
  "proof_success message_id file_size event_seq =
     \<lparr>rp_error = Success, rp_message_id = message_id, rp_offset = None, rp_server_offset = Some file_size,
      rp_status = Some Published, rp_event_seq = Some event_seq\<rparr>"

definition challenge_valid :: "nat \<Rightarrow> nat \<Rightarrow> UploadSession \<Rightarrow> bool" where
  "challenge_valid now req_session s \<longleftrightarrow>
     us_challenge_active s \<and> \<not> (now - us_challenge_issued_at s > kInstantProofChallengeTtlSeconds)
     \<and> us_challenge_session s = Some req_session"

text \<open>The comparison with the challenged section of the blob: \<open>None\<close> is a proof that is accepted.\<close>

definition check_proof ::
  "(string \<Rightarrow> string) \<Rightarrow> path \<Rightarrow> string \<Rightarrow> UploadSession \<Rightarrow> fs \<Rightarrow> ErrorCodes option \<times> fs" where
  "check_proof sha blob_path proof_hex s f =
     (let (op, f1) = open_existing blob_path f in
      if \<not> op then (Some InstantProofInvalid, f1)
      else let (rd, f2) = read_at blob_path (us_challenge_offset s) (us_challenge_length s) f1;
               section = (case rd of None \<Rightarrow> [] | Some d \<Rightarrow> d) in
        if length section \<noteq> us_challenge_length s then (Some FileReadFailed, f2)
        else let (evp, f3) = syscall f2; expect = Sha256Hex sha (\<not> evp) (us_challenge_nonce_raw s @ section) in
          if length expect \<noteq> 64 then (Some RPCFailed, f3)
          else if \<not> ConstantTimeEquals (Some expect) (Some proof_hex) (length expect) then (Some InstantProofInvalid, f3)
          else (None, f3))"

definition publish_proved ::
  "path \<Rightarrow> nat \<Rightarrow> ChatMessage \<Rightarrow> resource_row \<Rightarrow> file_worker \<Rightarrow> reply \<times> file_worker" where
  "publish_proved root message_id msg res w =
     (let (rc, event_seq, d1) = CompleteResourceUpload message_id (cm_sender_user_id msg) (fw_db w); w1 = set_db d1 w in
      case rc of
        Pub_NotPending \<Rightarrow> (proof_reply message_id ResourceStateInvalid Failed, EvictUploadSession message_id w1)
      | Pub_NotFound \<Rightarrow> (proof_reply message_id MsgIdErr Failed, EvictUploadSession message_id w1)
      | Pub_Transient \<Rightarrow> (proof_reply message_id RPCFailed Pending, w1)
      | _ \<Rightarrow>
          (proof_success message_id (res_file_size_bytes res) event_seq,
           (RemoveStubPart root message_id (EvictUploadSession message_id w1))\<lparr>fw_notified :=
              fw_notified w1 @ [(message_id, cm_message_type msg, cm_recipient_user_id msg)]\<rparr>))"

definition use_challenge ::
  "(string \<Rightarrow> string) \<Rightarrow> path \<Rightarrow> nat \<Rightarrow> string \<Rightarrow> ChatMessage \<Rightarrow> resource_row \<Rightarrow> UploadSession \<Rightarrow> file_worker
   \<Rightarrow> reply \<times> file_worker" where
  "use_challenge sha root message_id proof_hex msg res s w =
     (let s1 = s\<lparr>us_challenge_active := False\<rparr>; suppressed = s1\<lparr>us_challenge_suppressed := True\<rparr> in
      if \<not> IsValidSha256Hex proof_hex
      then (proof_reply message_id InstantProofInvalid Pending, put_session message_id suppressed w)
      else case check_proof sha (ResourceBlobPath root (res_sha256 res)) proof_hex s1 (fw_fs w) of
             (Some error, f1) \<Rightarrow> (proof_reply message_id error Pending, put_session message_id suppressed (set_fs f1 w))
           | (None, f1) \<Rightarrow> publish_proved root message_id msg res (put_session message_id s1 (set_fs f1 w)))"

definition HandleInstantProof ::
  "(string \<Rightarrow> string) \<Rightarrow> path \<Rightarrow> nat \<Rightarrow> nat \<Rightarrow> nat \<Rightarrow> nat \<Rightarrow> string \<Rightarrow> file_worker \<Rightarrow> reply \<times> file_worker" where
  "HandleInstantProof sha root now req_session req_uid message_id proof_hex w =
     (let (found, d1) = GetChatMsgById message_id (fw_db w); w1 = set_db d1 w in
      case found of
        NotFound \<Rightarrow> (proof_reply message_id MsgIdErr Failed, EvictUploadSession message_id w1)
      | Transient \<Rightarrow> (proof_reply message_id RPCFailed Pending, w1)
      | Found msg \<Rightarrow>
          (case cm_resource msg of
             None \<Rightarrow> (proof_reply message_id ResourceForbidden (cm_status msg), w1)
           | Some res \<Rightarrow>
               if req_uid = 0 \<or> req_uid \<noteq> cm_sender_user_id msg
               then (proof_reply message_id ResourceForbidden (cm_status msg), w1)
               else if cm_status msg = Published
               then (proof_success message_id (res_file_size_bytes res) (cm_event_seq msg),
                     RemoveStubPart root message_id (EvictUploadSession message_id w1))
               else if cm_status msg \<noteq> Pending
               then (proof_reply message_id ResourceStateInvalid (cm_status msg), EvictUploadSession message_id w1)
               else case fw_sessions w1 message_id of
                 None \<Rightarrow> (proof_reply message_id InstantProofInvalid Pending, w1)
               | Some s \<Rightarrow>
                   if \<not> challenge_valid now req_session s
                   then (proof_reply message_id InstantProofInvalid Pending, w1)
                   else use_challenge sha root message_id proof_hex msg res s w1))"

subsection \<open>Avatar upload (1601)\<close>

record FileTask =
  ft_uid :: nat
  ft_seq :: int
  ft_path :: path
  ft_last :: bool
  ft_file_data :: string

definition open_trunc :: "path \<Rightarrow> fs \<Rightarrow> bool \<times> fs" where
  "open_trunc p f =
     (let (ok, f1) = open_append p f in if \<not> ok then (False, f1) else (True, set_data p [] f1))"

definition USER_BASE_INFO :: string where
  "USER_BASE_INFO = ''ubaseinfo_''"

text \<open>
  \<open>None\<close> as reply: an exception (of the decoder or of \<open>exists\<close>), or a user that is not found after the
  last packet.  The last result is what is written to Redis: the key, and the row whose fields are
  the value.
\<close>

definition handle_head_icon ::
  "FileTask \<Rightarrow> file_worker \<Rightarrow> ErrorCodes option \<times> (string \<times> user_row) option \<times> file_worker" where
  "handle_head_icon task w =
     (case base64_decode (ft_file_data task) False of
        None \<Rightarrow> (None, None, w)
      | Some decoded \<Rightarrow>
          let file_path = ft_path task; dir_path = parent_path file_path; (ex, f1) = syscall (fw_fs w) in
          if \<not> ex then (None, None, set_fs f1 w)
          else
            let (dirs, f2) = (if dir_exists dir_path f1 then (True, f1) else create_directories dir_path f1) in
            if \<not> dirs then (Some FileNotExists, None, set_fs f2 w)
            else
              let (op, f3) = (if ft_seq task = 1 then open_trunc file_path f2 else open_append file_path f2) in
              if \<not> op then (Some FileWritePermissionFailed, None, set_fs f3 w)
              else
                let (wr, f4) = write_at file_path (file_length f3 file_path) decoded f3; w1 = set_fs f4 w in
                if \<not> wr then (Some FileWritePermissionFailed, None, w1)
                else if \<not> ft_last task then (Some Success, None, w1)
                else
                  let (_, d1) = UpdateHeadInfo (ft_uid task) (last file_path) (fw_db w1);
                      (user_info, d2) = GetUser (ft_uid task) d1; w2 = set_db d2 w1 in
                  (case user_info of
                     None \<Rightarrow> (None, None, w2)
                   | Some u \<Rightarrow> (Some Success, Some (USER_BASE_INFO @ to_string (ft_uid task), u), w2)))"

end
