(* ===== verification/Upload_Invariant.thy ===== *)
theory Upload_Invariant
  imports Storage_Frame File_Worker
begin

text \<open>
  The invariant of the upload side and what completion, recovery and installation of a blob do to
  it.  It says: every blob has the digest that is its name; every published resource has a blob
  with its digest and size that survives a power failure; the progress of an upload session is
  what the \<open>.part\<close> file holds, and the running or cached digest of the session is the digest of
  exactly these bytes.
\<close>

subsection \<open>Framing of the worker's file operations\<close>

lemma DiskFileLength_eq: "DiskFileLength = ReadLength"
  by (intro ext) (simp add: DiskFileLength_def ReadLength_def)

lemma keep_DiskFileLength [keep]: "keeps P f g \<Longrightarrow> ends2 (keeps P f) (DiskFileLength p g)"
  by (simp add: DiskFileLength_eq keep_ReadLength)

lemma keep_copy_file [keep]: "keeps P f g \<Longrightarrow> dst \<in> P \<Longrightarrow> ends2 (keeps P f) (copy_file src dst g)"
  unfolding copy_file_def Let_def by (intro keep)

lemma keep_init_choice [keep]: "keeps P f g \<Longrightarrow> ends2 (keeps P f) (init_choice g)"
  unfolding init_choice_def Let_def by (intro keep)

lemma keep_restore_part [keep]:
  "keeps P f g \<Longrightarrow> part \<in> P \<Longrightarrow> ends3 (keeps P f) (restore_part part base n e g)"
  unfolding restore_part_def Let_def by (intro keep)

lemma keep_check_proof [keep]: "keeps P f g \<Longrightarrow> ends2 (keeps P f) (check_proof sha p h s g)"
  unfolding check_proof_def Let_def by (intro keep)

lemma keep_stream [keep]: "(\<And>x st :: Sha256Stream. ends2 R (k x st)) \<Longrightarrow> ends2 R (case_prod k m)"
  by (simp split: prod.split)

lemma keep_hash_append: "keeps P f g \<Longrightarrow> ends2 (keeps P f) (hash_append d s g)"
  unfolding hash_append_def Let_def by (intro keep)

lemma keep_whole_file_hash: "keeps P f g \<Longrightarrow> ends3 (keeps P f) (whole_file_hash sha p s g)"
  unfolding whole_file_hash_def Let_def by (intro keep)

subsection \<open>Paths\<close>

abbreviation "part_of \<equiv> ResourceUploadingPartPath"
abbreviation "blob_of \<equiv> ResourceBlobPath"

lemma blob_of_parent [simp]: "parent_path (blob_of root h) = root @ [''blobs'', take 2 h]"
  by (simp add: ResourceBlobPath_def parent_path_def butlast_append)

lemma blob_of_length [simp]: "2 \<le> length (blob_of root h)" "blob_of root h \<noteq> []"
  by (simp_all add: ResourceBlobPath_def)

lemma blob_dirs_untouched:
  assumes "r \<in> set (prefixes_of (root @ [''blobs'', take 2 h]))"
  shows "r \<notin> {part_of root i, blob_of root h'}"
proof -
  obtain t where t: "root @ [''blobs'', take 2 h] = r @ t" using assms by (auto simp: set_prefixes_of)
  have "length (root @ [''blobs'', take 2 h]) = length (r @ t)" by (simp only: t)
  then have "length r \<le> length root + 2" by simp
  moreover have False if r: "r = part_of root i"
  proof -
    have "root @ [''blobs'', take 2 h] = root @ [''uploading'', to_string i @ ''.part''] @ t"
      using t r by (simp add: ResourceUploadingPartPath_def)
    then show False by simp
  qed
  moreover have "r \<noteq> blob_of root h'"
    using \<open>length r \<le> length root + 2\<close> by (auto simp: ResourceBlobPath_def)
  ultimately show ?thesis by auto
qed

subsection \<open>Installation of a blob\<close>

lemma ReadLength_faults: "ReadLength p f = (r, g) \<Longrightarrow> \<exists>xs. g = f\<lparr>faults := xs\<rparr>"
  by (auto simp: ReadLength_def syscall_def next_fault_eq Let_def split: if_splits)

lemma install_blob_D:
  assumes run: "install_blob sha part base s f = (ok, g)" and fok: "fs_ok f"
    and ne: "part \<noteq> base" "length base \<ge> 2" and pre: "part \<notin> set (prefixes_of (parent_path base))"
    and ne_sha: "us_sha256 s \<noteq> []"
    and c: "content f part = Some c" and clean: "names f part = Some (File i)" "\<not> dirty f i"
  shows "keeps {part, base} f g" and "names f base \<noteq> None \<Longrightarrow> keeps {part} f g"
    and "content g base = content f base \<or> content f base = None \<and> content g base = Some c"
    and "content g part = Some c \<or> content g part = None"
    and "ok \<Longrightarrow> file_durable g base \<and> (content g base = Some c
           \<or> (\<exists>c'. content g base = Some c' \<and> length c' = us_file_size_bytes s \<and> ToLowerHex (sha c') = us_sha256 s))"
proof -
  obtain dirs f1 where e: "EnsureDirectoryDurable (parent_path base) f = (dirs, f1)" by fastforce
  note E = EnsureDirectoryDurable_D [OF e fok]
  have k1: "keeps P f f1" for P using keep_Ensure [OF keeps_refl [OF fok]] e by (rule ends2_use)
  obtain mv dh f2 where r: "DurableRename part base False True f1 = (mv, dh, f2)" by (metis prod_cases3)
  note R = DurableRename_no_replace [OF r E(1) ne]
  note F = DurableRename_frame [OF r k1 ne(1)]
  have part1: "content f1 part = Some c" "names f1 part = Some (File i)" "\<not> dirty f1 i"
  proof -
    show c1: "content f1 part = Some c" using c E(2) by simp
    show "names f1 part = Some (File i)" "\<not> dirty f1 i"
      using clean E(4) E(5) [of part] c1 by (auto simp: content_def)
  qed
  have base: "names f1 base \<noteq> None" if "names f base \<noteq> None" using E(5) [of base] that by auto
  have par: "parent_path base \<noteq> []" using ne(2) by (cases base rule: rev_cases) (auto simp: parent_path_def)
  obtain el f3 where el: "DiskFileLength base f2 = (el, f3)" by fastforce
  let ?len_ok = "el = Some (us_file_size_bytes s)"
  obtain hex f4 where hex: "(if ?len_ok then file_hash sha base f3 else ([], f3)) = (hex, f4)" by fastforce
  obtain fl f5 where fl: "FlushFileToDisk base f4 = (fl, f5)" by fastforce
  obtain rm f6 where rm: "remove_file part f5 = (rm, f6)" by fastforce
  have kd: "keeps P f f4 \<and> keeps P f f5 \<and> (part \<in> P \<longrightarrow> keeps P f f6)" if dh for P
  proof -
    have "keeps P f f2" using F(3) that par by blast
    then have "keeps P f f3" by (rule ends2_use [OF keep_DiskFileLength el])
    then have "ends2 (keeps P f) (if ?len_ok then file_hash sha base f3 else ([], f3))" by (intro keep)
    then have k4: "keeps P f f4" using hex by (rule ends2_use)
    then have k5: "keeps P f f5" by (rule ends2_use [OF keep_Flush fl])
    then show ?thesis using k4 ends2_use [OF keep_remove rm] by blast
  qed
  have c2: "content f3 = content f2" using ReadLength_D(1) el by (simp add: DiskFileLength_eq)
  have c4: "content f4 = content f2" using hex file_hash_D(1) [of sha base f3] c2 by (auto split: if_splits)
  have c5: "content f5 = content f2" using FlushFileToDisk_D(1) [OF fl] c4 by simp
  have len: "length c' = n" if "el = Some n" "content f2 base = Some c'" for n c'
    using el that ReadLength_value by (fastforce simp: DiskFileLength_eq file_length_def)
  have hexv: "hex = us_sha256 s \<Longrightarrow> ?len_ok \<Longrightarrow> hex \<noteq> [] \<Longrightarrow> \<exists>c'. content f2 base = Some c' \<and> hex = ToLowerHex (sha c')"
    using hex file_hash_D(2) [of sha base f3] c2 by (auto split: if_splits)
  have "dh \<longrightarrow> mv" using R(2) by simp
  then consider (A) "\<not> dirs" "g = f1" "\<not> ok" | (B) "\<not> dh" "g = f2" "ok = mv"
    | (D1) dh "\<not> ok" "g = f4 \<or> g = f5" | (D2) dh "g = f6" ?len_ok "hex = us_sha256 s" fl
    using run e r el hex fl rm by (auto simp: install_blob_def split: if_splits)
  note cs = this
  have frame: "keeps P f g" if "part \<in> P" "base \<in> P \<or> names f base \<noteq> None" for P
    using cs
  proof cases
    case A
    then show ?thesis using k1 by simp
  next
    case B
    then show ?thesis using F(1,2) base that by blast
  qed (use kd [of P] that in auto)
  from frame show "keeps {part, base} f g" "names f base \<noteq> None \<Longrightarrow> keeps {part} f g" by simp_all
  have ex: "content f2 = content f" if dh using R(2) E(2) that by simp
  have c6: "content f6 = (if rm then (content f)(part := None) else content f)" if dh
    using remove_file_D(2) [OF rm] kd [OF that] c5 ex that by (simp add: keeps_def)
  show "content g base = content f base \<or> content f base = None \<and> content g base = Some c"
    using cs
  proof cases
    case B
    then show ?thesis using R(3,4) E(2) c ne(1) by (auto split: if_splits)
  qed (use E(2) c4 c5 ex c6 ne(1) in auto)
  show "content g part = Some c \<or> content g part = None"
    using cs
  proof cases
    case B
    then show ?thesis using R(3) E(2) c ne(1) by auto
  qed (use E(2) c4 c5 ex c6 ne(1) c in auto)
  show "file_durable g base \<and> (content g base = Some c
           \<or> (\<exists>c'. content g base = Some c' \<and> length c' = us_file_size_bytes s \<and> ToLowerHex (sha c') = us_sha256 s))"
    if ok
    using cs
  proof cases
    case B
    then show ?thesis using R(5) R(6) [OF _ _ part1(2,3)] that E(2) c ne(1) by auto
  next
    case D2
    obtain c' where c': "content f2 base = Some c'" "ToLowerHex (sha c') = us_sha256 s"
      using hexv D2 ne_sha by auto
    have "content g base = Some c'" using c6 D2 ne(1) c'(1) ex by simp
    moreover have "length c' = us_file_size_bytes s" using len D2 c'(1) by blast
    moreover have "file_durable f5 base"
    proof -
      have n2: "dnames f2 base = names f2 base" "dir_durable f2 (parent_path base)" using F(3) [of UNIV] D2 par by auto
      obtain j where j: "names f2 base = Some (File j)" using c'(1) by (auto elim: content_SomeE)
      obtain xs where "f3 = f2\<lparr>faults := xs\<rparr>" using ReadLength_faults el unfolding DiskFileLength_eq by blast
      moreover have "f4 = f3 \<or> f4 = f3\<lparr>faults := tl (faults f3)\<rparr>"
        using hex file_hash_D(1) [of sha base f3] by (auto split: if_splits)
      ultimately have f4: "names f4 = names f2" "dnames f4 = dnames f2" by auto
      note Fl = FlushFileToDisk_D [OF fl]
      have "\<not> dirty f5 j" using Fl(7) D2 f4 j by simp
      then show ?thesis using n2 j f4 Fl(3,5) by (simp add: file_durable_def dir_durable_def)
    qed
    moreover have "touches {part} f5 f6"
    proof -
      have "fs_ok f5" using kd [of UNIV] D2 by (simp add: keeps_def)
      then have "keeps {part} f5 f6" by (rule ends2_use [OF keep_remove [OF keeps_refl] rm]) simp
      then show ?thesis by (simp add: keeps_def)
    qed
    ultimately have "file_durable f6 base" using touches_durable [of "{part}" f5 f6 base] ne(1) pre by auto
    then show ?thesis using D2 \<open>content g base = Some c'\<close> \<open>length c' = us_file_size_bytes s\<close> c'(2) by auto
  qed (use that in auto)
qed

subsection \<open>Restoring the \<open>.part\<close> file\<close>

lemma copy_file_D:
  assumes "copy_file src dst f = (ok, g)" and "fs_ok f" and "src \<noteq> dst"
  shows "\<And>q. q \<noteq> dst \<Longrightarrow> content g q = content f q" "ok \<Longrightarrow> content g dst = content f src"
proof -
  have k: "keeps {dst} f g" by (rule ends2_use [OF keep_copy_file [OF keeps_refl] assms(1)]) (simp_all add: assms(2))
  then show "\<And>q. q \<noteq> dst \<Longrightarrow> content g q = content f q" unfolding keeps_def by (auto intro: touches_content)
  have wf: "fs_wf (f\<lparr>faults := tl (faults f)\<rparr>)" using assms(2) by (simp add: fs_ok_def fs_wf_def)
  show "ok \<Longrightarrow> content g dst = content f src"
    using assms(1) content_new_file [OF wf]
    by (auto simp: copy_file_def next_fault_eq Let_def split: option.splits if_splits fault.splits)
qed

lemma restore_part_D:
  assumes "restore_part part base sz expected f = (n, ev, g)" and "fs_ok f" and "part \<noteq> base" and "0 < expected"
  shows "keeps {part} f g"
    and "\<not> ev \<Longrightarrow> n = expected \<and>
       (content g part = content f part \<and> file_length f part = expected
        \<or> content g part = content f base \<and> file_length f base = expected)"
proof -
  show "keeps {part} f g"
    by (rule ends3_use [OF keep_restore_part [OF keeps_refl] assms(1)]) (simp_all add: assms(2))
  obtain pl f1 where pl: "DiskFileLength part f = (pl, f1)" by fastforce
  obtain bl f2 where bl: "DiskFileLength base f1 = (bl, f2)" by fastforce
  obtain rm f3 where rm: "remove_file part f2 = (rm, f3)" by fastforce
  obtain cp f4 where cp: "copy_file base part f3 = (cp, f4)" by fastforce
  obtain cl f5 where cl: "(if rm \<and> cp then DiskFileLength part f4 else (None, f4)) = (cl, f5)" by fastforce
  have f1: "content f1 = content f" "fs_ok f1" using ReadLength_D(1,2) pl assms(2) by (auto simp: DiskFileLength_eq)
  have f2: "content f2 = content f" "fs_ok f2" using ReadLength_D(1,2) bl f1 by (auto simp: DiskFileLength_eq)
  note R = remove_file_D [OF rm f2(2)]
  note C = copy_file_D [OF cp R(1) assms(3) [symmetric]]
  have f5: "content f5 = content f4" if "rm" "cp" using cl that ReadLength_D(1) by (auto simp: DiskFileLength_eq)
  have pl': "file_length f part = expected" if "pl = Some expected"
    using ReadLength_value pl that by (simp add: DiskFileLength_eq)
  have bl': "file_length f base = expected" if "bl = Some expected"
    using ReadLength_value [of base f1 expected f2] bl that f1(1) by (simp add: DiskFileLength_eq file_length_def)
  have "n = expected \<and> (pl = Some expected \<and> g = f1 \<or> bl = Some expected \<and> rm \<and> cp \<and> g = f5)" if "\<not> ev"
    using assms(1) pl bl rm cp cl that
    by (auto simp: restore_part_def Let_def split: if_splits prod.splits)
  then show "\<not> ev \<Longrightarrow> n = expected \<and>
       (content g part = content f part \<and> file_length f part = expected
        \<or> content g part = content f base \<and> file_length f base = expected)"
    using f1 pl' bl' f5 C(2) R(2) f2(1) assms(3) by auto
qed

subsection \<open>The invariant\<close>

definition cas_ok :: "(string \<Rightarrow> string) \<Rightarrow> path \<Rightarrow> fs \<Rightarrow> bool" where
  "cas_ok sha root f \<longleftrightarrow> (\<forall>h c. content f (blob_of root h) = Some c \<longrightarrow> ToLowerHex (sha c) = h)"

definition stored :: "(string \<Rightarrow> string) \<Rightarrow> path \<Rightarrow> fs \<Rightarrow> string \<Rightarrow> nat \<Rightarrow> bool" where
  "stored sha root f h n \<longleftrightarrow>
     (\<exists>c. content f (blob_of root h) = Some c \<and> length c = n \<and> ToLowerHex (sha c) = h)
     \<and> file_durable f (blob_of root h)"

text \<open>The messages that are published and have a resource, with the resource.\<close>

definition published_res :: "db \<Rightarrow> resource_row \<Rightarrow> bool" where
  "published_res d r \<longleftrightarrow> r \<in> set (message_resources d)
     \<and> (\<exists>m \<in> set (chat_messages d). msg_id m = res_message_id r \<and> msg_status m = Published)"

definition pub_ok :: "(string \<Rightarrow> string) \<Rightarrow> path \<Rightarrow> db \<Rightarrow> fs \<Rightarrow> bool" where
  "pub_ok sha root d f \<longleftrightarrow> (\<forall>r. published_res d r \<longrightarrow> stored sha root f (res_sha256 r) (res_file_size_bytes r))"

definition digest_ok :: "(string \<Rightarrow> string) \<Rightarrow> UploadSession \<Rightarrow> string \<Rightarrow> bool" where
  "digest_ok sha s bytes \<longleftrightarrow>
     (if us_final_hex s = [] then us_hash_valid s \<longrightarrow>
        (ctx (us_hasher s) = None \<and> final (us_hasher s) = []) \<or> stream_covers (us_hasher s) (take (us_received s) bytes)
      else us_received s = us_file_size_bytes s \<and> 0 < us_received s \<and> us_final_hex s = ToLowerHex (sha bytes))"

definition progress_ok :: "(string \<Rightarrow> string) \<Rightarrow> path \<Rightarrow> fs \<Rightarrow> nat \<Rightarrow> UploadSession \<Rightarrow> bool" where
  "progress_ok sha root f i s \<longleftrightarrow>
     part_ok (us_file_size_bytes s) kUploadChunkSize (us_received s) (file_length f (part_of root i))
     \<and> digest_ok sha s (file_bytes f (part_of root i))"

text \<open>
  The cleanup task may delete a stale \<open>.part\<close> file while its session is still in the table; such a
  session can make no progress until it is evicted.
\<close>

definition session_ok :: "(string \<Rightarrow> string) \<Rightarrow> path \<Rightarrow> fs \<Rightarrow> nat \<Rightarrow> UploadSession \<Rightarrow> bool" where
  "session_ok sha root f i s \<longleftrightarrow>
     (content f (part_of root i) = None \<and> 0 < us_received s) \<or> progress_ok sha root f i s"

definition session_row :: "db \<Rightarrow> nat \<Rightarrow> UploadSession \<Rightarrow> bool" where
  "session_row d i s \<longleftrightarrow>
     (\<exists>r. find_resource i d = Some r \<and> us_sha256 s = res_sha256 r \<and> us_file_size_bytes s = res_file_size_bytes r)
     \<and> (us_challenge_active s \<longrightarrow>
          (\<exists>r. published_res d r \<and> res_sha256 r = us_sha256 s \<and> res_file_size_bytes r = us_file_size_bytes s))"

definition upload_inv :: "(string \<Rightarrow> string) \<Rightarrow> path \<Rightarrow> file_worker \<Rightarrow> bool" where
  "upload_inv sha root w \<longleftrightarrow> fs_ok (fw_fs w) \<and> db_ok (fw_db w) \<and> cas_ok sha root (fw_fs w)
     \<and> pub_ok sha root (fw_db w) (fw_fs w)
     \<and> (\<forall>i s. fw_sessions w i = Some s \<longrightarrow> session_ok sha root (fw_fs w) i s \<and> session_row (fw_db w) i s)"

subsection \<open>Framing of the invariant\<close>

lemma keeps_content: "keeps P f g \<Longrightarrow> q \<notin> P \<Longrightarrow> content g q = content f q"
  unfolding keeps_def using touches_content by blast

lemma keeps_mono: "keeps P f g \<Longrightarrow> P \<subseteq> Q \<Longrightarrow> keeps Q f g"
  unfolding keeps_def touches_def by blast

lemma keeps_fs_ok: "keeps P f g \<Longrightarrow> fs_ok g"
  by (simp add: keeps_def)

lemma cas_keeps:
  assumes "cas_ok sha root f" and "keeps {part_of root i, blob_of root h} f g"
    and "content g (blob_of root h) = content f (blob_of root h)
         \<or> (\<exists>c. content g (blob_of root h) = Some c \<and> ToLowerHex (sha c) = h)"
  shows "cas_ok sha root g"
  unfolding cas_ok_def
proof (intro allI impI)
  fix h' c assume c: "content g (blob_of root h') = Some c"
  show "ToLowerHex (sha c) = h'"
  proof (cases "h' = h")
    case True
    then show ?thesis using assms(1,3) c by (auto simp: cas_ok_def)
  next
    case False
    then have "content f (blob_of root h') = Some c" using keeps_content [OF assms(2), of "blob_of root h'"] c by simp
    then show ?thesis using assms(1) by (simp add: cas_ok_def)
  qed
qed

lemma cas_keeps_part: "cas_ok sha root f \<Longrightarrow> keeps {part_of root i} f g \<Longrightarrow> cas_ok sha root g"
  by (rule cas_keeps [of _ _ _ i "[]"]) (auto intro: keeps_mono keeps_content)

lemma stored_keeps:
  assumes "stored sha root f h n" and "keeps P f g" and "P \<subseteq> {part_of root i, blob_of root h'}" and "blob_of root h \<notin> P"
  shows "stored sha root g h n"
proof -
  have "file_durable g (blob_of root h)"
  proof (rule touches_durable [of P f g])
    show "touches P f g" using assms(2) by (simp add: keeps_def)
    show "file_durable f (blob_of root h)" using assms(1) by (simp add: stored_def)
    show "r \<notin> P" if "r \<in> set (prefixes_of (parent_path (blob_of root h)))" for r
      using blob_dirs_untouched [of r root h i h'] that assms(3) by auto
  qed fact
  then show ?thesis using assms keeps_content [OF assms(2,4)] by (auto simp: stored_def)
qed

lemma pub_keeps:
  assumes "pub_ok sha root d f" and "keeps {part_of root i, blob_of root h} f g"
    and "names f (blob_of root h) \<noteq> None \<Longrightarrow> keeps {part_of root i} f g"
  shows "pub_ok sha root d g"
  unfolding pub_ok_def
proof (intro allI impI)
  fix r assume "published_res d r"
  then have st: "stored sha root f (res_sha256 r) (res_file_size_bytes r)" using assms(1) by (simp add: pub_ok_def)
  show "stored sha root g (res_sha256 r) (res_file_size_bytes r)"
  proof (cases "res_sha256 r = h")
    case True
    then have "names f (blob_of root h) \<noteq> None" using st by (auto simp: stored_def elim: content_SomeE)
    from stored_keeps [OF st assms(3) [OF this], of i h] show ?thesis by simp
  next
    case False
    from stored_keeps [OF st assms(2), of i h] False show ?thesis by simp
  qed
qed

lemma pub_keeps_part: "pub_ok sha root d f \<Longrightarrow> keeps {part_of root i} f g \<Longrightarrow> pub_ok sha root d g"
  by (rule pub_keeps [of _ _ _ _ i "[]"]) (auto intro: keeps_mono)

lemma session_keeps:
  assumes "session_ok sha root f j s" and "keeps P f g" and "part_of root j \<notin> P"
  shows "session_ok sha root g j s"
  using assms(1) keeps_content [OF assms(2,3)] by (simp add: session_ok_def progress_ok_def file_length_def file_bytes_def)

subsection \<open>Changes of the database\<close>

lemma evolves_members:
  assumes "evolves P d d'"
  shows "m \<in> set (chat_messages d) \<Longrightarrow> \<exists>m' \<in> set (chat_messages d'). status_step P m m'"
    and "m' \<in> set (chat_messages d') \<Longrightarrow> \<exists>m \<in> set (chat_messages d). status_step P m m'"
  using assms unfolding evolves_def by (auto simp: list_all2_conv_all_nth in_set_conv_nth) (metis nth_mem)+

lemma evolves_published_res:
  assumes "evolves P d d'"
  shows "published_res d r \<Longrightarrow> published_res d' r"
    and "published_res d' r \<Longrightarrow> published_res d r \<or> P (res_message_id r) \<and> r \<in> set (message_resources d)"
proof -
  have res: "message_resources d' = message_resources d" using assms by (simp add: evolves_def)
  show "published_res d' r" if pr: "published_res d r"
  proof -
    obtain m where m: "m \<in> set (chat_messages d)" "msg_id m = res_message_id r" "msg_status m = Published"
      using pr by (auto simp: published_res_def)
    obtain m' where m': "m' \<in> set (chat_messages d')" "status_step P m m'" using evolves_members(1) [OF assms m(1)] by blast
    have "msg_id m' = msg_id m" "msg_status m' = Published"
      using m'(2) m(3) status_step_id [OF m'(2)] by (auto simp: status_step_def)
    then show ?thesis using pr m m'(1) res by (auto simp: published_res_def)
  qed
  show "published_res d r \<or> P (res_message_id r) \<and> r \<in> set (message_resources d)" if pr: "published_res d' r"
  proof -
    obtain m' where m': "m' \<in> set (chat_messages d')" "msg_id m' = res_message_id r" "msg_status m' = Published"
      using pr by (auto simp: published_res_def)
    obtain m where m: "m \<in> set (chat_messages d)" "status_step P m m'" using evolves_members(2) [OF assms m'(1)] by blast
    have "msg_id m = res_message_id r" using status_step_id [OF m(2)] m'(2) by simp
    moreover have "msg_status m = Published \<or> P (msg_id m)" using m(2) m'(3) by (auto simp: status_step_def)
    ultimately show ?thesis using m(1) pr res by (auto simp: published_res_def)
  qed
qed

lemma pub_evolves:
  assumes "pub_ok sha root d f" and "evolves P d d'"
    and "\<And>r. r \<in> set (message_resources d) \<Longrightarrow> P (res_message_id r) \<Longrightarrow> stored sha root f (res_sha256 r) (res_file_size_bytes r)"
  shows "pub_ok sha root d' f"
  using assms(1,3) evolves_published_res(2) [OF assms(2)] unfolding pub_ok_def by blast

lemma session_row_evolves:
  assumes "session_row d i s" and "evolves P d d'"
  shows "session_row d' i s"
proof -
  have "find_resource i d' = find_resource i d" using assms(2) by (simp add: find_resource_def evolves_def)
  then show ?thesis using assms(1) evolves_published_res(1) [OF assms(2)] unfolding session_row_def by metis
qed

subsection \<open>One session apart\<close>

text \<open>
  A handler works on the session of its own message, which it holds outside the table.  \<open>rest_inv i\<close>
  is the invariant for everything else, \<open>own_ok\<close> that of the session.
\<close>

lemma worker_fields [simp]:
  "fw_fs (put_session i s w) = fw_fs w" "fw_db (put_session i s w) = fw_db w"
  "fw_sessions (put_session i s w) = (fw_sessions w)(i \<mapsto> s)" "fw_notified (put_session i s w) = fw_notified w"
  "fw_fs (EvictUploadSession i w) = fw_fs w" "fw_db (EvictUploadSession i w) = fw_db w"
  "fw_sessions (EvictUploadSession i w) = (fw_sessions w)(i := None)"
  "fw_notified (EvictUploadSession i w) = fw_notified w"
  "fw_fs (set_fs f w) = f" "fw_db (set_fs f w) = fw_db w" "fw_sessions (set_fs f w) = fw_sessions w"
  "fw_notified (set_fs f w) = fw_notified w"
  "fw_fs (set_db d w) = fw_fs w" "fw_db (set_db d w) = d" "fw_sessions (set_db d w) = fw_sessions w"
  "fw_notified (set_db d w) = fw_notified w"
  by (simp_all add: put_session_def EvictUploadSession_def set_fs_def set_db_def)

definition rest_inv :: "(string \<Rightarrow> string) \<Rightarrow> path \<Rightarrow> nat \<Rightarrow> file_worker \<Rightarrow> bool" where
  "rest_inv sha root i w \<longleftrightarrow> fs_ok (fw_fs w) \<and> db_ok (fw_db w) \<and> cas_ok sha root (fw_fs w)
     \<and> pub_ok sha root (fw_db w) (fw_fs w)
     \<and> (\<forall>j s. j \<noteq> i \<longrightarrow> fw_sessions w j = Some s \<longrightarrow> session_ok sha root (fw_fs w) j s \<and> session_row (fw_db w) j s)"

definition own_ok :: "(string \<Rightarrow> string) \<Rightarrow> path \<Rightarrow> nat \<Rightarrow> UploadSession \<Rightarrow> file_worker \<Rightarrow> bool" where
  "own_ok sha root i s w \<longleftrightarrow> session_ok sha root (fw_fs w) i s \<and> session_row (fw_db w) i s"

lemma upload_inv_rest: "upload_inv sha root w \<Longrightarrow> rest_inv sha root i w"
  by (auto simp: upload_inv_def rest_inv_def)

lemma upload_inv_own: "upload_inv sha root w \<Longrightarrow> fw_sessions w i = Some s \<Longrightarrow> own_ok sha root i s w"
  by (auto simp: upload_inv_def own_ok_def)

lemma upload_inv_iff:
  "upload_inv sha root w \<longleftrightarrow> rest_inv sha root i w \<and> (\<forall>s. fw_sessions w i = Some s \<longrightarrow> own_ok sha root i s w)"
  by (auto simp: upload_inv_def rest_inv_def own_ok_def)

lemma put_inv: "rest_inv sha root i w \<Longrightarrow> own_ok sha root i s w \<Longrightarrow> upload_inv sha root (put_session i s w)"
  by (auto simp: upload_inv_def rest_inv_def own_ok_def)

lemma evict_inv: "rest_inv sha root i w \<Longrightarrow> upload_inv sha root (EvictUploadSession i w)"
  by (auto simp: upload_inv_def rest_inv_def)

lemma rest_put [simp]: "rest_inv sha root i (put_session i s w) = rest_inv sha root i w"
  by (auto simp: rest_inv_def)

lemma own_put [simp]: "own_ok sha root i s (put_session j t w) = own_ok sha root i s w"
  by (simp add: own_ok_def)

lemma notified_inv [simp]: "upload_inv sha root (w\<lparr>fw_notified := x\<rparr>) = upload_inv sha root w"
  by (simp add: upload_inv_def)

lemma rest_fs:
  assumes "rest_inv sha root i w" and "keeps {part_of root i} (fw_fs w) f"
  shows "rest_inv sha root i (set_fs f w)"
  using assms keeps_fs_ok [OF assms(2)] cas_keeps_part [OF _ assms(2)] pub_keeps_part [OF _ assms(2)]
    session_keeps [OF _ assms(2)]
  by (auto simp: rest_inv_def)

lemma rest_db:
  assumes "rest_inv sha root i w" and "evolves P (fw_db w) d" and "db_ok d"
    and "\<And>r. r \<in> set (message_resources (fw_db w)) \<Longrightarrow> P (res_message_id r) \<Longrightarrow>
           stored sha root (fw_fs w) (res_sha256 r) (res_file_size_bytes r)"
  shows "rest_inv sha root i (set_db d w)"
  using assms(1,3) pub_evolves [OF _ assms(2,4)] session_row_evolves [OF _ assms(2)] by (auto simp: rest_inv_def)

lemma rest_db_silent:
  assumes "rest_inv sha root i w" and "evolves (\<lambda>_. False) (fw_db w) d" and "db_ok d"
  shows "rest_inv sha root i (set_db d w)"
  using assms by (rule rest_db) simp

lemma own_db: "own_ok sha root i s w \<Longrightarrow> evolves P (fw_db w) d \<Longrightarrow> own_ok sha root i s (set_db d w)"
  unfolding own_ok_def by (auto intro: session_row_evolves)

lemma inv_db_silent:
  assumes "upload_inv sha root w" and "evolves (\<lambda>_. False) (fw_db w) d" and "db_ok d"
  shows "upload_inv sha root (set_db d w)"
  using assms(1,3) pub_evolves [OF _ assms(2)] session_row_evolves [OF _ assms(2)]
  by (auto simp: upload_inv_def)

lemma own_fs_same:
  assumes "own_ok sha root i s w" and "content f (part_of root i) = content (fw_fs w) (part_of root i)"
  shows "own_ok sha root i s (set_fs f w)"
  using assms by (simp add: own_ok_def session_ok_def progress_ok_def file_length_def file_bytes_def)

lemma GetChatMsgById_silent:
  assumes "GetChatMsgById i d = (r, d')"
  shows "evolves P d d'" "db_ok d' = db_ok d" "find_resource j d' = find_resource j d"
  using GetChatMsgById_D(1) [OF assms] by simp_all

lemma rest_get:
  assumes "rest_inv sha root i w" and "GetChatMsgById j (fw_db w) = (r, d)"
  shows "rest_inv sha root i (set_db d w)"
  using GetChatMsgById_silent [OF assms(2)] assms(1)
  by (intro rest_db_silent [OF assms(1)]) (auto simp: rest_inv_def)

lemma inv_get:
  assumes "upload_inv sha root w" and "GetChatMsgById j (fw_db w) = (r, d)"
  shows "upload_inv sha root (set_db d w)"
  using GetChatMsgById_silent [OF assms(2)] assms(1)
  by (intro inv_db_silent [OF assms(1)]) (simp_all add: upload_inv_def)

subsection \<open>Loading a session\<close>

lemma select_message_resource:
  assumes "select_message i d = Some msg"
  obtains r m where "cm_resource msg = Some r" "find_resource i d = Some r" "find_message i d = Some m"
    "cm_status msg = msg_status m" "cm_sender_user_id msg = msg_sender m"
  using assms by (auto simp: select_message_def Let_def split: option.splits)

lemma init_choice_new:
  "(ctx (stream_new out) = None \<and> final (stream_new out) = []) \<or> stream_covers (stream_new out) []"
  by (cases out) (auto simp: stream_new_def stream_Init_def stream_Destroy_def stream_covers_def)

lemma init_choice_Reset:
  "(ctx (stream_Reset out st) = None \<and> final (stream_Reset out st) = []) \<or> stream_covers (stream_Reset out st) []"
  by (cases out) (auto simp: stream_Reset_def stream_Init_def stream_Destroy_def stream_covers_def)

lemma kUploadChunkSize_pos: "0 < kUploadChunkSize"
  by (simp add: kUploadChunkSize_def wire_consts)

lemma LoadUploadSession_inv:
  assumes "LoadUploadSession root now i msg w = (r, w')" and "rest_inv sha root i w"
    and "cm_resource msg = Some res" and "find_resource i (fw_db w) = Some res"
  shows "rest_inv sha root i w'" and "r = None \<Longrightarrow> fw_sessions w' = fw_sessions w"
    and "r = Some s \<Longrightarrow> own_ok sha root i s w' \<and> fw_sessions w' i = Some s
           \<and> us_sender_user_id s = cm_sender_user_id msg"
proof -
  let ?p = "part_of root i"
  obtain out f1 where o: "init_choice (fw_fs w) = (out, f1)" by fastforce
  obtain ok rcv f2 where rc: "RecoverUploadFile ?p (res_file_size_bytes res) kUploadChunkSize 0 f1 = (ok, rcv, f2)"
    by (metis prod_cases3)
  have fok: "fs_ok (fw_fs w)" using assms(2) by (simp add: rest_inv_def)
  have k1: "keeps {?p} (fw_fs w) f1" using keep_init_choice [OF keeps_refl [OF fok]] o by (rule ends2_use)
  have k2: "keeps {?p} (fw_fs w) f2" by (rule ends3_use [OF keep_Recover [OF k1] rc]) simp
  note R = RecoverUploadFile_D [OF rc keeps_fs_ok [OF k1]]
  have w': "w' = (if ok then put_session i (the r) (set_fs f2 w) else set_fs f2 w)" "r \<noteq> None \<longleftrightarrow> ok"
    using assms(1,3) o rc by (auto simp: LoadUploadSession_def Let_def split: if_splits)
  show "rest_inv sha root i w'" "r = None \<Longrightarrow> fw_sessions w' = fw_sessions w"
    using w' rest_fs [OF assms(2) k2] by (auto split: if_splits)
  show "own_ok sha root i s w' \<and> fw_sessions w' i = Some s \<and> us_sender_user_id s = cm_sender_user_id msg" if "r = Some s"
  proof -
    have ok using w'(2) that by simp
    then have s: "us_file_size_bytes s = res_file_size_bytes res" "us_sha256 s = res_sha256 res" "us_received s = rcv"
      "us_hasher s = stream_new out" "us_hash_valid s = (rcv = 0)" "us_final_hex s = []" "\<not> us_challenge_active s"
      "us_sender_user_id s = cm_sender_user_id msg"
      using assms(1,3) o rc that by (auto simp: LoadUploadSession_def Let_def)
    have "part_ok (res_file_size_bytes res) kUploadChunkSize rcv (file_length f2 ?p)"
      using R(2) \<open>ok\<close> by (auto simp: part_ok_def)
    moreover have "digest_ok sha s (file_bytes f2 ?p)"
      using s init_choice_new [of out] by (auto simp: digest_ok_def)
    ultimately have "session_ok sha root (fw_fs w') i s" using s w'(1) \<open>ok\<close> by (simp add: session_ok_def progress_ok_def)
    moreover have "session_row (fw_db w') i s" using s w'(1) \<open>ok\<close> assms(4) by (simp add: session_row_def)
    ultimately show ?thesis using w'(1) that \<open>ok\<close> s(8) by (simp add: own_ok_def)
  qed
qed

subsection \<open>The digest at the completion point\<close>

definition same_upload :: "UploadSession \<Rightarrow> UploadSession \<Rightarrow> bool" where
  "same_upload s t \<longleftrightarrow> us_file_size_bytes t = us_file_size_bytes s \<and> us_sha256 t = us_sha256 s
     \<and> us_sender_user_id t = us_sender_user_id s \<and> us_challenge_active t = us_challenge_active s"

lemma session_row_same: "session_row d i s \<Longrightarrow> same_upload s t \<Longrightarrow> session_row d i t"
  by (simp add: session_row_def same_upload_def)

lemma session_row_inactive:
  "session_row d i s \<Longrightarrow> same_upload (s\<lparr>us_challenge_active := False\<rparr>) t \<Longrightarrow> session_row d i t"
  by (simp add: session_row_def same_upload_def)

lemma whole_file_hash_D:
  assumes "whole_file_hash sha p s f = (h, t, g)" and "fs_ok f" and "content f p = Some c"
    and "us_received s = us_file_size_bytes s" and "length c = us_received s" and "0 < us_received s" and "digest_ok sha s c"
  shows "keeps P f g" "content g = content f" "same_upload s t" "us_received t = us_received s" "h = us_final_hex t"
    "h \<noteq> [] \<Longrightarrow> h = ToLowerHex (sha c)" "digest_ok sha t c"
    "us_whole_hash_mismatches t = us_whole_hash_mismatches s"
proof -
  show "keeps P f g" by (rule ends3_use [OF keep_whole_file_hash [OF keeps_refl] assms(1)]) (fact assms(2))
  then have "keeps {} f g" using ends3_use [OF keep_whole_file_hash [OF keeps_refl] assms(1)] assms(2) by blast
  then show "content g = content f" using keeps_content by fastforce
  obtain ok f1 where ok: "syscall f = (ok, f1)" by fastforce
  then have f1: "content f1 = content f" by (auto elim: syscallE)
  have whole: "take (us_received s) c = c" using assms(5) by simp
  obtain h1 st where h1: "stream_FinalHex sha (\<not> ok) (us_hasher s) = (h1, st)" by fastforce
  define s1 where "s1 = (if us_hash_valid s then s\<lparr>us_hasher := st, us_final_hex := h1\<rparr> else s)"
  define f2 where "f2 = (if us_hash_valid s then f1 else f)"
  obtain h2 f3 where h2: "file_hash sha p f2 = (h2, f3)" by fastforce
  have eqs: "(h, t, g) = (if us_final_hex s \<noteq> [] then (us_final_hex s, s, f)
      else if us_final_hex s1 = [] then (h2, s1\<lparr>us_final_hex := h2\<rparr>, f3) else (us_final_hex s1, s1, f2))"
    using assms(1) ok h1 h2 by (auto simp: whole_file_hash_def s1_def f2_def Let_def split: if_splits prod.splits)
  have h2v: "h2 \<noteq> [] \<Longrightarrow> h2 = ToLowerHex (sha c)"
    using file_hash_D(2) [OF h2] assms(3) f1 by (auto simp: f2_def split: if_splits)
  have dg: "us_final_hex s = [] \<Longrightarrow> us_hash_valid s \<Longrightarrow>
      (ctx (us_hasher s) = None \<and> final (us_hasher s) = []) \<or> stream_covers (us_hasher s) c"
    using assms(7) whole by (simp add: digest_ok_def)
  have h1v: "us_final_hex s = [] \<Longrightarrow> us_hash_valid s \<Longrightarrow> (h1 \<noteq> [] \<longrightarrow> h1 = ToLowerHex (sha c)) \<and> (h1 = [] \<longrightarrow> st = us_hasher s)"
    using dg h1 by (auto simp: stream_FinalHex_def stream_covers_def Let_def split: if_splits option.splits)
  have "same_upload s t \<and> us_received t = us_received s \<and> h = us_final_hex t \<and> (h \<noteq> [] \<longrightarrow> h = ToLowerHex (sha c))
      \<and> digest_ok sha t c \<and> us_whole_hash_mismatches t = us_whole_hash_mismatches s"
  proof (cases "us_final_hex s = []")
    case False
    then have "h = us_final_hex s" "t = s" using eqs by simp_all
    then show ?thesis using False assms(7) by (auto simp: same_upload_def digest_ok_def)
  next
    case True
    have upd: "same_upload s s1" "us_received s1 = us_received s" "us_whole_hash_mismatches s1 = us_whole_hash_mismatches s"
      "us_file_size_bytes s1 = us_file_size_bytes s" by (simp_all add: s1_def same_upload_def)
    have fin: "us_final_hex s1 \<noteq> [] \<Longrightarrow> us_final_hex s1 = ToLowerHex (sha c)"
      "us_final_hex s1 = [] \<Longrightarrow> us_hasher s1 = us_hasher s \<and> us_hash_valid s1 = us_hash_valid s"
      using True h1v by (auto simp: s1_def)
    consider "us_final_hex s1 \<noteq> []" "h = us_final_hex s1" "t = s1"
      | "us_final_hex s1 = []" "h = h2" "t = s1\<lparr>us_final_hex := h2\<rparr>"
      using eqs True by (auto split: if_splits)
    then show ?thesis
    proof cases
      case 1
      then show ?thesis using upd fin(1) assms(4,6) by (auto simp: digest_ok_def)
    next
      case 2
      then show ?thesis using upd fin(2) h2v assms(4,6) dg True whole
        by (cases "h2 = []") (auto simp: digest_ok_def same_upload_def)
    qed
  qed
  then show "same_upload s t" "us_received t = us_received s" "h = us_final_hex t"
    "h \<noteq> [] \<Longrightarrow> h = ToLowerHex (sha c)" "digest_ok sha t c"
    "us_whole_hash_mismatches t = us_whole_hash_mismatches s" by blast+
qed

subsection \<open>Completion keeps the invariant\<close>

lemma own_mismatches [simp]: "own_ok sha root i (s\<lparr>us_whole_hash_mismatches := k\<rparr>) w = own_ok sha root i s w"
  by (simp add: own_ok_def session_ok_def progress_ok_def session_row_def digest_ok_def)

lemma MarkResourceFailed_rest:
  assumes "MarkResourceFailed j (fw_db w) = (ok, d)" and "rest_inv sha root i w"
  shows "rest_inv sha root i (set_db d w)" "own_ok sha root i s w \<Longrightarrow> own_ok sha root i s (set_db d w)"
proof -
  note D = MarkResourceFailed_D [OF assms(1)]
  have "db_ok d" using D(2) assms(2) by (simp add: rest_inv_def)
  then show "rest_inv sha root i (set_db d w)" by (rule rest_db_silent [OF assms(2) D(1)])
  show "own_ok sha root i s w \<Longrightarrow> own_ok sha root i s (set_db d w)" by (rule own_db [OF _ D(1)])
qed

lemma own_emptied:
  assumes "session_row (fw_db w) i s" and "content (fw_fs w) (part_of root i) = None"
    and "same_upload s t" and "us_received t = 0" and "us_final_hex t = []"
    and "us_hasher t = stream_Reset out st"
  shows "own_ok sha root i t w"
  using assms init_choice_Reset [of out st] session_row_same [OF assms(1,3)]
  by (auto simp: own_ok_def session_ok_def progress_ok_def file_length_def part_ok_def digest_ok_def)

lemma content_mismatch_inv:
  assumes "rest_inv sha root i w" and "own_ok sha root i s w" and "i = tk_message_id task"
  shows "upload_inv sha root (snd (content_mismatch root task s w))"
proof -
  let ?p = "part_of root i" and ?s1 = "s\<lparr>us_whole_hash_mismatches := us_whole_hash_mismatches s + 1\<rparr>"
  obtain failed d1 where d1: "MarkResourceFailed i (fw_db w) = (failed, d1)" by fastforce
  note M = MarkResourceFailed_rest [OF d1 assms(1)]
  obtain rm f1 where f1: "remove_file ?p (fw_fs w) = (rm, f1)" by fastforce
  have fok: "fs_ok (fw_fs w)" using assms(1) by (simp add: rest_inv_def)
  have k1: "keeps {?p} (fw_fs w) f1" by (rule ends2_use [OF keep_remove [OF keeps_refl [OF fok]] f1]) simp
  note R = remove_file_D(2) [OF f1 fok]
  obtain out f2 where f2: "init_choice f1 = (out, f2)" by fastforce
  have k2: "keeps {?p} (fw_fs w) f2" using keep_init_choice [OF k1] f2 by (rule ends2_use)
  have c2: "content f2 = content f1" using f2 by (auto simp: init_choice_def next_fault_eq)
  show ?thesis
  proof (cases "us_whole_hash_mismatches ?s1 \<ge> 3")
    case True
    then have "snd (content_mismatch root task s w) =
        (if failed then EvictUploadSession i (set_fs f1 (set_db d1 w)) else put_session i ?s1 (set_db d1 w))"
      using assms(3) d1 f1 by (simp add: content_mismatch_def)
    then show ?thesis using M assms(2) rest_fs [OF M(1), of f1] k1 by (auto intro!: put_inv evict_inv)
  next
    case False
    let ?t = "?s1\<lparr>us_received := 0, us_hasher := stream_Reset out (us_hasher s), us_hash_valid := True, us_final_hex := []\<rparr>"
    have eq: "snd (content_mismatch root task s w) =
        (if rm then put_session i ?t (set_fs f2 (set_fs f1 w)) else put_session i ?s1 (set_fs f1 w))"
      using False assms(3) f1 f2 by (simp add: content_mismatch_def)
    have ff: "set_fs f2 (set_fs f1 w) = set_fs f2 w" by (simp add: set_fs_def)
    show ?thesis
    proof (cases rm)
      case True
      have "own_ok sha root i ?t (set_fs f2 w)"
        by (rule own_emptied [of _ _ s]) (use assms(2) R True c2 in \<open>auto simp: own_ok_def same_upload_def\<close>)
      then show ?thesis using eq True ff rest_fs [OF assms(1) k2] by (simp add: put_inv)
    next
      case False
      then have "own_ok sha root i ?s1 (set_fs f1 w)" using R own_fs_same [OF assms(2)] by simp
      then show ?thesis using eq False rest_fs [OF assms(1) k1] by (simp add: put_inv)
    qed
  qed
qed

text \<open>
  The situation after the digest has matched: the session holds the right digest, and the \<open>.part\<close> file
  is the complete upload, or it was moved away.
\<close>

definition matched :: "(string \<Rightarrow> string) \<Rightarrow> path \<Rightarrow> nat \<Rightarrow> UploadSession \<Rightarrow> file_worker \<Rightarrow> bool" where
  "matched sha root i s w \<longleftrightarrow> us_received s = us_file_size_bytes s \<and> 0 < us_received s
     \<and> us_final_hex s = us_sha256 s \<and> us_sha256 s \<noteq> [] \<and> session_row (fw_db w) i s \<and> fw_sessions w i = Some s
     \<and> (\<forall>c. content (fw_fs w) (part_of root i) = Some c \<longrightarrow> length c = us_received s \<and> ToLowerHex (sha c) = us_sha256 s)"

lemma matched_db: "matched sha root i s w \<Longrightarrow> evolves P (fw_db w) d \<Longrightarrow> matched sha root i s (set_db d w)"
  unfolding matched_def by (auto intro: session_row_evolves)

lemma respond_restored_inv:
  assumes "rest_inv sha root i w" and "matched sha root i s w" and "i = tk_message_id task"
  shows "upload_inv sha root (snd (respond_restored root task s e w))"
proof -
  let ?p = "part_of root i" and ?b = "blob_of root (us_sha256 s)"
  obtain n ev f where r: "restore_part ?p ?b (us_file_size_bytes s) (us_received s) (fw_fs w) = (n, ev, f)"
    by (metis prod_cases3)
  have fok: "fs_ok (fw_fs w)" and cas: "cas_ok sha root (fw_fs w)" using assms(1) by (simp_all add: rest_inv_def)
  note M = assms(2) [unfolded matched_def]
  have pos: "0 < us_received s" using M by simp
  note R = restore_part_D [OF r fok part_not_blob(1) pos]
  have rest: "rest_inv sha root i (set_fs f w)" using rest_fs [OF assms(1) R(1)] .
  have eq: "snd (respond_restored root task s e w) =
      (if ev then EvictUploadSession i (set_fs f w) else set_fs f w)"
    using r assms(3) by (simp add: respond_restored_def restore_part_after_publish_failure_def)
  show ?thesis
  proof (cases ev)
    case True
    then show ?thesis using eq rest by (simp add: evict_inv)
  next
    case False
    obtain c where c: "content f ?p = Some c" "length c = us_received s" "ToLowerHex (sha c) = us_sha256 s"
    proof -
      have "\<exists>c. content f ?p = Some c \<and> length c = us_received s \<and> ToLowerHex (sha c) = us_sha256 s"
        using R(2) [OF False]
      proof (elim conjE disjE)
        assume "content f ?p = content (fw_fs w) ?p" "file_length (fw_fs w) ?p = us_received s"
        then show ?thesis using M by (auto simp: file_length_def split: option.splits)
      next
        assume "content f ?p = content (fw_fs w) ?b" "file_length (fw_fs w) ?b = us_received s"
        then show ?thesis using pos cas by (auto simp: file_length_def cas_ok_def split: option.splits)
      qed
      then show ?thesis using that by blast
    qed
    have "own_ok sha root i s (set_fs f w)"
      using c M by (auto simp: own_ok_def session_ok_def progress_ok_def file_length_def file_bytes_def part_ok_def digest_ok_def)
    then show ?thesis using eq False rest M by (auto simp: upload_inv_iff [of _ _ _ i])
  qed
qed

lemma session_row_stored:
  assumes "db_ok d" and "session_row d i s" and "stored sha root f (us_sha256 s) (us_file_size_bytes s)"
    and "r \<in> set (message_resources d)" and "res_message_id r = i"
  shows "stored sha root f (res_sha256 r) (res_file_size_bytes r)"
proof -
  obtain r' where r': "find_resource i d = Some r'" "us_sha256 s = res_sha256 r'" "us_file_size_bytes s = res_file_size_bytes r'"
    using assms(2) by (auto simp: session_row_def)
  have "r' \<in> set (message_resources d)" "res_message_id r' = i"
    using find_SomeD r'(1) unfolding find_resource_def by fastforce+
  moreover have "distinct (map res_message_id (message_resources d))" using assms(1) by (simp add: db_ok_def keys_ok_def)
  ultimately have "r' = r" using assms(4,5) by (auto simp: distinct_map inj_on_def)
  then show ?thesis using assms(3) r' by simp
qed

lemma CompleteResourceUpload_rest:
  assumes "CompleteResourceUpload i u (fw_db w) = (rc, seq, d)" and "rest_inv sha root j w"
    and "\<And>r. r \<in> set (message_resources (fw_db w)) \<Longrightarrow> res_message_id r = i \<Longrightarrow>
           stored sha root (fw_fs w) (res_sha256 r) (res_file_size_bytes r)"
  shows "rest_inv sha root j (set_db d w)"
proof -
  note D = CompleteResourceUpload_D [OF assms(1)]
  have "db_ok d" using D(2) assms(2) by (simp add: rest_inv_def)
  then show ?thesis using rest_db [OF assms(2) D(1)] assms(3) by blast
qed

lemma publish_upload_inv:
  assumes "rest_inv sha root i w" and "matched sha root i s w" and "i = tk_message_id task"
    and "stored sha root (fw_fs w) (us_sha256 s) (us_file_size_bytes s)"
  shows "upload_inv sha root (snd (publish_upload root task s w))"
proof -
  obtain found d1 where d1: "GetChatMsgById i (fw_db w) = (found, d1)" by fastforce
  let ?w1 = "set_db d1 w"
  have r1: "rest_inv sha root i ?w1" using rest_get [OF assms(1) d1] .
  have m1: "matched sha root i s ?w1" using matched_db [OF assms(2) GetChatMsgById_silent(1) [OF d1]] .
  show ?thesis
  proof (cases found)
    case NotFound
    then show ?thesis using d1 assms(3) r1 by (simp add: publish_upload_def evict_inv)
  next
    case Transient
    then show ?thesis using d1 assms(3) respond_restored_inv [OF r1 m1 assms(3)] by (simp add: publish_upload_def)
  next
    case (Found msg)
    obtain rc seq d2 where d2: "CompleteResourceUpload i (cm_sender_user_id msg) d1 = (rc, seq, d2)" by (metis prod_cases3)
    have st: "stored sha root (fw_fs ?w1) (res_sha256 r) (res_file_size_bytes r)"
      if "r \<in> set (message_resources (fw_db ?w1))" "res_message_id r = i" for r
      by (rule session_row_stored [of d1 i s])
        (use r1 m1 assms(4) that in \<open>auto simp: rest_inv_def matched_def\<close>)
    have r2: "rest_inv sha root i (set_db d2 ?w1)"
    proof (rule CompleteResourceUpload_rest)
      show "CompleteResourceUpload i (cm_sender_user_id msg) (fw_db ?w1) = (rc, seq, d2)" using d2 by simp
    qed (fact r1, fact st)
    have m2: "matched sha root i s (set_db d2 ?w1)"
      by (rule matched_db [OF m1]) (use CompleteResourceUpload_D(1) [OF d2] in simp)
    show ?thesis
      using Found d1 d2 assms(3) r2 respond_restored_inv [OF r2 m2 assms(3)]
      by (cases rc) (simp_all add: publish_upload_def evict_inv Let_def)
  qed
qed

lemma Complete_inv:
  assumes rest: "rest_inv sha root i w" and own: "own_ok sha root i s w" and i: "i = tk_message_id task"
    and pr: "progress_ok sha root (fw_fs w) i s" and full: "us_received s = us_file_size_bytes s" "0 < us_received s"
  shows "upload_inv sha root (snd (FileWorker_CompleteResourceUpload sha root task s w))"
proof -
  let ?p = "part_of root i" and ?b = "blob_of root (us_sha256 s)"
  have fok: "fs_ok (fw_fs w)" using rest by (simp add: rest_inv_def)
  have so: "part_ok (us_file_size_bytes s) kUploadChunkSize (us_received s) (file_length (fw_fs w) ?p)"
    "digest_ok sha s (file_bytes (fw_fs w) ?p)" "session_row (fw_db w) i s"
    using own pr by (simp_all add: own_ok_def progress_ok_def)
  have len: "file_length (fw_fs w) ?p = us_received s" using so(1) full by (simp add: part_ok_def)
  then obtain c where c: "content (fw_fs w) ?p = Some c" "length c = us_received s"
    using full(2) by (auto simp: file_length_def split: option.splits)
  obtain h s1 f1 where hs: "whole_file_hash sha ?p s (fw_fs w) = (h, s1, f1)" by (metis prod_cases3)
  note W = whole_file_hash_D [OF hs fok c(1) full(1) c(2) full(2) so(2) [unfolded file_bytes_Some [OF c(1)]]]
  let ?w1 = "put_session i s1 (set_fs f1 w)"
  have same: "us_sha256 s1 = us_sha256 s" "us_file_size_bytes s1 = us_file_size_bytes s" using W(3) by (simp_all add: same_upload_def)
  have r1: "rest_inv sha root i ?w1" using rest_fs [OF rest W(1)] by simp
  have c1: "content f1 ?p = Some c" using W(2) c(1) by simp
  have o1: "own_ok sha root i s1 ?w1"
    using so session_row_same [OF so(3) W(3)] c c1 W(4,7) same full
    by (simp add: own_ok_def session_ok_def progress_ok_def file_length_def file_bytes_def)
  obtain fl f2 where f2: "FlushFileToDisk ?p f1 = (fl, f2)" by fastforce
  note Fl = FlushFileToDisk_D [OF f2]
  have k1: "keeps {?p} (fw_fs w) f1" by (rule W(1))
  have k2: "keeps {?p} f1 f2" by (rule ends2_use [OF keep_Flush [OF keeps_refl] f2]) (rule keeps_fs_ok [OF k1])
  let ?w2 = "set_fs f2 ?w1"
  have r2: "rest_inv sha root i ?w2" using rest_fs [OF r1, of f2] k2 by simp
  obtain ins f3 where f3: "install_blob sha ?p ?b s1 f2 = (ins, f3)" by fastforce
  let ?w3 = "set_fs f3 ?w2"
  have eq: "snd (FileWorker_CompleteResourceUpload sha root task s w) =
     (if h = [] then ?w1 else if h \<noteq> us_sha256 s1 then snd (content_mismatch root task s1 ?w1)
      else if \<not> fl then ?w2 else if \<not> ins then snd (respond_restored root task s1 FileWritePermissionFailed ?w3)
      else snd (publish_upload root task s1 ?w3))"
    using i hs f2 f3 same by (simp add: FileWorker_CompleteResourceUpload_def Let_def)
  consider "h = []" | "h \<noteq> []" "h \<noteq> us_sha256 s1" | "h \<noteq> []" "h = us_sha256 s1" "\<not> fl" | "h \<noteq> []" "h = us_sha256 s1" fl by blast
  then show ?thesis
  proof cases
    case 1
    then show ?thesis using eq put_inv [OF rest_fs [OF rest W(1)]] o1 by simp
  next
    case 2
    then show ?thesis using eq content_mismatch_inv [OF r1 o1 i] by simp
  next
    case 3
    have "own_ok sha root i s1 ?w2" by (rule own_fs_same [OF o1]) (simp add: Fl(1))
    then show ?thesis using eq 3 r2 by (auto simp: upload_inv_iff [of _ _ _ i])
  next
    case 4
    obtain j where j: "names f2 ?p = Some (File j)" using c1 Fl(3) by (auto elim: content_SomeE)
    have clean: "\<not> dirty f2 j" using Fl(7) 4 j Fl(3) by simp
    have pre: "?p \<notin> set (prefixes_of (parent_path ?b))"
      using blob_dirs_untouched [of ?p root "us_sha256 s" i "[]"] by auto
    have ne: "us_sha256 s1 \<noteq> []" using 4 by auto
    have c2: "content f2 ?p = Some c" using Fl(1) c1 by simp
    note I = install_blob_D [OF f3 keeps_fs_ok [OF k2] part_not_blob(1) blob_of_length(1) pre ne c2 j clean]
    have hc: "ToLowerHex (sha c) = us_sha256 s" using W(6) 4 same by simp
    have cas2: "cas_ok sha root f2" and pub2: "pub_ok sha root (fw_db w) f2" using r2 by (simp_all add: rest_inv_def)
    have cas3: "cas_ok sha root f3" by (rule cas_keeps [OF cas2 I(1)]) (use I(3) hc in auto)
    have pub3: "pub_ok sha root (fw_db w) f3" by (rule pub_keeps [OF pub2 I(1)]) (rule I(2))
    have r3: "rest_inv sha root i ?w3"
      using r2 cas3 pub3 keeps_fs_ok [OF I(1)] session_keeps [OF _ I(1)] by (auto simp: rest_inv_def)
    have m3: "matched sha root i s1 ?w3"
      using W(4,5) 4 full same ne session_row_same [OF so(3) W(3)] I(4) c(2) hc by (auto simp: matched_def)
    have st: "stored sha root (fw_fs ?w3) (us_sha256 s1) (us_file_size_bytes s1)" if ins
      using I(5) [OF that] hc c(2) full same by (auto simp: stored_def)
    show ?thesis
      using eq 4 respond_restored_inv [OF r3 m3 i] publish_upload_inv [OF r3 m3 i st] by simp
  qed
qed

subsection \<open>Chunks keep the invariant\<close>

lemma WriteUploadChunk_guarded:
  "WriteUploadChunk sha p tot chunk off d h rcv f = (Success, rcv', g) \<Longrightarrow> chunk_guards tot chunk off (length d) rcv = Success"
  by (rule ccontr) (simp add: WriteUploadChunk_def Let_def split: prod.splits)

lemma hash_append_D:
  assumes "hash_append d s f = (t, g)"
  shows "g = f \<or> g = f\<lparr>faults := tl (faults f)\<rparr>" "same_upload s t" "us_received t = us_received s"
    "us_final_hex t = us_final_hex s"
    "us_hash_valid t \<Longrightarrow> us_hash_valid s \<and> (\<exists>acc. ctx (us_hasher s) = Some acc) \<and>
       (stream_covers (us_hasher s) acc' \<longrightarrow> stream_covers (us_hasher t) (acc' @ d))"
proof -
  obtain e f1 where e: "syscall f = (e, f1)" by fastforce
  then have f1: "f1 = f\<lparr>faults := tl (faults f)\<rparr>" by (auto elim: syscallE)
  obtain ok st where u: "stream_Update (\<not> e) d (us_hasher s) = (ok, st)" by fastforce
  have tg: "(t, g) = (if us_hash_valid s then (s\<lparr>us_hasher := st, us_hash_valid := ok\<rparr>, f1) else (s, f))"
    using assms e u by (auto simp: hash_append_def split: if_splits)
  then show "g = f \<or> g = f\<lparr>faults := tl (faults f)\<rparr>" "same_upload s t" "us_received t = us_received s"
    "us_final_hex t = us_final_hex s"
    using f1 by (auto simp: same_upload_def split: if_splits)
  show "us_hash_valid t \<Longrightarrow> us_hash_valid s \<and> (\<exists>acc. ctx (us_hasher s) = Some acc) \<and>
       (stream_covers (us_hasher s) acc' \<longrightarrow> stream_covers (us_hasher t) (acc' @ d))"
    using tg u stream_Update_covers [of "us_hasher s" acc' "\<not> e" d st]
    by (auto simp: stream_Update_def split: if_splits option.splits)
qed

lemma appended_digest:
  assumes "digest_ok sha s bytes" and "us_received s \<le> length bytes" and "us_received s < us_file_size_bytes s"
    and "hash_append d (s\<lparr>us_received := us_received s + length d\<rparr>) f = (t, g)"
  shows "digest_ok sha t (take (us_received s) bytes @ d)"
proof -
  let ?acc = "take (us_received s) bytes"
  note H = hash_append_D [OF assms(4)]
  have fin: "us_final_hex s = []" using assms(1,3) by (auto simp: digest_ok_def split: if_splits)
  have cov: "us_hash_valid s \<Longrightarrow> ctx (us_hasher s) = None \<or> stream_covers (us_hasher s) ?acc"
    using assms(1) fin by (auto simp: digest_ok_def)
  have tk: "take (us_received t) (?acc @ d) = ?acc @ d" using H(3) assms(2) by simp
  show ?thesis
    using H(4) fin H(5) [of ?acc] cov tk by (auto simp: digest_ok_def)
qed

text \<open>Without its \<open>.part\<close> file a session that has made progress accepts no chunk, and stays as it is.\<close>

lemma WriteUploadChunk_missing:
  assumes run: "WriteUploadChunk sha p tot chunk off d h rcv f = (code, rcv', g)" and ok: "fs_ok f"
    and miss: "content f p = None" and pos: "0 < rcv"
  shows "code \<noteq> Success \<and> rcv' = rcv \<and> content g p = None"
proof (cases "chunk_guards tot chunk off (length d) rcv = Success")
  case False
  then have "g = f \<and> rcv' = rcv \<and> code \<noteq> Success" using run by (auto simp: WriteUploadChunk_def Let_def split: prod.splits)
  then show ?thesis using miss by simp
next
  case True
  note G = chunk_guards_Success [OF True]
  obtain e f1 where e: "syscall f = (e, f1)" by fastforce
  then have f1: "content f1 = content f" "fs_ok f1" using ok by (auto elim: syscallE)
  obtain dh f2 where dh: "HashRange sha p off (length d) f1 = (dh, f2)" by fastforce
  note H = HashRange_D [OF dh]
  obtain mk f3 where mk: "(if parent_path p = [] then (True, f1) else create_directories (parent_path p) f1) = (mk, f3)" by fastforce
  have f3: "content f3 = content f" "fs_ok f3"
    using mk f1 create_directories_D [of "parent_path p" f1 mk f3] by (auto split: if_splits)
  obtain wr f4 where wr: "WriteAndVerify p off d f3 = (wr, f4)" by fastforce
  have f4: "off \<noteq> 0 \<Longrightarrow> \<not> wr \<and> f4 = f3\<lparr>faults := tl (faults f3)\<rparr>"
    using wr f3 miss by (auto simp: WriteAndVerify_def open_existing_def syscall_def next_fault_eq Let_def)
  obtain tr f5 where tr: "TruncateUploadFile p rcv f4 = (tr, f5)" by fastforce
  have f5: "content f5 p = None" if "off \<noteq> 0"
  proof -
    have "fs_ok f4" "content f4 p = None" using f4 [OF that] f3 miss by simp_all
    then show ?thesis using TruncateUploadFile_D(2) [OF tr] by (auto split: if_splits)
  qed
  have "dh = []" using H(3) f1 miss by auto
  then have "code \<noteq> Success \<and> rcv' = rcv \<and> (g = f1 \<or> g = f2 \<or> g = f3 \<or> g = f5 \<and> off \<noteq> 0)"
    using run True e dh mk wr tr f4 G(6) pos
    by (auto simp: WriteUploadChunk_def Let_def split: if_splits)
  then show ?thesis using f1 f3 f5 H(1) miss by auto
qed

lemma write_chunk_inv:
  assumes rest: "rest_inv sha root i w" and own: "own_ok sha root i s w" and i: "i = tk_message_id task"
  shows "upload_inv sha root (snd (write_chunk sha root task s w))"
proof -
  let ?p = "part_of root i" and ?d = "tk_file_data task" and ?off = "tk_offset task"
  let ?s1 = "s\<lparr>us_challenge_active := False, us_challenge_suppressed := True\<rparr>"
  let ?tot = "us_file_size_bytes s" and ?rcv = "us_received s"
  have fok: "fs_ok (fw_fs w)" using rest by (simp add: rest_inv_def)
  have srow: "session_row (fw_db w) i s" using own by (simp add: own_ok_def)
  obtain code rcv' f1 where wr: "WriteUploadChunk sha ?p ?tot kUploadChunkSize ?off ?d (tk_chunk_sha256 task) ?rcv (fw_fs w)
      = (code, rcv', f1)" by (metis prod_cases3)
  have k1: "keeps {?p} (fw_fs w) f1" by (rule ends3_use [OF keep_WriteUploadChunk [OF keeps_refl [OF fok]] wr]) simp
  let ?s2 = "?s1\<lparr>us_received := rcv'\<rparr>"
  have row: "session_row (fw_db w) i t" if "same_upload ?s1 t" for t
    using session_row_inactive [OF srow, of t] that by (simp add: same_upload_def)
  have ok_cases: "content (fw_fs w) ?p = None \<and> 0 < ?rcv \<or> progress_ok sha root (fw_fs w) i s"
    using own by (simp add: own_ok_def session_ok_def)
  show ?thesis
  proof (cases "code = Success")
    case False
    let ?t = "?s2\<lparr>us_hash_valid := False, us_final_hex := []\<rparr>"
    have "content f1 ?p = None \<and> 0 < rcv' \<or> part_ok ?tot kUploadChunkSize rcv' (file_length f1 ?p)"
      using ok_cases WriteUploadChunk_missing [OF wr fok] WriteUploadChunk_D(3) [OF wr fok]
      by (auto simp: progress_ok_def)
    then have "own_ok sha root i ?t (set_fs f1 w)"
      using row [of ?t] by (auto simp: own_ok_def session_ok_def progress_ok_def digest_ok_def same_upload_def)
    then show ?thesis using False wr i put_inv [OF rest_fs [OF rest k1]] by (simp add: write_chunk_def)
  next
    case True
    have so: "part_ok ?tot kUploadChunkSize ?rcv (file_length (fw_fs w) ?p)" "digest_ok sha s (file_bytes (fw_fs w) ?p)"
      using ok_cases WriteUploadChunk_missing [OF wr fok] True by (auto simp: progress_ok_def)
    note W = WriteUploadChunk_D [OF wr fok so(1)]
    note G = chunk_guards_Success [OF WriteUploadChunk_guarded [OF wr [unfolded True]]]
    obtain t f2 where t: "(if ?off = ?rcv then hash_append ?d ?s2 f1 else (?s2, f1)) = (t, f2)" by fastforce
    have k2: "keeps {?p} (fw_fs w) f2" and c2: "content f2 = content f1"
      using t hash_append_D(1) [of ?d ?s2 f1] k1 by (auto simp: keep_faults split: if_splits)
    have same: "same_upload ?s1 t" "us_received t = rcv'"
      using t hash_append_D(2,3) [of ?d ?s2 f1] by (auto simp: same_upload_def split: if_splits)
    have dg: "digest_ok sha t (file_bytes f1 ?p)"
    proof (cases "?off = ?rcv")
      case app: True
      then have a: "rcv' = ?rcv + length ?d" "content f1 ?p = Some (take ?rcv (file_bytes (fw_fs w) ?p) @ ?d)"
        using W(4) True G(2) by (auto simp: chunk_appended_def chunk_repeated_def)
      have "digest_ok sha ?s1 (file_bytes (fw_fs w) ?p)" using so(2) by (auto simp: digest_ok_def)
      moreover have "us_received ?s1 \<le> length (file_bytes (fw_fs w) ?p)" using so(1) by (simp add: part_ok_def file_length_bytes)
      moreover have "?rcv < ?tot" using G(2,8) app by linarith
      then have "us_received ?s1 < us_file_size_bytes ?s1" by simp
      moreover have "hash_append ?d (?s1\<lparr>us_received := us_received ?s1 + length ?d\<rparr>) f1 = (t, f2)"
        using t app a(1) by simp
      ultimately have "digest_ok sha t (take (us_received ?s1) (file_bytes (fw_fs w) ?p) @ ?d)"
        by (rule appended_digest)
      then show ?thesis using a(2) by (simp add: file_bytes_def)
    next
      case rep: False
      then have a: "rcv' = ?rcv" "content f1 = content (fw_fs w)"
        using W(4) True by (auto simp: chunk_appended_def chunk_repeated_def)
      have "t = ?s2" using t rep by simp
      then show ?thesis using so(2) a by (auto simp: digest_ok_def file_bytes_def)
    qed
    have p2: "progress_ok sha root f2 i t"
      using W(3) same dg c2 by (simp add: progress_ok_def same_upload_def file_length_def file_bytes_def)
    then have o2: "own_ok sha root i t (set_fs f2 w)" using row [OF same(1)] by (simp add: own_ok_def session_ok_def)
    have r2: "rest_inv sha root i (set_fs f2 w)" using rest_fs [OF rest k2] .
    have eq: "snd (write_chunk sha root task s w) =
        (if us_received t = us_file_size_bytes t
         then snd (FileWorker_CompleteResourceUpload sha root task t (put_session i t (set_fs f2 w)))
         else put_session i t (set_fs f2 w))"
      using True wr t i by (simp add: write_chunk_def Let_def)
    have pos: "0 < us_received t" if "us_received t = us_file_size_bytes t"
    proof -
      have "0 < ?tot" using G(2,8) by linarith
      then show ?thesis using that same by (simp add: same_upload_def)
    qed
    show ?thesis using eq put_inv [OF r2 o2] Complete_inv [of sha root i "put_session i t (set_fs f2 w)" t task] r2 o2 p2 i pos
      by simp
  qed
qed

lemma FindUploadSession_inv:
  assumes "FindUploadSession now i w = (r, w')" and "upload_inv sha root w"
  shows "upload_inv sha root w'" "r = Some s \<Longrightarrow> own_ok sha root i s w' \<and> fw_sessions w' i = Some s"
    "r = None \<Longrightarrow> w' = w \<and> fw_sessions w i = None"
proof -
  have act: "own_ok sha root i (t\<lparr>us_last_active := now\<rparr>) w = own_ok sha root i t w" for t
    by (simp add: own_ok_def session_ok_def progress_ok_def session_row_def digest_ok_def)
  show "upload_inv sha root w'" "r = Some s \<Longrightarrow> own_ok sha root i s w' \<and> fw_sessions w' i = Some s"
    "r = None \<Longrightarrow> w' = w \<and> fw_sessions w i = None"
    using assms upload_inv_own [OF assms(2), of i] upload_inv_rest [OF assms(2), of i] act
    by (auto simp: FindUploadSession_def Let_def put_inv split: option.splits)
qed

lemma EvictIdle_inv: "upload_inv sha root w \<Longrightarrow> upload_inv sha root (EvictIdleUploadSessions index now w)"
  by (auto simp: upload_inv_def EvictIdleUploadSessions_def split: option.splits if_splits)

lemma chunk_session_inv:
  assumes "chunk_session root now uid task w = (r, w')" and "upload_inv sha root w"
    and "i = tk_message_id task" and "fw_sessions w i = None"
  shows "upload_inv sha root w'" "r = Inr s \<Longrightarrow> own_ok sha root i s w'"
proof -
  obtain found d1 where d1: "GetChatMsgById i (fw_db w) = (found, d1)" by fastforce
  have inv1: "upload_inv sha root (set_db d1 w)" using inv_get [OF assms(2) d1] .
  show "upload_inv sha root w'" "r = Inr s \<Longrightarrow> own_ok sha root i s w'"
  proof (atomize (full), cases "\<exists>msg. found = Found msg \<and> \<not> (uid = 0 \<or> uid \<noteq> cm_sender_user_id msg)
      \<and> \<not> (cm_message_type msg \<noteq> 1 \<and> cm_message_type msg \<noteq> 3) \<and> cm_status msg \<noteq> Published \<and> cm_status msg \<noteq> Failed")
    case False
    then have "w' = set_db d1 w \<and> (\<forall>s. r \<noteq> Inr s)"
      using assms(1,3) d1 by (auto simp: chunk_session_def Let_def split: ChatMsgLookup.splits if_splits)
    then show "upload_inv sha root w' \<and> (r = Inr s \<longrightarrow> own_ok sha root i s w')" using inv1 by simp
  next
    case True
    then obtain msg where msg: "found = Found msg" "\<not> (uid = 0 \<or> uid \<noteq> cm_sender_user_id msg)"
      "\<not> (cm_message_type msg \<noteq> 1 \<and> cm_message_type msg \<noteq> 3)" "cm_status msg \<noteq> Published" "cm_status msg \<noteq> Failed"
      by (elim exE conjE)
    obtain l w2 where l: "LoadUploadSession root now i msg (set_db d1 w) = (l, w2)" by fastforce
    have eq: "(r, w') = (case l of None \<Rightarrow> (Inl (chunk_reply task RPCFailed 0 None 0), w2) | Some s \<Rightarrow> (Inr s, w2))"
      using assms(1,3) d1 msg l by (auto simp: chunk_session_def split: option.splits)
    obtain res where res: "cm_resource msg = Some res" "find_resource i (fw_db w) = Some res"
      using select_message_resource GetChatMsgById_D(2) [OF d1] msg(1) by metis
    have res1: "find_resource i (fw_db (set_db d1 w)) = Some res" using res(2) GetChatMsgById_silent(3) [OF d1] by simp
    note L = LoadUploadSession_inv [OF l upload_inv_rest [OF inv1] res(1) res1]
    show "upload_inv sha root w' \<and> (r = Inr s \<longrightarrow> own_ok sha root i s w')"
      using eq L assms(4) by (cases l) (auto simp: upload_inv_iff [of _ _ _ i])
  qed
qed

lemma HandleResourceChunk_inv:
  assumes "upload_inv sha root w"
  shows "upload_inv sha root (snd (HandleResourceChunk sha root now task w))"
proof (cases "\<exists>cs. tk_session task = Some cs \<and> IsOpen (cs_lifecycle cs)")
  case False
  then show ?thesis using assms by (auto simp: HandleResourceChunk_def split: option.splits)
next
  case True
  then obtain cs where cs: "tk_session task = Some cs" "IsOpen (cs_lifecycle cs)" by blast
  let ?i = "tk_message_id task" and ?w0 = "EvictIdleUploadSessions (ResourceWorkerIndex (tk_message_id task) FILE_WORKER_COUNT) now w"
  obtain cached w1 where c: "FindUploadSession now ?i ?w0 = (cached, w1)" by fastforce
  note F = FindUploadSession_inv [OF c EvictIdle_inv [OF assms]]
  obtain r w2 where r: "(case cached of Some s \<Rightarrow> (Inr s, w1) | None \<Rightarrow> chunk_session root now (cs_user_uid cs) task w1) = (r, w2)"
    by fastforce
  have w2: "upload_inv sha root w2" "\<And>s. r = Inr s \<Longrightarrow> own_ok sha root ?i s w2"
    using r F chunk_session_inv [of root now "cs_user_uid cs" task w1 r w2 sha ?i] by (cases cached; auto)+
  have "snd (HandleResourceChunk sha root now task w) = (case r of Inl x \<Rightarrow> w2
     | Inr s \<Rightarrow> if cs_user_uid cs = 0 \<or> cs_user_uid cs \<noteq> us_sender_user_id s then w2 else snd (write_chunk sha root task s w2))"
    using cs c r by (simp add: HandleResourceChunk_def split: sum.splits)
  then show ?thesis using w2 write_chunk_inv [OF upload_inv_rest [OF w2(1)], of ?i _ task] by (auto split: sum.splits)
qed

subsection \<open>Proofs of possession keep the invariant\<close>

lemma RemoveStubPart_inv:
  assumes "rest_inv sha root i w" and "fw_sessions w i = None"
  shows "upload_inv sha root (RemoveStubPart root i w)"
proof -
  obtain rm f where r: "remove_file (part_of root i) (fw_fs w) = (rm, f)" by fastforce
  have "keeps {part_of root i} (fw_fs w) f"
    by (rule ends2_use [OF keep_remove [OF keeps_refl] r]) (use assms(1) in \<open>auto simp: rest_inv_def\<close>)
  then show ?thesis using rest_fs [OF assms(1)] r assms(2) by (auto simp: RemoveStubPart_def upload_inv_iff [of _ _ _ i])
qed

lemma RemoveStubPart_evicted:
  "rest_inv sha root i w \<Longrightarrow> upload_inv sha root (RemoveStubPart root i (EvictUploadSession i w))"
  by (rule RemoveStubPart_inv) (simp_all add: evict_inv upload_inv_rest)

lemma publish_proved_inv:
  assumes "upload_inv sha root w" and "session_row (fw_db w) i s"
    and "stored sha root (fw_fs w) (us_sha256 s) (us_file_size_bytes s)"
  shows "upload_inv sha root (snd (publish_proved root i msg res w))"
proof -
  obtain rc seq d where d: "CompleteResourceUpload i (cm_sender_user_id msg) (fw_db w) = (rc, seq, d)" by (metis prod_cases3)
  have rest: "rest_inv sha root i w" using upload_inv_rest [OF assms(1)] .
  have dok: "db_ok (fw_db w)" using rest by (simp add: rest_inv_def)
  have r: "rest_inv sha root i (set_db d w)"
  proof (rule CompleteResourceUpload_rest [OF d rest])
    fix r assume "r \<in> set (message_resources (fw_db w))" "res_message_id r = i"
    then show "stored sha root (fw_fs w) (res_sha256 r) (res_file_size_bytes r)"
      using session_row_stored [OF dok assms(2,3)] by blast
  qed
  have "upload_inv sha root (set_db d w)"
    using r upload_inv_own [OF assms(1)] own_db CompleteResourceUpload_D(1) [OF d] by (metis upload_inv_iff worker_fields(15))
  then show ?thesis using d r
    by (cases rc) (simp_all add: publish_proved_def evict_inv RemoveStubPart_evicted Let_def)
qed

lemma digest_challenge [simp]: "digest_ok sha (s\<lparr>us_challenge_active := b\<rparr>) bytes = digest_ok sha s bytes"
  "digest_ok sha (s\<lparr>us_challenge_suppressed := b\<rparr>) bytes = digest_ok sha s bytes"
  by (simp_all add: digest_ok_def)

lemma own_challenge [simp]:
  "own_ok sha root i (s\<lparr>us_challenge_suppressed := b\<rparr>) w = own_ok sha root i s w"
  "own_ok sha root i s w \<Longrightarrow> own_ok sha root i (s\<lparr>us_challenge_active := False\<rparr>) w"
  by (simp_all add: own_ok_def session_ok_def progress_ok_def session_row_def)

lemma use_challenge_inv:
  assumes "upload_inv sha root w" and "fw_sessions w i = Some s" and "us_challenge_active s"
  shows "upload_inv sha root (snd (use_challenge sha root i proof_hex msg res s w))"
proof -
  let ?s1 = "s\<lparr>us_challenge_active := False\<rparr>"
  have rest: "rest_inv sha root i w" and own: "own_ok sha root i s w"
    using upload_inv_rest [OF assms(1)] upload_inv_own [OF assms(1,2)] by simp_all
  have row: "session_row (fw_db w) i s" using own by (simp add: own_ok_def)
  then obtain r where "published_res (fw_db w) r" "res_sha256 r = us_sha256 s" "res_file_size_bytes r = us_file_size_bytes s"
    using assms(3) by (auto simp: session_row_def)
  then have st: "stored sha root (fw_fs w) (us_sha256 s) (us_file_size_bytes s)"
    using assms(1) by (auto simp: upload_inv_def pub_ok_def)
  obtain e f1 where f1: "check_proof sha (blob_of root (res_sha256 res)) proof_hex ?s1 (fw_fs w) = (e, f1)" by fastforce
  have fok: "fs_ok (fw_fs w)" using rest by (simp add: rest_inv_def)
  have k: "keeps P (fw_fs w) f1" for P using keep_check_proof [OF keeps_refl [OF fok]] f1 by (rule ends2_use)
  have r1: "rest_inv sha root i (set_fs f1 w)" using rest_fs [OF rest k] .
  have o1: "own_ok sha root i s (set_fs f1 w)" by (rule own_fs_same [OF own]) (rule keeps_content [OF k [of "{}"]], simp)
  have st1: "stored sha root f1 (us_sha256 s) (us_file_size_bytes s)" using stored_keeps [OF st k, of "{}" i "[]"] by simp
  have "upload_inv sha root (snd (publish_proved root i msg res (put_session i ?s1 (set_fs f1 w))))"
    by (rule publish_proved_inv [where s = s]) (use put_inv [OF r1 own_challenge(2) [OF o1]] row st1 in simp_all)
  then show ?thesis using f1 put_inv [OF rest] put_inv [OF r1] own o1
    by (auto simp: use_challenge_def Let_def split: option.splits)
qed

lemma HandleInstantProof_inv:
  assumes "upload_inv sha root w"
  shows "upload_inv sha root (snd (HandleInstantProof sha root now sid uid i proof_hex w))"
proof -
  obtain found d1 where d1: "GetChatMsgById i (fw_db w) = (found, d1)" by fastforce
  have inv1: "upload_inv sha root (set_db d1 w)" using inv_get [OF assms d1] .
  note rest1 = upload_inv_rest [OF inv1, of i]
  show ?thesis
    using d1 inv1 evict_inv [OF rest1] RemoveStubPart_evicted [OF rest1] use_challenge_inv [OF inv1, of i]
    by (auto simp: HandleInstantProof_def challenge_valid_def Let_def split: ChatMsgLookup.splits option.splits)
qed

end
