(* ===== verification/Upload_Progress.thy ===== *)
theory Upload_Progress
  imports Upload_Invariant
begin

text \<open>
  The progress query (1507, the closure of \<open>handleResourceUploadProgress\<close> in
  \<open>server/ResourceServer/src/ResourceLogicWorker.cpp\<close>), which also issues the challenge for an upload
  of content that the sender has already published.  The random bytes are a parameter: \<open>None\<close> where
  the generator fails, else the nonce and the eight bytes for the offset.
\<close>

datatype progress_reply =
    ProgressError ErrorCodes "MessageStatus option"
  | ProgressChallenge nat string string nat nat
  | ProgressInfo nat nat MessageStatus string "nat option"

definition challenge_length :: "nat \<Rightarrow> nat" where
  "challenge_length sz = (if sz < 64 * 1024 then sz else 64 * 1024)"

definition challenge_offset :: "nat \<Rightarrow> string \<Rightarrow> nat" where
  "challenge_offset sz off_raw =
     (let len = challenge_length sz in if len \<ge> sz then 0 else be_read off_raw mod (sz - len + 1))"

definition issue_challenge :: "nat \<Rightarrow> nat \<Rightarrow> string \<Rightarrow> nat \<Rightarrow> UploadSession \<Rightarrow> UploadSession" where
  "issue_challenge now sid nonce_raw offset s =
     s\<lparr>us_challenge_nonce_raw := nonce_raw, us_challenge_offset := offset,
       us_challenge_length := challenge_length (us_file_size_bytes s), us_challenge_active := True,
       us_challenge_session := Some sid, us_challenge_issued_at := now\<rparr>"

definition blob_has_size :: "path \<Rightarrow> nat \<Rightarrow> fs \<Rightarrow> bool \<times> fs" where
  "blob_has_size p sz f =
     (let (ok, f1) = syscall f in (ok \<and> map_option length (content f1 p) = Some sz, f1))"

definition progress_info :: "nat \<Rightarrow> ChatMessage \<Rightarrow> resource_row \<Rightarrow> progress_reply" where
  "progress_info server_offset msg res =
     ProgressInfo server_offset (res_file_size_bytes res) (cm_status msg) (res_sha256 res)
       (if cm_event_seq msg > 0 then Some (cm_event_seq msg) else None)"

text \<open>A fresh upload of a message that is pending: decide on a challenge.\<close>

definition progress_pending ::
  "path \<Rightarrow> nat \<Rightarrow> nat \<Rightarrow> nat \<Rightarrow> (string \<times> string) option \<Rightarrow> nat \<Rightarrow> ChatMessage \<Rightarrow> resource_row \<Rightarrow> UploadSession \<Rightarrow> file_worker
   \<Rightarrow> progress_reply \<times> file_worker" where
  "progress_pending root now sid uid rnd message_id msg res s w =
     (if us_received s = 0 \<and> \<not> us_challenge_suppressed s \<and> res_file_size_bytes res > 0 then
        let sha = res_sha256 res; sz = res_file_size_bytes res;
            (published, d1) = SenderHasPublishedContent uid sha sz (fw_db w); w1 = set_db d1 w in
        if published = Unknown then (ProgressError RPCFailed (Some Pending), w1)
        else
          let (hit, f1) = (if published = Yes then blob_has_size (ResourceBlobPath root sha) sz (fw_fs w1) else (False, fw_fs w1));
              w2 = set_fs f1 w1 in
          case (if hit then rnd else None) of
            Some (nonce_raw, off_raw) \<Rightarrow>
              let offset = challenge_offset sz off_raw in
              (ProgressChallenge sz sha (ToLowerHex nonce_raw) offset (challenge_length sz),
               put_session message_id (issue_challenge now sid nonce_raw offset s) w2)
          | None \<Rightarrow> (progress_info (us_received s) msg res, w2)
      else (progress_info (us_received s) msg res, w))"

definition upload_progress ::
  "path \<Rightarrow> nat \<Rightarrow> nat \<Rightarrow> nat \<Rightarrow> (string \<times> string) option \<Rightarrow> nat \<Rightarrow> file_worker \<Rightarrow> progress_reply \<times> file_worker" where
  "upload_progress root now sid uid rnd message_id w =
     (let (found, d1) = GetChatMsgById message_id (fw_db w); w1 = set_db d1 w in
      case found of
        NotFound \<Rightarrow> (ProgressError MsgIdErr None, w1)
      | Transient \<Rightarrow> (ProgressError RPCFailed None, w1)
      | Found msg \<Rightarrow>
          if uid = 0 \<or> uid \<noteq> cm_sender_user_id msg then (ProgressError ResourceForbidden None, w1)
          else if (cm_message_type msg \<noteq> 1 \<and> cm_message_type msg \<noteq> 3) \<or> cm_resource msg = None
            then (ProgressError ResourceStateInvalid None, w1)
          else
            let res = the (cm_resource msg) in
            if cm_status msg = Published then (progress_info (res_file_size_bytes res) msg res, w1)
            else if cm_status msg = Pending then
              let (cached, w2) = FindUploadSession now message_id w1;
                  (upload, w3) = (case cached of Some s \<Rightarrow> (Some s, w2) | None \<Rightarrow> LoadUploadSession root now message_id msg w2) in
              (case upload of
                 None \<Rightarrow> (ProgressError FileWritePermissionFailed None, w3)
               | Some s \<Rightarrow> progress_pending root now sid uid rnd message_id msg res s w3)
            else (ProgressError ResourceStateInvalid (Some (cm_status msg)), EvictUploadSession message_id w1))"

subsection \<open>The challenge is inside the file\<close>

lemma challenge_in_file: "challenge_offset sz off_raw + challenge_length sz \<le> sz"
proof (cases "sz \<le> challenge_length sz")
  case True
  then have "challenge_length sz = sz" by (auto simp: challenge_length_def split: if_splits)
  then show ?thesis by (simp add: challenge_offset_def)
next
  case False
  define n where "n = sz - challenge_length sz"
  have "be_read off_raw mod (n + 1) < n + 1" by (rule mod_less_divisor) simp
  moreover have "challenge_offset sz off_raw = be_read off_raw mod (n + 1)"
    using False by (simp add: challenge_offset_def n_def)
  ultimately show ?thesis using False unfolding n_def by linarith
qed

subsection \<open>The query keeps the invariant\<close>

lemma keep_blob_has_size [keep]: "keeps P f g \<Longrightarrow> ends2 (keeps P f) (blob_has_size p n g)"
  unfolding blob_has_size_def Let_def by (intro keep)

lemma published_resource_res:
  "published_resource P (\<lambda>r. res_sha256 r = h \<and> res_file_size_bytes r = n) d \<Longrightarrow>
   \<exists>r. published_res d r \<and> res_sha256 r = h \<and> res_file_size_bytes r = n"
  by (auto simp: published_resource_def published_res_def list_ex_iff)

lemma own_issue:
  assumes "own_ok sha root i s w" and "published_res (fw_db w) r" and "res_sha256 r = us_sha256 s"
    and "res_file_size_bytes r = us_file_size_bytes s"
  shows "own_ok sha root i (issue_challenge now sid nonce off s) w"
  using assms
  by (auto simp: own_ok_def session_ok_def progress_ok_def session_row_def digest_ok_def issue_challenge_def)

lemma progress_pending_inv:
  assumes inv: "upload_inv sha root w" and s: "fw_sessions w i = Some s"
    and res: "find_resource i (fw_db w) = Some res"
  shows "upload_inv sha root (snd (progress_pending root now sid uid rnd i msg res s w))"
proof -
  have own: "own_ok sha root i s w" using upload_inv_own [OF inv s] .
  have row: "us_sha256 s = res_sha256 res" "us_file_size_bytes s = res_file_size_bytes res"
    using own res by (auto simp: own_ok_def session_row_def)
  obtain pub d1 where d1: "SenderHasPublishedContent uid (res_sha256 res) (res_file_size_bytes res) (fw_db w) = (pub, d1)" by fastforce
  note S = SenderHasPublishedContent_D [OF d1]
  let ?w1 = "set_db d1 w"
  have inv1: "upload_inv sha root ?w1" 
    by (rule inv_db_silent [OF inv]) (use inv S(1) in \<open>simp_all add: upload_inv_def\<close>)
  obtain hit f1 where f1: "(if pub = Yes then blob_has_size (blob_of root (res_sha256 res)) (res_file_size_bytes res) (fw_fs ?w1)
      else (False, fw_fs ?w1)) = (hit, f1)" by fastforce
  have fok: "fs_ok (fw_fs w)" using inv by (simp add: upload_inv_def)
  have "ends2 (keeps P (fw_fs w)) (if pub = Yes then blob_has_size (blob_of root (res_sha256 res)) (res_file_size_bytes res) (fw_fs ?w1)
      else (False, fw_fs ?w1))" for P
    using fok by (intro keep) (simp_all add: keeps_refl)
  then have k: "keeps P (fw_fs w) f1" for P using f1 by (rule ends2_use)
  let ?w2 = "set_fs f1 ?w1"
  have r2: "rest_inv sha root i ?w2" using rest_fs [OF upload_inv_rest [OF inv1], of i f1] k by simp
  have o2: "own_ok sha root i s ?w2"
    by (rule own_fs_same) (use upload_inv_own [OF inv1, of i s] s keeps_content [OF k [of "{}"]] in simp_all)
  have inv2: "upload_inv sha root ?w2" using r2 o2 s by (auto simp: upload_inv_iff [of _ _ _ i])
  have put: "upload_inv sha root (put_session i (issue_challenge now sid nonce off s) ?w2)" if yes: "pub = Yes" for nonce off
  proof -
    obtain r where "published_res (fw_db w) r" "res_sha256 r = us_sha256 s" "res_file_size_bytes r = us_file_size_bytes s"
      using published_resource_res [OF S(2) [OF yes]] row by auto
    then show ?thesis using put_inv [OF r2 own_issue [OF o2]] S(1) by (simp add: published_res_def)
  qed
  have hit: "hit \<Longrightarrow> pub = Yes" using f1 by (auto split: if_splits)
  show ?thesis
    using d1 f1 inv inv1 inv2 put hit
    by (auto simp: progress_pending_def Let_def split: option.splits prod.splits)
qed

lemma upload_progress_inv:
  assumes "upload_inv sha root w"
  shows "upload_inv sha root (snd (upload_progress root now sid uid rnd i w))"
proof -
  obtain found d1 where d1: "GetChatMsgById i (fw_db w) = (found, d1)" by fastforce
  let ?w1 = "set_db d1 w"
  have inv1: "upload_inv sha root ?w1" using inv_get [OF assms d1] .
  show ?thesis
  proof (cases "\<exists>msg. found = Found msg \<and> \<not> (uid = 0 \<or> uid \<noteq> cm_sender_user_id msg)
      \<and> \<not> ((cm_message_type msg \<noteq> 1 \<and> cm_message_type msg \<noteq> 3) \<or> cm_resource msg = None) \<and> cm_status msg = Pending")
    case False
    then show ?thesis using d1 inv1 evict_inv [OF upload_inv_rest [OF inv1], of i]
      by (auto simp: upload_progress_def Let_def split: ChatMsgLookup.splits if_splits)
  next
    case True
    then obtain msg where msg: "found = Found msg" "\<not> (uid = 0 \<or> uid \<noteq> cm_sender_user_id msg)"
      "\<not> ((cm_message_type msg \<noteq> 1 \<and> cm_message_type msg \<noteq> 3) \<or> cm_resource msg = None)" "cm_status msg = Pending"
      by (elim exE conjE)
    obtain res where res: "cm_resource msg = Some res" "find_resource i (fw_db w) = Some res"
      using select_message_resource GetChatMsgById_D(2) [OF d1] msg(1) by metis
    have res1: "find_resource i d1 = Some res" using res(2) GetChatMsgById_silent(3) [OF d1] by simp
    obtain cached w2 where c: "FindUploadSession now i ?w1 = (cached, w2)" by fastforce
    note F = FindUploadSession_inv [OF c inv1]
    obtain up w3 where u: "(case cached of Some s \<Rightarrow> (Some s, w2) | None \<Rightarrow> LoadUploadSession root now i msg w2) = (up, w3)"
      by fastforce
    have eq: "snd (upload_progress root now sid uid rnd i w) = (case up of None \<Rightarrow> w3
        | Some s \<Rightarrow> snd (progress_pending root now sid uid rnd i msg res s w3))"
      using d1 msg res(1) c u by (auto simp: upload_progress_def Let_def split: option.splits)
    have db2: "fw_db w2 = d1" using c by (auto simp: FindUploadSession_def Let_def split: option.splits)
    have "upload_inv sha root w3 \<and> find_resource i (fw_db w3) = Some res \<and> (\<forall>s. up = Some s \<longrightarrow> fw_sessions w3 i = Some s)"
    proof (cases cached)
      case (Some s)
      then show ?thesis using u F db2 res1 by auto
    next
      case None
      then have l: "LoadUploadSession root now i msg w2 = (up, w3)" using u by simp
      have w2: "w2 = ?w1" "fw_sessions w2 i = None" using F(3) None by auto
      note L = LoadUploadSession_inv [OF l upload_inv_rest [OF F(1)] res(1)]
      have "fw_db w3 = d1" using l db2 res(1)
        by (auto simp: LoadUploadSession_def Let_def split: prod.splits if_splits)
      then show ?thesis using L res1 db2 w2(2) by (cases up) (auto simp: upload_inv_iff [of _ _ w3 i])
    qed
    then show ?thesis using eq progress_pending_inv [of sha root w3 i _ res] by (auto split: option.splits)
  qed
qed

end
