(* ===== verification/Resource_Cleanup.thy ===== *)
theory Resource_Cleanup
  imports Upload_Progress
begin

text \<open>
  The cleanup task of the resource server (\<open>RunResourceCleanup\<close> in
  \<open>server/ResourceServer/src/ResourceServer.cpp\<close>): expiring old pending uploads page by page, and
  deleting stale \<open>.part\<close> files and blobs without a published reference.  Modification times are a
  parameter (0 where the file is missing or cannot be examined), as are the regular files that the
  directory iterator yields, given relative to the storage root.
\<close>

definition kResourceRetentionSeconds :: nat where
  "kResourceRetentionSeconds = 7 * 24 * 3600"

definition kCleanupPageSize :: nat where
  "kCleanupPageSize = 200"

definition stale :: "(path \<Rightarrow> nat) \<Rightarrow> nat \<Rightarrow> path \<Rightarrow> bool" where
  "stale mtime now p \<longleftrightarrow> mtime p = 0 \<or> mtime p < now - kResourceRetentionSeconds"

definition expire_page :: "path \<Rightarrow> (path \<Rightarrow> nat) \<Rightarrow> nat \<Rightarrow> ExpiredResource list \<Rightarrow> db \<Rightarrow> bool \<times> nat \<times> db" where
  "expire_page root mtime now page d =
     (let to_expire = filter (\<lambda>item. stale mtime now (ResourceUploadingPartPath root (ex_message_id item))) page;
          (ok, d1) = (if to_expire \<noteq> [] then MarkResourceExpired to_expire d else (True, d))
      in (ok, length to_expire, d1))"

text \<open>The rows behind the cursor; \<open>None\<close> is the start.\<close>

definition after :: "nat option \<Rightarrow> nat \<Rightarrow> message_row \<Rightarrow> bool" where
  "after created_at message_id r \<longleftrightarrow>
     (case created_at of None \<Rightarrow> True | Some a \<Rightarrow> (a, message_id) < (msg_created_at r, msg_id r))"

definition rows_left :: "nat option \<Rightarrow> nat \<Rightarrow> db \<Rightarrow> nat" where
  "rows_left created_at message_id d = length (filter (after created_at message_id) (chat_messages d))"

lemma GetExpired_D:
  assumes "GetExpiredResourceIds before ca mid limit d = (r, d')"
  shows "d' = d\<lparr>outcomes := tl (outcomes d)\<rparr>"
    and "r = Some page \<Longrightarrow> page = map (\<lambda>r. \<lparr>ex_message_id = msg_id r, ex_sender_user_id = msg_sender r, ex_created_at = msg_created_at r\<rparr>)
           (take limit (sort_key (\<lambda>r. (msg_created_at r, msg_id r))
             (filter (\<lambda>r. msg_status r = Pending \<and> (msg_type r = 1 \<or> msg_type r = 3) \<and> msg_created_at r < before
                \<and> after ca mid r) (chat_messages d))))"
proof -
  let ?hits = "\<lambda>d. filter (\<lambda>r. msg_status r = Pending \<and> (msg_type r = 1 \<or> msg_type r = 3) \<and> msg_created_at r < before
      \<and> (case ca of None \<Rightarrow> True | Some a \<Rightarrow> msg_created_at r > a \<or> (msg_created_at r = a \<and> msg_id r > mid))) (chat_messages d)"
  let ?b = "\<lambda>d. map (\<lambda>r. \<lparr>ex_message_id = msg_id r, ex_sender_user_id = msg_sender r, ex_created_at = msg_created_at r\<rparr>)
      (take limit (sort_key (\<lambda>r. (msg_created_at r, msg_id r)) (?hits d)))"
  obtain x d1 where q: "query ?b d = (x, d1)" by fastforce
  note Q = query_D [OF q]
  have eq: "(r, d') = (case x of Inl _ \<Rightarrow> None | Inr rows \<Rightarrow> Some rows, d1)"
    using assms q by (auto simp: GetExpiredResourceIds_def Let_def split: sum.splits)
  then show "d' = d\<lparr>outcomes := tl (outcomes d)\<rparr>" using Q(1) by simp
  have aft: "after ca mid r \<longleftrightarrow> (case ca of None \<Rightarrow> True | Some a \<Rightarrow> msg_created_at r > a \<or> (msg_created_at r = a \<and> msg_id r > mid))" for r
    by (auto simp: after_def split: option.split)
  show "r = Some page \<Longrightarrow> page = map (\<lambda>r. \<lparr>ex_message_id = msg_id r, ex_sender_user_id = msg_sender r, ex_created_at = msg_created_at r\<rparr>)
           (take limit (sort_key (\<lambda>r. (msg_created_at r, msg_id r))
             (filter (\<lambda>r. msg_status r = Pending \<and> (msg_type r = 1 \<or> msg_type r = 3) \<and> msg_created_at r < before
                \<and> after ca mid r) (chat_messages d))))"
    using eq Q(2) by (auto simp: aft split: sum.splits)
qed

lemma rows_left_evolves:
  assumes "evolves P d d'"
  shows "rows_left ca mid d' = rows_left ca mid d"
proof -
  have key: "status_step P r r' \<Longrightarrow> after ca mid r' = after ca mid r" for r r'
    using status_step_id [of P r r'] by (cases r; cases r') (auto simp: status_step_def after_def split: option.split)
  have "list_all2 (status_step P) xs ys \<Longrightarrow> length (filter (after ca mid) ys) = length (filter (after ca mid) xs)" for xs ys
    by (induction rule: list_all2_induct) (auto simp: key)
  then show ?thesis using assms by (simp add: rows_left_def evolves_def)
qed

lemma expire_page_D:
  assumes "expire_page root mtime now page d = (ok, n, d')"
  shows "evolves (\<lambda>_. False) d d'" "db_ok d \<Longrightarrow> db_ok d'"
  using assms MarkResourceExpired_D by (auto simp: expire_page_def Let_def split: if_splits prod.splits)

lemma after_trans:
  "after ca mid l \<Longrightarrow> after (Some (msg_created_at l)) (msg_id l) r \<Longrightarrow> after ca mid r"
  by (auto simp: after_def split: option.splits)

lemma rows_left_after:
  assumes "l \<in> set (chat_messages d)" and "after ca mid l"
  shows "rows_left (Some (msg_created_at l)) (msg_id l) d < rows_left ca mid d"
proof -
  let ?new = "after (Some (msg_created_at l)) (msg_id l)"
  have "filter ?new (chat_messages d) = filter ?new (filter (after ca mid) (chat_messages d))"
    unfolding filter_filter using after_trans [OF assms(2)] by (intro filter_cong) blast+
  moreover have "length (filter ?new (filter (after ca mid) (chat_messages d))) < length (filter (after ca mid) (chat_messages d))"
    by (rule length_filter_less [of l]) (use assms in \<open>auto simp: after_def\<close>)
  ultimately show ?thesis by (simp add: rows_left_def)
qed

lemma last_on_page:
  assumes "GetExpiredResourceIds before ca mid limit d = (Some page, d1)" and "page \<noteq> []"
  obtains l where "l \<in> set (chat_messages d)" "after ca mid l"
    "ex_created_at (last page) = msg_created_at l" "ex_message_id (last page) = msg_id l"
proof -
  define rows where "rows = take limit (sort_key (\<lambda>r. (msg_created_at r, msg_id r))
     (filter (\<lambda>r. msg_status r = Pending \<and> (msg_type r = 1 \<or> msg_type r = 3) \<and> msg_created_at r < before
        \<and> after ca mid r) (chat_messages d)))"
  have page: "page = map (\<lambda>r. \<lparr>ex_message_id = msg_id r, ex_sender_user_id = msg_sender r, ex_created_at = msg_created_at r\<rparr>) rows"
    unfolding rows_def using GetExpired_D(2) [OF assms(1)] by blast
  then have ne: "rows \<noteq> []" using assms(2) by simp
  have "set rows \<subseteq> {r \<in> set (chat_messages d). after ca mid r}"
    unfolding rows_def by (auto dest: in_set_takeD)
  then have "last rows \<in> set (chat_messages d)" "after ca mid (last rows)" using last_in_set [OF ne] by auto
  then show thesis using that page ne by (simp add: last_map)
qed

lemma rows_left_less:
  assumes "GetExpiredResourceIds before ca mid limit d = (Some page, d1)" and "page \<noteq> []"
  shows "rows_left (Some (ex_created_at (last page))) (ex_message_id (last page)) d < rows_left ca mid d"
  using last_on_page [OF assms] rows_left_after by metis

lemma page_after:
  assumes "GetExpiredResourceIds before ca mid limit d = (Some page, d1)" and "page \<noteq> []"
    and "after (Some (ex_created_at (last page))) (ex_message_id (last page)) r"
  shows "after ca mid r"
  using last_on_page [OF assms(1,2)] assms(3) after_trans by metis

function cleanup_expire ::
  "path \<Rightarrow> (path \<Rightarrow> nat) \<Rightarrow> nat \<Rightarrow> nat option \<Rightarrow> nat \<Rightarrow> nat \<Rightarrow> db \<Rightarrow> nat \<times> db" where
  "cleanup_expire root mtime now cursor_created_at cursor_message_id expired_total d =
     (case GetExpiredResourceIds (now - kResourceRetentionSeconds) cursor_created_at cursor_message_id kCleanupPageSize d of
        (None, d1) \<Rightarrow> (expired_total, d1)
      | (Some page, d1) \<Rightarrow>
          if page = [] then (expired_total, d1)
          else
            (case expire_page root mtime now page d1 of
               (ok, n, d2) \<Rightarrow>
                 if \<not> ok then (expired_total, d2)
                 else if length page < kCleanupPageSize then (expired_total + n, d2)
                 else cleanup_expire root mtime now (Some (ex_created_at (last page))) (ex_message_id (last page))
                        (expired_total + n) d2))"
  by pat_completeness auto
termination
proof (relation "measure (\<lambda>(root, mtime, now, ca, mid, t, d). rows_left ca mid d)", goal_cases)
  case 1
  then show ?case by simp
next
  case (2 root mtime now ca mid t d p d1 page ok e n d2)
  have get: "GetExpiredResourceIds (now - kResourceRetentionSeconds) ca mid kCleanupPageSize d = (Some page, d1)"
    and page: "expire_page root mtime now page d1 = (ok, n, d2)" and ne: "page \<noteq> []"
    using 2 by simp_all
  have "chat_messages d1 = chat_messages d" using GetExpired_D(1) [OF get] by simp
  then have "rows_left ca' mid' d2 = rows_left ca' mid' d" for ca' mid'
    using rows_left_evolves [OF expire_page_D(1) [OF page]] by (simp add: rows_left_def)
  then show ?case using rows_left_less [OF get ne] by simp
qed

declare cleanup_expire.simps [simp del]

definition filename :: "path \<Rightarrow> string" where
  "filename p = (if p = [] then [] else last p)"

definition cleanup_file :: "path \<Rightarrow> (path \<Rightarrow> nat) \<Rightarrow> nat \<Rightarrow> path \<Rightarrow> file_worker \<Rightarrow> file_worker" where
  "cleanup_file root mtime now rel w =
     (let p = root @ rel; parent_dir = filename (parent_path p); name = filename p;
          in_uploading = (parent_dir = ''uploading'');
          in_blobs = (length parent_dir = 2 \<and> filename (parent_path (parent_path p)) = ''blobs'') in
      if content (fw_fs w) p = None then w
      else if \<not> in_uploading \<and> \<not> in_blobs then w
      else if mtime p = 0 \<or> mtime p \<ge> now - kResourceRetentionSeconds then w
      else if in_uploading then
        (if length name \<le> 5 \<or> drop (length name - 5) name \<noteq> ''.part'' then w
         else set_fs (snd (remove_file p (fw_fs w))) w)
      else if length name \<noteq> 64 then w
      else
        let (ref, d1) = BlobHasPublishedReference name (fw_db w); w1 = set_db d1 w in
        if ref \<noteq> No then w1 else set_fs (snd (remove_file p (fw_fs w1))) w1)"

definition RunResourceCleanup :: "path \<Rightarrow> (path \<Rightarrow> nat) \<Rightarrow> nat \<Rightarrow> path list \<Rightarrow> file_worker \<Rightarrow> file_worker" where
  "RunResourceCleanup root mtime now entries w =
     (let (n, d1) = cleanup_expire root mtime now None 0 0 (fw_db w); w1 = set_db d1 w in
      if \<not> is_directory root (fw_fs w1) then w1 else fold (cleanup_file root mtime now) entries w1)"

subsection \<open>The invariant\<close>

lemma cleanup_expire_evolves:
  "evolves (\<lambda>_. False) d (snd (cleanup_expire root mtime now ca mid t d))
   \<and> (db_ok d \<longrightarrow> db_ok (snd (cleanup_expire root mtime now ca mid t d)))"
proof (induction root mtime now ca mid t d rule: cleanup_expire.induct)
  case (1 root mtime now ca mid t d)
  obtain p d1 where g: "GetExpiredResourceIds (now - kResourceRetentionSeconds) ca mid kCleanupPageSize d = (p, d1)" by fastforce
  have d1: "evolves (\<lambda>_. False) d d1" "db_ok d1 = db_ok d" using GetExpired_D(1) [OF g] by simp_all
  show ?case
  proof (cases "p = None \<or> p = Some []")
    case True
    then show ?thesis using g d1 by (auto simp: cleanup_expire.simps [of root])
  next
    case False
    then obtain page where page: "p = Some page" "page \<noteq> []" by (cases p) auto
    obtain ok n d2 where e: "expire_page root mtime now page d1 = (ok, n, d2)" by (metis prod_cases3)
    note D = expire_page_D [OF e]
    have d2: "evolves (\<lambda>_. False) d d2" "db_ok d \<longrightarrow> db_ok d2" using evolves_trans [OF d1(1) D(1)] D(2) d1(2) by auto
    show ?thesis
    proof (cases "ok \<and> \<not> length page < kCleanupPageSize")
      case True
      then show ?thesis
        using 1 [OF g [symmetric] page(1) page(2) e [symmetric] refl] d2 g page e
        by (auto simp: cleanup_expire.simps [of root mtime now ca] intro: evolves_trans)
    next
      case False
      then show ?thesis using d2 g page e by (auto simp: cleanup_expire.simps [of root])
    qed
  qed
qed

lemma stored_removed:
  assumes "stored sha root f h n" and "keeps {p} f g" and "blob_of root h \<noteq> p" and "content f p \<noteq> None"
  shows "stored sha root g h n"
proof -
  have du: "file_durable f (blob_of root h)" using assms(1) by (simp add: stored_def)
  have reg: "names f p \<noteq> Some Dir" using assms(4) by (auto simp: content_def)
  have "file_durable g (blob_of root h)"
  proof (rule touches_durable [of "{p}" f g])
    show "touches {p} f g" using assms(2) by (simp add: keeps_def)
    show "r \<notin> {p}" if "r \<in> set (prefixes_of (parent_path (blob_of root h)))" "length r \<ge> 2" for r
      using du reg that by (auto simp: file_durable_def dir_durable_def)
  qed (use du assms(3) in auto)
  then show ?thesis using assms(1) keeps_content [OF assms(2), of "blob_of root h"] assms(3) by (auto simp: stored_def)
qed

lemma session_removed:
  assumes "session_ok sha root f i s" and "content g = (if ok then (content f)(p := None) else content f)"
  shows "session_ok sha root g i s"
proof (cases "ok \<and> part_of root i = p")
  case True
  then have gone: "content g (part_of root i) = None" using assms(2) by simp
  have "progress_ok sha root g i s" if "us_received s = 0" "progress_ok sha root f i s"
    using that gone by (auto simp: progress_ok_def digest_ok_def part_ok_def file_length_def split: if_splits)
  then show ?thesis using assms(1) gone by (auto simp: session_ok_def)
next
  case False
  then have "content g (part_of root i) = content f (part_of root i)" using assms(2) by auto
  then show ?thesis using assms(1) by (simp add: session_ok_def progress_ok_def file_length_def file_bytes_def)
qed

lemma remove_inv:
  assumes inv: "upload_inv sha root w" and "content (fw_fs w) p \<noteq> None"
    and keep: "\<And>r. published_res (fw_db w) r \<Longrightarrow> blob_of root (res_sha256 r) \<noteq> p"
  shows "upload_inv sha root (set_fs (snd (remove_file p (fw_fs w))) w)"
proof -
  have ok: "fs_ok (fw_fs w)" using inv by (simp add: upload_inv_def)
  obtain b g where r: "remove_file p (fw_fs w) = (b, g)" by fastforce
  note R = remove_file_D [OF r ok]
  have k: "keeps {p} (fw_fs w) g" by (rule ends2_use [OF keep_remove [OF keeps_refl [OF ok]] r]) simp
  have "pub_ok sha root (fw_db w) g"
    using inv keep stored_removed [OF _ k _ assms(2)] unfolding upload_inv_def pub_ok_def by blast
  moreover have "cas_ok sha root g" using inv R(2) by (auto simp: upload_inv_def cas_ok_def split: if_splits)
  ultimately show ?thesis using inv R(1) session_removed [OF _ R(2)] r by (auto simp: upload_inv_def)
qed

text \<open>What one file of the disk pass does: nothing but a query, or the removal of a file that no published
  row refers to.\<close>

lemma cleanup_file_cases:
  obtains (keep) xs where "cleanup_file root mtime now rel w = set_db ((fw_db w)\<lparr>outcomes := xs\<rparr>) w"
  | (remove) xs where "cleanup_file root mtime now rel w =
        set_fs (snd (remove_file (root @ rel) (fw_fs w))) (set_db ((fw_db w)\<lparr>outcomes := xs\<rparr>) w)"
      "content (fw_fs w) (root @ rel) \<noteq> None"
      "\<And>r. published_res (fw_db w) r \<Longrightarrow> blob_of root (res_sha256 r) \<noteq> root @ rel"
proof -
  let ?p = "root @ rel"
  obtain ref d1 where b: "BlobHasPublishedReference (filename ?p) (fw_db w) = (ref, d1)" by fastforce
  note B = BlobHasPublishedReference_D [OF b]
  have same: "set_db ((fw_db w)\<lparr>outcomes := outcomes (fw_db w)\<rparr>) w = w" by (simp add: set_db_def)
  have up: "blob_of root h \<noteq> ?p" if "filename (parent_path ?p) = ''uploading''" for h
  proof
    assume "blob_of root h = ?p"
    then have "filename (parent_path (blob_of root h)) = ''uploading''" using that by simp
    then have "length (take 2 h) = 9" by (simp add: filename_def)
    then show False by simp
  qed
  have blob: "blob_of root (res_sha256 r) \<noteq> ?p" if "ref = No" "published_res (fw_db w) r" for r
  proof
    assume "blob_of root (res_sha256 r) = ?p"
    then have "filename ?p = filename (blob_of root (res_sha256 r))" by simp
    then have "res_sha256 r = filename ?p" by (simp add: filename_def ResourceBlobPath_def)
    then show False using B(2) that by (auto simp: published_resource_def published_res_def list_ex_iff)
  qed
  have part: thesis if "filename (parent_path ?p) = ''uploading''" "content (fw_fs w) ?p \<noteq> None"
      "cleanup_file root mtime now rel w = set_fs (snd (remove_file ?p (fw_fs w))) w"
    using remove [of "outcomes (fw_db w)"] up that unfolding same by blast
  have orphan: thesis if "ref = No" "content (fw_fs w) ?p \<noteq> None"
      "cleanup_file root mtime now rel w = set_fs (snd (remove_file ?p (fw_fs w))) (set_db d1 w)"
    using remove [of "tl (outcomes (fw_db w))"] blob that B(1) by blast
  have none: thesis if "cleanup_file root mtime now rel w = w \<or> cleanup_file root mtime now rel w = set_db d1 w"
    using keep [of "outcomes (fw_db w)"] keep [of "tl (outcomes (fw_db w))"] that B(1) unfolding same by blast
  show thesis
  proof (cases "content (fw_fs w) ?p = None")
    case True
    then show ?thesis using none by (simp add: cleanup_file_def Let_def)
  next
    case False
    show ?thesis
    proof (cases "filename (parent_path ?p) = ''uploading''")
      case True
      then have "cleanup_file root mtime now rel w = w \<or> cleanup_file root mtime now rel w = set_fs (snd (remove_file ?p (fw_fs w))) w"
        by (simp add: cleanup_file_def Let_def)
      then show ?thesis using part [OF True False] none by blast
    next
      case up: False
      have "cleanup_file root mtime now rel w \<in> {w, set_db d1 w}
          \<or> ref = No \<and> cleanup_file root mtime now rel w = set_fs (snd (remove_file ?p (fw_fs w))) (set_db d1 w)"
        using up b by (simp add: cleanup_file_def Let_def)
      then show ?thesis using orphan [OF _ False] none by blast
    qed
  qed
qed

lemma cleanup_file_inv:
  assumes inv: "upload_inv sha root w"
  shows "upload_inv sha root (cleanup_file root mtime now rel w)"
proof -
  have query: "upload_inv sha root (set_db ((fw_db w)\<lparr>outcomes := xs\<rparr>) w)" for xs
    using inv_db_silent [OF inv, of "(fw_db w)\<lparr>outcomes := xs\<rparr>"] inv by (simp add: upload_inv_def)
  show ?thesis
  proof (cases rule: cleanup_file_cases [of root mtime now rel w])
    case (keep xs)
    then show ?thesis using query by simp
  next
    case (remove xs)
    then show ?thesis using remove_inv [OF query [of xs], of "root @ rel"] by (simp add: published_res_def)
  qed
qed

lemma RunResourceCleanup_inv:
  assumes "upload_inv sha root w"
  shows "upload_inv sha root (RunResourceCleanup root mtime now entries w)"
proof -
  obtain n d1 where c: "cleanup_expire root mtime now None 0 0 (fw_db w) = (n, d1)" by fastforce
  have w1: "upload_inv sha root (set_db d1 w)"
    using inv_db_silent [OF assms, of d1] cleanup_expire_evolves [of "fw_db w" root mtime now None 0 0] assms c
    by (simp add: upload_inv_def)
  have "upload_inv sha root v \<Longrightarrow> upload_inv sha root (fold (cleanup_file root mtime now) es v)" for es v
    by (induction es arbitrary: v) (auto simp: cleanup_file_inv)
  then show ?thesis using w1 c by (simp add: RunResourceCleanup_def Let_def)
qed

subsection \<open>Every stale upload is expired\<close>

definition due :: "path \<Rightarrow> (path \<Rightarrow> nat) \<Rightarrow> nat \<Rightarrow> message_row \<Rightarrow> bool" where
  "due root mtime now r \<longleftrightarrow> msg_status r = Pending \<and> (msg_type r = 1 \<or> msg_type r = 3)
     \<and> msg_created_at r < now - kResourceRetentionSeconds \<and> stale mtime now (part_of root (msg_id r))"

definition expire_if :: "(message_row \<Rightarrow> bool) \<Rightarrow> message_row \<Rightarrow> message_row" where
  "expire_if P r = (if P r then r\<lparr>msg_status := Failed\<rparr> else r)"

lemma expire_if_fields [simp]:
  "msg_id (expire_if P r) = msg_id r" "msg_type (expire_if P r) = msg_type r"
  "msg_created_at (expire_if P r) = msg_created_at r"
  by (simp_all add: expire_if_def)

lemma expire_none [simp]: "expire_if (\<lambda>r. False) = (\<lambda>r. r)"
  by (simp add: expire_if_def fun_eq_iff)

lemma due_expire [simp]: "due root mtime now (expire_if P r) \<longleftrightarrow> due root mtime now r \<and> \<not> P r"
  by (simp add: expire_if_def due_def)

lemma after_expire [simp]: "after ca mid (expire_if P r) \<longleftrightarrow> after ca mid r"
  by (cases ca) (simp_all add: after_def)

lemma expire_expire: "expire_if P (expire_if Q r) = (if Q r then expire_if Q r else expire_if P r)"
  if "P (expire_if Q r) \<Longrightarrow> \<not> Q r"
  using that by (simp add: expire_if_def)

lemma fold_fail_pending_eq:
  "fold (\<lambda>i d. snd (fail_pending (ex_message_id i) d)) items d =
     d\<lparr>chat_messages := map (expire_if (\<lambda>r. msg_status r = Pending \<and> msg_id r \<in> ex_message_id ` set items)) (chat_messages d)\<rparr>"
proof (induction items arbitrary: d)
  case Nil
  then show ?case by (simp add: expire_if_def)
next
  case (Cons i items)
  then show ?case by (auto simp: fail_pending_def update_rows_def Let_def expire_if_def intro!: arg_cong [where f = "\<lambda>x. d\<lparr>chat_messages := x\<rparr>"])
qed

lemma MarkResourceExpired_eq:
  assumes "outcomes d = []"
  shows "MarkResourceExpired items d = (True, d\<lparr>chat_messages :=
     map (expire_if (\<lambda>r. msg_status r = Pending \<and> msg_id r \<in> ex_message_id ` set items)) (chat_messages d)\<rparr>)"
proof -
  have "d\<lparr>outcomes := []\<rparr> = d" using assms by (cases d) simp
  then show ?thesis using assms
    by (auto simp: MarkResourceExpired_def transact_def next_outcome_eq fold_fail_pending_eq expire_if_def)
qed

text \<open>A page of the rows in key order: what is not on it comes after its last row.\<close>

lemma page_split:
  fixes f :: "'a \<Rightarrow> 'k :: linorder"
  assumes "sorted (map f xs)" and "distinct (map f xs)" and "take n xs \<noteq> []" and "x \<in> set xs"
  shows "x \<in> set (take n xs) \<longleftrightarrow> \<not> f (last (take n xs)) < f x"
proof -
  let ?l = "last (take n xs)"
  have l: "?l \<in> set (take n xs)" using assms(3) by (rule last_in_set)
  have split: "sorted (map f (take n xs) @ map f (drop n xs))" "distinct (map f (take n xs) @ map f (drop n xs))"
    using assms(1,2) by (simp_all flip: map_append)
  have "f y \<le> f ?l" if "y \<in> set (take n xs)" for y
  proof -
    have "take n xs = butlast (take n xs) @ [?l]" using assms(3) by simp
    then have "sorted (map f (butlast (take n xs)) @ [f ?l])" using split(1) by (metis list.simps(8,9) map_append sorted_append)
    moreover have "y \<in> set (butlast (take n xs)) \<or> y = ?l" using that assms(3) by (metis in_set_conv_decomp append_butlast_last_id in_set_butlast_appendI rotate1.simps(2) set_ConsD set_rotate1)
    ultimately show ?thesis by (auto simp: sorted_append)
  qed
  moreover have "f ?l < f y" if "y \<in> set (drop n xs)" for y
  proof -
    have "f ?l \<le> f y" using split(1) l that by (auto simp: sorted_append)
    moreover have "f ?l \<noteq> f y" using split(2) l that by (auto simp: image_iff disjoint_iff)
    ultimately show ?thesis by simp
  qed
  moreover have "x \<in> set (take n xs) \<or> x \<in> set (drop n xs)" using assms(4) by (metis Un_iff append_take_drop_id set_append)
  ultimately show ?thesis by (metis leD)
qed

definition msg_key :: "message_row \<Rightarrow> nat \<times> nat" where
  "msg_key r = (msg_created_at r, msg_id r)"

lemma sort_key_Nil: "sort_key f xs = [] \<longleftrightarrow> xs = []"
  by (metis set_empty set_sort)

lemma page_rows:
  fixes d :: db
  assumes get: "GetExpiredResourceIds before ca mid limit d = (Some page, d1)"
    and ids: "distinct (map msg_id (chat_messages d))" and ne: "page \<noteq> []"
  obtains rows where
    "page = map (\<lambda>r. \<lparr>ex_message_id = msg_id r, ex_sender_user_id = msg_sender r, ex_created_at = msg_created_at r\<rparr>) rows"
    "distinct rows"
    "set rows = {r \<in> set (chat_messages d). msg_status r = Pending \<and> (msg_type r = 1 \<or> msg_type r = 3)
       \<and> msg_created_at r < before \<and> after ca mid r
       \<and> (length page < limit \<or> \<not> after (Some (ex_created_at (last page))) (ex_message_id (last page)) r)}"
proof -
  define elig where "elig = (\<lambda>r. msg_status r = Pending \<and> (msg_type r = 1 \<or> msg_type r = 3)
     \<and> msg_created_at r < before \<and> after ca mid r)"
  define xs where "xs = sort_key msg_key (filter elig (chat_messages d))"
  define rows where "rows = take limit xs"
  have page: "page = map (\<lambda>r. \<lparr>ex_message_id = msg_id r, ex_sender_user_id = msg_sender r, ex_created_at = msg_created_at r\<rparr>) rows"
    unfolding rows_def xs_def elig_def msg_key_def using GetExpired_D(2) [OF get] by blast
  have dist: "distinct (chat_messages d)" using ids by (simp add: distinct_map)
  have "inj_on msg_id (set (chat_messages d))" using ids by (simp add: distinct_map)
  then have inj: "inj_on msg_key (set (chat_messages d))" by (auto simp: inj_on_def msg_key_def)
  have xs: "set xs = {r \<in> set (chat_messages d). elig r}" "distinct xs" "sorted (map msg_key xs)"
    using dist by (auto simp: xs_def)
  have dk: "distinct (map msg_key xs)" using xs(1,2) inj by (auto simp: distinct_map intro: inj_on_subset)
  have rne: "take limit xs \<noteq> []" using ne page rows_def by simp
  have last: "(ex_created_at (last page), ex_message_id (last page)) = msg_key (last rows)"
    using page ne by (simp add: last_map msg_key_def)
  have "set rows = {r \<in> set (chat_messages d). elig r \<and> (length page < limit \<or> \<not> msg_key (last rows) < msg_key r)}"
  proof (cases "length page < limit")
    case True
    then have "rows = xs" using page by (simp add: rows_def)
    then show ?thesis using True xs(1) by auto
  next
    case False
    then show ?thesis
      using page_split [OF xs(3) dk rne] xs(1) set_take_subset [of limit xs] by (auto simp: rows_def)
  qed
  then have "set rows = {r \<in> set (chat_messages d). msg_status r = Pending \<and> (msg_type r = 1 \<or> msg_type r = 3)
       \<and> msg_created_at r < before \<and> after ca mid r
       \<and> (length page < limit \<or> \<not> after (Some (ex_created_at (last page))) (ex_message_id (last page)) r)}"
    unfolding elig_def using last by (auto simp: after_def msg_key_def)
  then show thesis using that page xs(2) by (simp add: rows_def)
qed

lemma expire_page_eq:
  fixes d :: db
  assumes get: "GetExpiredResourceIds (now - kResourceRetentionSeconds) ca mid limit d = (Some page, d1)"
    and quiet: "outcomes d = []" and ids: "distinct (map msg_id (chat_messages d))"
    and run: "expire_page root mtime now page d1 = (ok, n, d2)" and ne: "page \<noteq> []"
  defines "done r \<equiv> due root mtime now r \<and> after ca mid r
     \<and> (length page < limit \<or> \<not> after (Some (ex_created_at (last page))) (ex_message_id (last page)) r)"
  shows "ok" "n = length (filter done (chat_messages d))"
    "d2 = d\<lparr>chat_messages := map (expire_if done) (chat_messages d)\<rparr>"
proof -
  define late where "late = (\<lambda>r :: message_row. stale mtime now (part_of root (msg_id r)))"
  obtain rows where page: "page = map (\<lambda>r. \<lparr>ex_message_id = msg_id r, ex_sender_user_id = msg_sender r, ex_created_at = msg_created_at r\<rparr>) rows"
    and dr: "distinct rows"
    and sr: "set rows = {r \<in> set (chat_messages d). msg_status r = Pending \<and> (msg_type r = 1 \<or> msg_type r = 3)
       \<and> msg_created_at r < now - kResourceRetentionSeconds \<and> after ca mid r
       \<and> (length page < limit \<or> \<not> after (Some (ex_created_at (last page))) (ex_message_id (last page)) r)}"
    by (rule page_rows [OF get ids ne])
  have rows: "{r \<in> set rows. late r} = {r \<in> set (chat_messages d). done r}"
    unfolding sr done_def due_def late_def by blast
  have dist: "distinct (chat_messages d)" using ids by (simp add: distinct_map)
  have d1: "d1 = d" using GetExpired_D(1) [OF get] quiet by (cases d) simp
  define te where "te = filter (\<lambda>item. stale mtime now (ResourceUploadingPartPath root (ex_message_id item))) page"
  have te: "ex_message_id ` set te = msg_id ` {r \<in> set rows. late r}" "length te = length (filter late rows)"
    unfolding te_def page late_def by (force simp: filter_map comp_def)+
  have "n = length te \<and> (ok, d2) = MarkResourceExpired te d"
    using run unfolding expire_page_def te_def [symmetric] d1 Let_def by (auto simp: MarkResourceExpired_def split: if_splits prod.splits)
  then have res: "n = length te" "ok" "d2 = d\<lparr>chat_messages := map (expire_if (\<lambda>r. msg_status r = Pending \<and> msg_id r \<in> ex_message_id ` set te)) (chat_messages d)\<rparr>"
    unfolding MarkResourceExpired_eq [OF quiet] by simp_all
  from res(2) show ok .
  have "length te = card {r \<in> set rows. late r}" using te(2) dr by (simp add: distinct_length_filter Collect_conj_eq Int_commute)
  also have "\<dots> = length (filter done (chat_messages d))"
    unfolding rows using dist by (simp add: distinct_length_filter Collect_conj_eq Int_commute)
  finally show "n = length (filter done (chat_messages d))" using res(1) by simp
  have "msg_status r = Pending \<and> msg_id r \<in> ex_message_id ` set te \<longleftrightarrow> done r" if "r \<in> set (chat_messages d)" for r
    unfolding te rows using that ids by (auto simp: distinct_map inj_on_def done_def due_def)
  then show "d2 = d\<lparr>chat_messages := map (expire_if done) (chat_messages d)\<rparr>"
    using res(3) by (auto simp: expire_if_def intro!: arg_cong [where f = "\<lambda>x. d\<lparr>chat_messages := x\<rparr>"])
qed

lemma cleanup_expire_all:
  fixes d :: db
  assumes "outcomes d = []" and "distinct (map msg_id (chat_messages d))"
  shows "cleanup_expire root mtime now ca mid t d =
     (t + length (filter (\<lambda>r. due root mtime now r \<and> after ca mid r) (chat_messages d)),
      d\<lparr>chat_messages := map (expire_if (\<lambda>r. due root mtime now r \<and> after ca mid r)) (chat_messages d)\<rparr>)"
  using assms
proof (induction root mtime now ca mid t d rule: cleanup_expire.induct)
  case (1 root mtime now ca mid t d)
  let ?due = "\<lambda>ca mid r. due root mtime now r \<and> after ca mid r"
  obtain p d1 where g: "GetExpiredResourceIds (now - kResourceRetentionSeconds) ca mid kCleanupPageSize d = (p, d1)" by fastforce
  then obtain page where p: "p = Some page" using 1(2)
    by (auto simp: GetExpiredResourceIds_def query_def transact_def next_outcome_eq)
  have d1: "d1 = d" using GetExpired_D(1) [OF g] 1(2) by (cases d) simp
  show ?case
  proof (cases "page = []")
    case True
    then have "\<forall>r \<in> set (chat_messages d). \<not> ?due ca mid r"
      using GetExpired_D(2) [OF g p] by (auto simp: kCleanupPageSize_def due_def filter_empty_conv sort_key_Nil)
    then have "filter (?due ca mid) (chat_messages d) = []" "map (expire_if (?due ca mid)) (chat_messages d) = chat_messages d"
      by (auto simp: filter_empty_conv expire_if_def intro!: map_idI)
    then show ?thesis using g p True d1 by (simp add: cleanup_expire.simps [of root])
  next
    case False
    obtain ok n d2 where e: "expire_page root mtime now page d1 = (ok, n, d2)" by (metis prod_cases3)
    let ?ca = "Some (ex_created_at (last page))" and ?mid = "ex_message_id (last page)"
    note E = expire_page_eq [OF g [unfolded p] 1(2,3) e False]
    show ?thesis
    proof (cases "length page < kCleanupPageSize")
      case True
      then show ?thesis using E g p False e by (simp add: cleanup_expire.simps [of root])
    next
      case more: False
      have IH: "cleanup_expire root mtime now ?ca ?mid (t + n) d2 =
          (t + n + length (filter (?due ?ca ?mid) (chat_messages d2)),
           d2\<lparr>chat_messages := map (expire_if (?due ?ca ?mid)) (chat_messages d2)\<rparr>)"
        using 1(1) [OF g [symmetric] p False e [symmetric] refl] E(1,3) more 1(2,3) by (simp add: comp_def)
      have later: "after ?ca ?mid r \<Longrightarrow> after ca mid r" for r
        using page_after [OF g [unfolded p] False] .
      define Q where "Q = (\<lambda>r. due root mtime now r \<and> after ca mid r \<and> \<not> after ?ca ?mid r)"
      have d2: "d2 = d\<lparr>chat_messages := map (expire_if Q) (chat_messages d)\<rparr>" "n = length (filter Q (chat_messages d))"
        using E(2,3) more by (simp_all add: Q_def)
      have two: "expire_if (?due ?ca ?mid) (expire_if Q r) = expire_if (?due ca mid) r" for r
        using later [of r] by (subst expire_expire) (auto simp: Q_def, auto simp: expire_if_def)
      have count: "length (filter (?due ca mid) xs) = length (filter Q xs) + length (filter (?due ?ca ?mid) (map (expire_if Q) xs))" for xs
        using later by (induction xs) (auto simp: Q_def)
      have "cleanup_expire root mtime now ca mid t d = cleanup_expire root mtime now ?ca ?mid (t + n) d2"
        using E(1) more g p False e by (simp add: cleanup_expire.simps [of root mtime now ca])
      then show ?thesis unfolding IH using d2 count [of "chat_messages d"] two by (simp add: comp_def)
    qed
  qed
qed

subsection \<open>Properties\<close>

text \<open>
  C9.  When the database answers, one round of the cleanup task marks exactly the uploads that are
  due: pending file messages that are older than the retention time and whose \<open>.part\<close> file is
  missing or was not touched for that time.  The paging with the cursor \<open>(created_at, message_id)\<close>
  skips no row and visits none twice, however many pages there are, and the counter is their number.
\<close>

theorem cleanup_expires_exactly_due:
  assumes "db_ok d" and "outcomes d = []"
  shows "cleanup_expire root mtime now None 0 0 d =
     (length (filter (due root mtime now) (chat_messages d)),
      d\<lparr>chat_messages := map (expire_if (due root mtime now)) (chat_messages d)\<rparr>)"
proof -
  have "distinct (map msg_id (chat_messages d))" using assms(1) by (simp add: db_ok_def keys_ok_def)
  from cleanup_expire_all [OF assms(2) this, of root mtime now None 0 0] show ?thesis by (simp add: after_def)
qed

theorem cleanup_expires_exactly_due_witness:
  "fst (cleanup_expire [''r''] (\<lambda>_. 0) 900000 None 0 0 (demo_db\<lparr>outcomes := []\<rparr>)) = 1"
proof -
  have "db_ok (demo_db\<lparr>outcomes := []\<rparr>)" "outcomes (demo_db\<lparr>outcomes := []\<rparr>) = []" by (simp_all add: demo_db_ok)
  from cleanup_expires_exactly_due [OF this] show ?thesis
    by (simp only: fst_conv) (simp add: demo_db_def due_def stale_def kResourceRetentionSeconds_def)
qed

end
