(* ===== verification/Avatar_Upload.thy ===== *)
theory Avatar_Upload
  imports Upload_Progress
begin

text \<open>
  Avatar uploads (\<open>handle_head_icon\<close> in File_Worker) next to the resource store: the configuration
  keeps the directory of the avatars and the resource root apart, and then an avatar upload affects
  no upload in progress and no published file, and of the tables only the avatar name of the user.
\<close>

definition outside :: "path \<Rightarrow> path \<Rightarrow> bool" where
  "outside root p \<longleftrightarrow> (\<forall>q r. root @ q \<noteq> p @ r)"

lemma outside_paths:
  assumes "outside root p"
  shows "blob_of root h \<noteq> p" and "part_of root i \<noteq> p" and "r \<in> set (prefixes_of (root @ q)) \<Longrightarrow> r \<noteq> p"
proof -
  have no: "root @ q \<noteq> p @ r" for q r using assms by (simp add: outside_def)
  show "blob_of root h \<noteq> p" "part_of root i \<noteq> p"
    using no [of _ "[]"] by (auto simp: ResourceBlobPath_def ResourceUploadingPartPath_def)
  show "r \<noteq> p" if "r \<in> set (prefixes_of (root @ q))" using that no [of q] by (auto simp: set_prefixes_of)
qed

lemma stored_outside:
  assumes "stored sha root f h n" and "keeps {p} f g" and "outside root p"
  shows "stored sha root g h n"
proof -
  have "file_durable g (blob_of root h)"
  proof (rule touches_durable [of "{p}" f g])
    show "touches {p} f g" using assms(2) by (simp add: keeps_def)
    show "r \<notin> {p}" if "r \<in> set (prefixes_of (parent_path (blob_of root h)))" for r
      using outside_paths(3) [OF assms(3), of r] that by auto
  qed (use assms outside_paths(1) [OF assms(3)] in \<open>auto simp: stored_def\<close>)
  then show ?thesis
    using assms(1) keeps_content [OF assms(2), of "blob_of root h"] outside_paths(1) [OF assms(3), of h] by (auto simp: stored_def)
qed

lemma inv_outside:
  assumes inv: "upload_inv sha root w" and k: "keeps {p} (fw_fs w) f" and out: "outside root p"
  shows "upload_inv sha root (set_fs f w)"
proof -
  have "cas_ok sha root f"
    using inv keeps_content [OF k] outside_paths(1) [OF out] by (simp add: upload_inv_def cas_ok_def)
  moreover have "pub_ok sha root (fw_db w) f"
    using inv stored_outside [OF _ k out] by (auto simp: upload_inv_def pub_ok_def)
  ultimately show ?thesis
    using inv keeps_fs_ok [OF k] session_keeps [OF _ k] outside_paths(2) [OF out] by (auto simp: upload_inv_def)
qed

subsection \<open>What an avatar upload changes\<close>

lemma keep_open_trunc [keep]: "keeps P f g \<Longrightarrow> p \<in> P \<Longrightarrow> ends2 (keeps P f) (open_trunc p g)"
  unfolding open_trunc_def Let_def by (intro keep)

text \<open>Everything but the users agrees, and the users but for their avatar.\<close>

definition avatar_change :: "db \<Rightarrow> db \<Rightarrow> bool" where
  "avatar_change d d' \<longleftrightarrow>
     (\<exists>g xs. d' = d\<lparr>users := map (\<lambda>r. r\<lparr>usr_avatar_key := g r\<rparr>) (users d), outcomes := xs\<rparr>)"

lemma avatar_change_refl: "avatar_change d (d\<lparr>outcomes := xs\<rparr>)"
  unfolding avatar_change_def by (rule exI [of _ usr_avatar_key], rule exI [of _ xs]) simp

lemma avatar_change_trans:
  assumes "avatar_change d d1" and "avatar_change d1 d2"
  shows "avatar_change d d2"
proof -
  obtain g xs where d1: "d1 = d\<lparr>users := map (\<lambda>r. r\<lparr>usr_avatar_key := g r\<rparr>) (users d), outcomes := xs\<rparr>"
    using assms(1) by (auto simp: avatar_change_def)
  obtain h ys where d2: "d2 = d1\<lparr>users := map (\<lambda>r. r\<lparr>usr_avatar_key := h r\<rparr>) (users d1), outcomes := ys\<rparr>"
    using assms(2) by (auto simp: avatar_change_def)
  show ?thesis unfolding avatar_change_def
    by (rule exI [of _ "\<lambda>r. h (r\<lparr>usr_avatar_key := g r\<rparr>)"], rule exI [of _ ys]) (simp add: d1 d2 o_def)
qed

lemma avatar_change_ok:
  assumes "avatar_change d d'" and "db_ok d"
  shows "db_ok d'"
proof -
  obtain g xs where d': "d' = d\<lparr>users := map (\<lambda>r. r\<lparr>usr_avatar_key := g r\<rparr>) (users d), outcomes := xs\<rparr>"
    using assms(1) by (auto simp: avatar_change_def)
  have "find_user u d = None \<longleftrightarrow> find_user u d' = None" for u
    by (auto simp: d' find_user_def find_None_iff)
  moreover have "find_message m d' = find_message m d" "find_chat t d' = find_chat t d"
    "message_events d' = message_events d" "event_seqs d' = event_seqs d" for m t
    by (simp_all add: d' find_message_def find_chat_def message_events_def event_seqs_def fun_eq_iff)
  moreover have "map usr_id (users d') = map usr_id (users d)"
    "user_events d' = user_events d" "chat_messages d' = chat_messages d" "message_resources d' = message_resources d"
    "private_chats d' = private_chats d" by (simp_all add: d' o_def)
  moreover have "events_ok d'" using assms(2) calculation(5) by (simp add: d' db_ok_def events_ok_def event_seqs_def)
  ultimately show ?thesis
    using assms(2) unfolding db_ok_def keys_ok_def publication_ok_def by presburger
qed

lemma UpdateHeadInfo_change: "avatar_change d (snd (UpdateHeadInfo u k d))"
proof -
  let ?g = "\<lambda>r. if usr_id r = u then k else usr_avatar_key r"
  have eq: "map (\<lambda>r. if usr_id r = u then r\<lparr>usr_avatar_key := k\<rparr> else r) rs = map (\<lambda>r. r\<lparr>usr_avatar_key := ?g r\<rparr>) rs" for rs
    by simp
  have "avatar_change d (d\<lparr>users := map (\<lambda>r. r\<lparr>usr_avatar_key := ?g r\<rparr>) (users d), outcomes := xs\<rparr>)" for xs
    unfolding avatar_change_def by (rule exI, rule exI, rule refl)
  moreover have "snd (UpdateHeadInfo u k d) \<in> {d\<lparr>outcomes := tl (outcomes d)\<rparr>,
      d\<lparr>users := map (\<lambda>r. r\<lparr>usr_avatar_key := ?g r\<rparr>) (users d), outcomes := tl (outcomes d)\<rparr>}"
    unfolding UpdateHeadInfo_def transact_def next_outcome_eq update_rows_def eq [symmetric]
    by (simp add: Let_def split: txn_outcome.split)
  ultimately show ?thesis using avatar_change_refl by auto
qed

lemma GetUser_change: "avatar_change d (snd (GetUser u d))"
  using avatar_change_refl
  by (auto simp: GetUser_def query_def transact_def next_outcome_eq Let_def split: txn_outcome.split)

lemmas icon_keep = keep_syscall [THEN ends_snd] keep_create_directories [THEN ends_snd]
  keep_open_trunc [THEN ends_snd] keep_open_append [THEN ends_snd] keep_write_at [THEN ends_snd]

lemma head_icon_change:
  defines "v w task \<equiv> snd (snd (handle_head_icon task w))"
  assumes "fs_ok (fw_fs w)"
  shows "keeps {ft_path task} (fw_fs w) (fw_fs (v w task))" and "avatar_change (fw_db w) (fw_db (v w task))"
    and "fw_sessions (v w task) = fw_sessions w"
proof -
  show "keeps {ft_path task} (fw_fs w) (fw_fs (v w task))"
    using keeps_refl [OF assms(2)]
    by (simp add: v_def handle_head_icon_def Let_def case_prod_beta icon_keep split: option.split)
  have "avatar_change (fw_db w) (fw_db w)" using avatar_change_refl [of "fw_db w" "outcomes (fw_db w)"] by simp
  then show "avatar_change (fw_db w) (fw_db (v w task))"
    using avatar_change_trans [OF UpdateHeadInfo_change GetUser_change]
    by (simp add: v_def handle_head_icon_def Let_def case_prod_beta split: option.split)
  show "fw_sessions (v w task) = fw_sessions w"
    by (simp add: v_def handle_head_icon_def Let_def case_prod_beta split: option.split)
qed

lemma avatar_change_rows:
  assumes "avatar_change d d'"
  shows "find_resource i d' = find_resource i d" "find_message i d' = find_message i d" "find_chat t d' = find_chat t d"
    "published_res d' = published_res d" "session_row d' i s = session_row d i s"
proof -
  show r: "find_resource i d' = find_resource i d" "find_message i d' = find_message i d" "find_chat t d' = find_chat t d"
    and p: "published_res d' = published_res d" for i t
    using assms by (auto simp: avatar_change_def find_resource_def find_message_def find_chat_def published_res_def)
  show "session_row d' i s = session_row d i s" unfolding session_row_def r p ..
qed

lemma head_icon_inv:
  assumes inv: "upload_inv sha root w" and "outside root (ft_path task)"
  shows "upload_inv sha root (snd (snd (handle_head_icon task w)))"
proof -
  have ok: "fs_ok (fw_fs w)" using inv by (simp add: upload_inv_def)
  let ?v = "snd (snd (handle_head_icon task w))"
  note C = head_icon_change [OF ok, of task]
  have "upload_inv sha root (set_fs (fw_fs ?v) w)" by (rule inv_outside [OF inv C(1) assms(2)])
  then show ?thesis
    using C(3) avatar_change_ok [OF C(2)] avatar_change_rows [OF C(2)] by (simp add: upload_inv_def pub_ok_def)
qed

end
