(* ===== verification/Resource_System.thy ===== *)
theory Resource_System
  imports Resource_Cleanup Avatar_Upload "HOL-Library.Code_Target_Nat"
begin

text \<open>
  The upload side of the resource server as a transition system: the handlers of the file worker
  and of the logic worker, the cleanup task, the writes of the other servers to the shared
  database, restarts and power failures, in any order.  Every transition is one handler run to its
  end; the results of system calls and database calls inside it come from the oracle lists of the
  state, which the transition \<open>world\<close> may set to anything.
\<close>

subsection \<open>What the other servers do to the database\<close>

text \<open>
  The chat server adds users, chats, messages and file placeholders and publishes messages without
  a file; it neither removes or changes a message, a chat or a resource row nor publishes or retracts
  a file message.
\<close>

definition db_env :: "db \<Rightarrow> db \<Rightarrow> bool" where
  "db_env d d' \<longleftrightarrow> db_ok d' \<and> (\<forall>i r. find_resource i d = Some r \<longrightarrow> find_resource i d' = Some r)
     \<and> (\<forall>i m. find_message i d = Some m \<longrightarrow> find_message i d' = Some m)
     \<and> (\<forall>t c. find_chat t d = Some c \<longrightarrow> find_chat t d' = Some c)
     \<and> (\<forall>r. published_res d' r \<longleftrightarrow> published_res d r)"

lemma db_env_refl: "db_ok d \<Longrightarrow> db_env d d"
  by (simp add: db_env_def)

lemma db_env_trans: "db_env d d1 \<Longrightarrow> db_env d1 d2 \<Longrightarrow> db_env d d2"
  by (simp add: db_env_def)

inductive server_step :: "(string \<Rightarrow> string) \<Rightarrow> path \<Rightarrow> file_worker \<Rightarrow> file_worker \<Rightarrow> bool"
  for sha :: "string \<Rightarrow> string" and root :: path where
  step_chunk: "server_step sha root w (snd (HandleResourceChunk sha root now task w))"
| step_proof: "server_step sha root w (snd (HandleInstantProof sha root now sid uid i proof_hex w))"
| step_progress: "server_step sha root w (snd (upload_progress root now sid uid rnd i w))"
| step_icon: "outside root (ft_path icon) \<Longrightarrow> server_step sha root w (snd (snd (handle_head_icon icon w)))"
| step_evict: "server_step sha root w (EvictIdleUploadSessions index now w)"
| step_cleanup: "server_step sha root w (RunResourceCleanup root mtime now entries w)"
| step_cleanup_file: "server_step sha root w (cleanup_file root mtime now rel w)"
| step_database: "db_env (fw_db w) d \<Longrightarrow> server_step sha root w (set_db d w)"
| step_world: "server_step sha root w
     (w\<lparr>fw_fs := (fw_fs w)\<lparr>faults := fa\<rparr>, fw_db := (fw_db w)\<lparr>outcomes := oc\<rparr>\<rparr>)"
| step_restart: "server_step sha root w (w\<lparr>fw_sessions := \<lambda>_. None\<rparr>)"
| step_crash: "crash (fw_fs w) f \<Longrightarrow> fs_ok f \<Longrightarrow> cas_ok sha root f \<Longrightarrow>
     server_step sha root w (w\<lparr>fw_fs := f, fw_sessions := \<lambda>_. None\<rparr>)"

text \<open>
  The two conditions on the state after a power failure are: no file has two names, which a failure
  between \<open>link\<close> and \<open>unlink\<close> of one move can violate, and no blob is torn.  A server starts without
  sessions on a store that holds the files that are published, in particular on an empty store with
  no published file.
\<close>

definition server_start :: "(string \<Rightarrow> string) \<Rightarrow> path \<Rightarrow> file_worker \<Rightarrow> bool" where
  "server_start sha root w \<longleftrightarrow> fs_ok (fw_fs w) \<and> db_ok (fw_db w) \<and> cas_ok sha root (fw_fs w)
     \<and> pub_ok sha root (fw_db w) (fw_fs w) \<and> (\<forall>i. fw_sessions w i = None)"

subsection \<open>Invariance\<close>

lemma inv_env:
  assumes "upload_inv sha root w" and "db_env (fw_db w) d"
  shows "upload_inv sha root (set_db d w)"
proof -
  have "session_row d i s" if "session_row (fw_db w) i s" for i s
    using that assms(2) unfolding session_row_def db_env_def by metis
  then show ?thesis using assms by (auto simp: upload_inv_def db_env_def pub_ok_def)
qed

lemma inv_world:
  assumes "upload_inv sha root w"
  shows "upload_inv sha root (w\<lparr>fw_fs := (fw_fs w)\<lparr>faults := fa\<rparr>, fw_db := (fw_db w)\<lparr>outcomes := oc\<rparr>\<rparr>)"
proof -
  have c: "content (f\<lparr>faults := fa\<rparr>) = content f" for f by (simp add: content_def fun_eq_iff)
  have d: "file_durable (f\<lparr>faults := fa\<rparr>) p = file_durable f p" for f p by (simp add: file_durable_def dir_durable_def)
  show ?thesis using assms
    by (auto simp: upload_inv_def cas_ok_def pub_ok_def stored_def session_ok_def progress_ok_def session_row_def
        published_res_def file_length_def file_bytes_def find_resource_def c d)
qed

lemma stored_crash: "stored sha root f h n \<Longrightarrow> crash f g \<Longrightarrow> stored sha root g h n"
  using crash_keeps_durable [of f g "blob_of root h"] by (auto simp: stored_def)

lemma inv_crash:
  assumes "upload_inv sha root w" and "crash (fw_fs w) f" and "fs_ok f" and "cas_ok sha root f"
  shows "upload_inv sha root (w\<lparr>fw_fs := f, fw_sessions := \<lambda>_. None\<rparr>)"
  using assms stored_crash [OF _ assms(2)] by (auto simp: upload_inv_def pub_ok_def)

interpretation server: invariant_system "server_start sha root" "server_step sha root" "upload_inv sha root"
  for sha root
proof unfold_locales
  show "upload_inv sha root w" if "server_start sha root w" for w
    using that by (auto simp: server_start_def upload_inv_def pub_ok_def)
  show "upload_inv sha root v" if "upload_inv sha root w" "server_step sha root w v" for w v
    using that(2,1)
  proof cases
    case step_evict
    then show ?thesis using that(1) EvictIdle_inv by simp
  next
    case step_restart
    then show ?thesis using that(1) by (simp add: upload_inv_def)
  qed (simp_all add: that(1) HandleResourceChunk_inv HandleInstantProof_inv upload_progress_inv RunResourceCleanup_inv
      cleanup_file_inv head_icon_inv inv_env inv_world inv_crash)
qed

subsection \<open>Acknowledgements\<close>

text \<open>A reply with the status \<open>Published\<close> is sent only where the row of the message is published.\<close>

definition row_published :: "nat \<Rightarrow> db \<Rightarrow> bool" where
  "row_published i d \<longleftrightarrow>
     (\<exists>m res. find_message i d = Some m \<and> msg_status m = Published \<and> find_resource i d = Some res)"

definition ack_ok :: "nat \<Rightarrow> reply option \<times> file_worker \<Rightarrow> bool" where
  "ack_ok i x \<longleftrightarrow> (\<forall>r. fst x = Some r \<longrightarrow> rp_status r = Some Published \<longrightarrow> row_published i (fw_db (snd x)))"

lemma chunk_reply_status [simp]: "rp_status (chunk_reply task e n st q) = st"
  by (simp add: chunk_reply_def)

lemma proof_reply_status [simp]: "rp_status (proof_reply i e st) = Some st"
  by (simp add: proof_reply_def)

lemma ack_quiet: "rp_status r \<noteq> Some Published \<Longrightarrow> ack_ok i (Some r, w)"
  by (simp add: ack_ok_def)

lemma ack_None [simp]: "ack_ok i (None, w)"
  by (simp add: ack_ok_def)

lemma published_as_row: "published_as i u seq d \<Longrightarrow> row_published i d"
  by (auto simp: published_as_def row_published_def)

lemma find_message_outcomes [simp]: "find_message i (d\<lparr>outcomes := xs\<rparr>) = find_message i d"
  by (simp add: find_message_def)

lemma find_resource_outcomes [simp]: "find_resource i (d\<lparr>outcomes := xs\<rparr>) = find_resource i d"
  by (simp add: find_resource_def)

lemma found_published:
  assumes "GetChatMsgById i d = (Found msg, d')" and "cm_status msg = Published"
  shows "row_published i d'"
  using GetChatMsgById_D(1,2) [OF assms(1)] assms(2)
  by (auto simp: select_message_def row_published_def Let_def split: option.splits)

lemma published_row_res:
  assumes "row_published i d" and "find_resource i d = Some r"
  shows "published_res d r"
proof -
  obtain m where m: "find_message i d = Some m" "msg_status m = Published" using assms(1) by (auto simp: row_published_def)
  have "msg_id m = i" "m \<in> set (chat_messages d)"
    using find_SomeD [of _ "chat_messages d" m] m(1) unfolding find_message_def by auto
  moreover have "res_message_id r = i" "r \<in> set (message_resources d)"
    using find_SomeD [of _ "message_resources d" r] assms(2) unfolding find_resource_def by auto
  ultimately show ?thesis using m(2) by (auto simp: published_res_def)
qed

lemma ack_restored: "e \<noteq> Success \<Longrightarrow> ack_ok i (respond_restored root task s e w)"
  by (simp add: respond_restored_def Let_def case_prod_beta ack_ok_def)

lemma ack_mismatch: "ack_ok i (content_mismatch root task s w)"
  by (simp add: content_mismatch_def Let_def case_prod_beta ack_ok_def)

lemma ack_publish_upload:
  assumes "db_ok (fw_db w)" and i: "i = tk_message_id task"
  shows "ack_ok i (publish_upload root task s w)"
proof -
  obtain found d1 where d1: "GetChatMsgById i (fw_db w) = (found, d1)" by fastforce
  have ok1: "db_ok d1" using GetChatMsgById_silent(2) [OF d1] assms(1) by simp
  show ?thesis
  proof (cases found)
    case (Found msg)
    obtain rc seq d2 where d2: "CompleteResourceUpload i (cm_sender_user_id msg) d1 = (rc, seq, d2)" by (metis prod_cases3)
    have "rc = Pub_Published \<or> rc = Pub_AlreadyPublished \<Longrightarrow> row_published i d2"
      using CompleteResourceUpload_D(3) [OF d2 ok1] published_as_row by blast
    then show ?thesis using Found d1 d2 i ack_restored [of RPCFailed]
      by (cases rc) (auto simp: publish_upload_def Let_def intro: ack_quiet, auto simp: ack_ok_def)
  qed (use d1 i ack_restored [of RPCFailed] in \<open>auto simp: publish_upload_def intro: ack_quiet\<close>)
qed

lemma ack_complete:
  assumes "db_ok (fw_db w)" and "i = tk_message_id task"
  shows "ack_ok i (FileWorker_CompleteResourceUpload sha root task s w)"
  using ack_publish_upload [OF _ assms(2)] assms(1) ack_restored [of FileWritePermissionFailed] ack_mismatch
  by (simp add: FileWorker_CompleteResourceUpload_def Let_def case_prod_beta ack_quiet)

lemma ack_write_chunk:
  assumes "db_ok (fw_db w)" and "i = tk_message_id task"
  shows "ack_ok i (write_chunk sha root task s w)"
  using ack_complete [OF _ assms(2)] assms(1)
  by (simp add: write_chunk_def Let_def case_prod_beta ack_quiet)

lemma LoadUploadSession_db: "LoadUploadSession root now i msg w = (x, w') \<Longrightarrow> fw_db w' = fw_db w"
  by (auto simp: LoadUploadSession_def Let_def case_prod_beta split: option.splits if_splits)

lemma ack_chunk_session:
  assumes "db_ok (fw_db w)" and "chunk_session root now uid task w = (x, w')"
  shows "db_ok (fw_db w')" "x = Inl r \<Longrightarrow> ack_ok (tk_message_id task) (Some r, w')"
proof -
  obtain found d1 where d1: "GetChatMsgById (tk_message_id task) (fw_db w) = (found, d1)" by fastforce
  have ok1: "db_ok d1" using GetChatMsgById_silent(2) [OF d1] assms(1) by simp
  have pub: "found = Found msg \<Longrightarrow> cm_status msg = Published \<Longrightarrow> row_published (tk_message_id task) d1" for msg
    using found_published d1 by blast
  show "db_ok (fw_db w')"
    using assms(2) d1 ok1 LoadUploadSession_db [of root now "tk_message_id task" _ "set_db d1 w"]
    by (auto simp: chunk_session_def Let_def split: ChatMsgLookup.splits if_splits option.splits prod.splits)
  show "x = Inl r \<Longrightarrow> ack_ok (tk_message_id task) (Some r, w')"
    using assms(2) d1 pub
    by (auto simp: chunk_session_def Let_def ack_ok_def split: ChatMsgLookup.splits if_splits option.splits prod.splits)
qed

lemma ack_chunk:
  assumes "db_ok (fw_db w)"
  shows "ack_ok (tk_message_id task) (HandleResourceChunk sha root now task w)"
proof (cases "\<exists>cs. tk_session task = Some cs \<and> IsOpen (cs_lifecycle cs)")
  case False
  then show ?thesis by (auto simp: HandleResourceChunk_def split: option.splits)
next
  case True
  then obtain cs where cs: "tk_session task = Some cs" "IsOpen (cs_lifecycle cs)" by blast
  obtain cached w1 where f: "FindUploadSession now (tk_message_id task) (EvictIdleUploadSessions (ResourceWorkerIndex (tk_message_id task) FILE_WORKER_COUNT) now w) = (cached, w1)" by fastforce
  have db1: "db_ok (fw_db w1)"
    using f assms by (auto simp: FindUploadSession_def EvictIdleUploadSessions_def Let_def split: option.splits)
  obtain loaded w2 where l: "(case cached of Some s \<Rightarrow> (Inr s, w1) | None \<Rightarrow> chunk_session root now (cs_user_uid cs) task w1) = (loaded, w2)"
    by fastforce
  have db2: "db_ok (fw_db w2)" and inl: "\<And>r. loaded = Inl r \<Longrightarrow> ack_ok (tk_message_id task) (Some r, w2)"
    using l db1 ack_chunk_session [OF db1] by (auto split: option.splits)
  show ?thesis
    using cs f l inl ack_write_chunk [OF db2 refl]
    by (cases loaded) (auto simp: HandleResourceChunk_def Let_def intro: ack_quiet)
qed

subsection \<open>Properties of uploads\<close>

lemma stored_published:
  assumes "reach (server_start sha root) (server_step sha root) w" and "published_res (fw_db w) r"
  shows "stored sha root (fw_fs w) (res_sha256 r) (res_file_size_bytes r)"
  using server.inv_reach [OF assms(1)] assms(2) by (auto simp: upload_inv_def pub_ok_def)

definition demo_upload_db :: db where
  "demo_upload_db = demo_db\<lparr>outcomes := [],
     message_resources := [\<lparr>res_message_id = 9, res_original_file_name = ''f'', res_file_size_bytes = 3,
                            res_sha256 = ToLowerHex (demo_sha ''abc''), res_mime_type = ''m''\<rparr>]\<rparr>"

definition demo_server :: file_worker where
  "demo_server = \<lparr>fw_fs = demo_fs, fw_db = demo_upload_db, fw_sessions = (\<lambda>_. None), fw_notified = []\<rparr>"

definition demo_task :: ResourceChunkTask where
  "demo_task = \<lparr>tk_session = Some ((CSession_new 7)\<lparr>cs_user_uid := 1\<rparr>), tk_message_id = 9, tk_offset = 0,
     tk_chunk_sha256 = ToLowerHex (demo_sha ''abc''), tk_file_data = ''abc''\<rparr>"

definition demo_after :: file_worker where
  "demo_after = snd (HandleResourceChunk demo_sha [''r''] 100 demo_task demo_server)"

lemma demo_start: "server_start demo_sha [''r''] demo_server"
proof -
  have "db_ok demo_upload_db"
    by (simp add: db_ok_def keys_ok_def events_ok_def publication_ok_def event_seqs_def message_events_def
        find_message_def demo_upload_db_def demo_db_def)
  moreover have "\<not> published_res demo_upload_db r" for r
    by (simp add: published_res_def demo_upload_db_def demo_db_def)
  moreover have "fs_ok demo_fs" "cas_ok demo_sha [''r''] demo_fs"
    by (simp_all add: fs_ok_def fs_wf_def no_alias_def cas_ok_def content_def demo_fs_def ResourceBlobPath_def)
  ultimately show ?thesis by (simp add: server_start_def demo_server_def pub_ok_def)
qed

lemma demo_reached: "reach (server_start demo_sha [''r'']) (server_step demo_sha [''r'']) demo_after"
  unfolding demo_after_def by (blast intro: reach.intros demo_start step_chunk)

lemma demo_reply:
  "map_option rp_status (fst (HandleResourceChunk demo_sha [''r''] 100 demo_task demo_server)) = Some (Some Published)"
  by code_simp

lemma demo_row:
  "find_resource 9 (fw_db demo_after) = Some \<lparr>res_message_id = 9, res_original_file_name = ''f'', res_file_size_bytes = 3,
     res_sha256 = ToLowerHex (demo_sha ''abc''), res_mime_type = ''m''\<rparr>"
  by code_simp

lemma demo_published: "row_published 9 (fw_db demo_after)"
proof -
  have "ack_ok 9 (HandleResourceChunk demo_sha [''r''] 100 demo_task demo_server)"
    using ack_chunk [of demo_server demo_task demo_sha "[''r'']" 100] demo_start
    by (simp add: server_start_def demo_task_def)
  then show ?thesis using demo_reply by (auto simp: ack_ok_def demo_after_def)
qed

lemma crash_none: "\<exists>f. crash g f"
  unfolding crash_def
  by (rule exI [of _ "g\<lparr>dnames := names g, dirty := \<lambda>_. False\<rparr>"]) simp





subsection \<open>Proof of possession\<close>

text \<open>The answer to a challenge: the digest of the nonce and the challenged section of the file.\<close>

definition answers_challenge :: "(string \<Rightarrow> string) \<Rightarrow> UploadSession \<Rightarrow> string \<Rightarrow> string \<Rightarrow> bool" where
  "answers_challenge sha s c proof_hex \<longleftrightarrow>
     length (window (us_challenge_offset s) (us_challenge_length s) c) = us_challenge_length s
     \<and> proof_hex = ToLowerHex (sha (us_challenge_nonce_raw s @ window (us_challenge_offset s) (us_challenge_length s) c))"

lemma check_proof_D:
  assumes "check_proof sha p proof_hex s f = (None, g)" and "length proof_hex = 64"
  shows "\<exists>c. content f p = Some c \<and> answers_challenge sha s c proof_hex"
proof -
  obtain op f1 where op: "open_existing p f = (op, f1)" by fastforce
  obtain rd f2 where rd: "read_at p (us_challenge_offset s) (us_challenge_length s) f1 = (rd, f2)" by fastforce
  obtain evp f3 where evp: "syscall f2 = (evp, f3)" by fastforce
  note O = open_existing_D [OF op]
  have c1: "content f1 = content f" using O(1) by (simp add: content_def fun_eq_iff)
  let ?expect = "\<lambda>d. Sha256Hex sha (\<not> evp) (us_challenge_nonce_raw s @ d)"
  have op_ok: op using assms(1) op by (cases op) (auto simp: check_proof_def)
  then obtain c where c: "content f p = Some c" using O(2) by auto
  let ?d = "case rd of None \<Rightarrow> [] | Some d \<Rightarrow> d"
  have len: "length ?d = us_challenge_length s" and hex: "length (?expect ?d) = 64"
    and eq: "ConstantTimeEquals (Some (?expect ?d)) (Some proof_hex) (length (?expect ?d))"
    using assms(1) op op_ok rd evp by (auto simp: check_proof_def Let_def split: if_splits)
  have "proof_hex = ?expect ?d" using eq hex assms(2) by (simp add: ConstantTimeEquals_def)
  moreover have "?expect ?d = ToLowerHex (sha (us_challenge_nonce_raw s @ ?d))"
    using hex by (auto simp: Sha256Hex_def split: if_splits)
  moreover have "?d = window (us_challenge_offset s) (us_challenge_length s) c"
    using read_at_D(2) [OF rd] c c1 len by (cases rd) (auto simp: window_def)
  ultimately show ?thesis using c len by (auto simp: answers_challenge_def)
qed

lemma proof_success_error [simp]: "rp_error (proof_reply i e st) = e" "rp_error (proof_success i n q) = Success"
  by (simp_all add: proof_reply_def proof_success_def)

lemma found_row:
  assumes "GetChatMsgById i d = (Found msg, d')"
  shows "\<exists>m. find_message i d = Some m \<and> cm_status msg = msg_status m \<and> cm_sender_user_id msg = msg_sender m
    \<and> cm_resource msg = find_resource i d"
  using GetChatMsgById_D(2) [OF assms] by (auto simp: select_message_def Let_def split: option.splits)


text \<open>The sender of the example sends the same file again and proves that they have it.\<close>

definition demo_again :: file_worker where
  "demo_again = set_db ((fw_db demo_after)\<lparr>
     chat_messages := chat_messages (fw_db demo_after) @ [\<lparr>msg_id = 10, msg_thread_id = 5, msg_sender = 1, msg_client_id = ''d'',
        msg_type = 3, msg_text = None, msg_status = Pending, msg_created_at = 1\<rparr>],
     message_resources := message_resources (fw_db demo_after) @ [\<lparr>res_message_id = 10, res_original_file_name = ''g'',
        res_file_size_bytes = 3, res_sha256 = ToLowerHex (demo_sha ''abc''), res_mime_type = ''m''\<rparr>]\<rparr>) demo_after"

definition demo_challenged :: file_worker where
  "demo_challenged = snd (upload_progress [''r''] 110 7 1 (Some (''nonce'', ''01234567'')) 10 demo_again)"


subsection \<open>Authorisation\<close>

lemma EvictIdle_sub: "fw_sessions (EvictIdleUploadSessions index now w) i = Some s \<Longrightarrow> fw_sessions w i = Some s"
  by (auto simp: EvictIdleUploadSessions_def split: option.splits if_splits)

lemma EvictIdle_fields [simp]: "fw_fs (EvictIdleUploadSessions index now w) = fw_fs w" "fw_db (EvictIdleUploadSessions index now w) = fw_db w"
  by (simp_all add: EvictIdleUploadSessions_def)

text \<open>
  C17.  A chunk for a message of somebody else is refused without any effect on files and tables:
  whoever is not the sender of the row, and of the cached session, gets an error, and the file system
  and the database (except for the consumed query) are as before.
\<close>

theorem foreign_chunk_refused:
  assumes "tk_session task = Some cs" and "IsOpen (cs_lifecycle cs)"
    and cached: "\<And>s. fw_sessions w (tk_message_id task) = Some s \<Longrightarrow> us_sender_user_id s \<noteq> cs_user_uid cs"
    and row: "\<And>m. find_message (tk_message_id task) (fw_db w) = Some m \<Longrightarrow> msg_sender m \<noteq> cs_user_uid cs"
    and run: "HandleResourceChunk sha root now task w = (r, w')"
  shows "(\<exists>e. r = Some e \<and> rp_error e \<noteq> Success) \<and> fw_fs w' = fw_fs w
    \<and> fw_db w' = (fw_db w)\<lparr>outcomes := outcomes (fw_db w')\<rparr>"
proof -
  let ?i = "tk_message_id task" and ?w0 = "EvictIdleUploadSessions (ResourceWorkerIndex (tk_message_id task) FILE_WORKER_COUNT) now w"
  have chunk_error: "rp_error (chunk_reply task e n st q) = e" for e n st q by (simp add: chunk_reply_def)
  show ?thesis
  proof (cases "fw_sessions ?w0 ?i")
    case (Some s)
    then have "us_sender_user_id s \<noteq> cs_user_uid cs" using cached EvictIdle_sub by blast
    then show ?thesis using run assms(1,2) Some
      by (auto simp: HandleResourceChunk_def FindUploadSession_def Let_def chunk_error)
  next
    case None
    obtain found d1 where d1: "GetChatMsgById ?i (fw_db w) = (found, d1)" by fastforce
    have db: "d1 = (fw_db w)\<lparr>outcomes := tl (outcomes (fw_db w))\<rparr>" by (rule GetChatMsgById_D(1) [OF d1])
    have "found = Found msg \<Longrightarrow> cm_sender_user_id msg \<noteq> cs_user_uid cs" for msg
      using found_row [of ?i "fw_db w" msg d1] d1 row by auto
    then have "\<exists>e. chunk_session root now (cs_user_uid cs) task ?w0 = (Inl e, set_db d1 ?w0) \<and> rp_error e \<noteq> Success"
      using d1 by (cases found) (auto simp: chunk_session_def Let_def chunk_error)
    then show ?thesis using run assms(1,2) None db
      by (auto simp: HandleResourceChunk_def FindUploadSession_def Let_def)
  qed
qed

theorem foreign_chunk_refused_witness:
  "fw_fs (snd (HandleResourceChunk demo_sha [''r''] 100
      (demo_task\<lparr>tk_session := Some ((CSession_new 8)\<lparr>cs_user_uid := 2\<rparr>)\<rparr>) demo_server)) = demo_fs"
proof -
  let ?t = "demo_task\<lparr>tk_session := Some ((CSession_new 8)\<lparr>cs_user_uid := 2\<rparr>)\<rparr>"
  obtain r w' where run: "HandleResourceChunk demo_sha [''r''] 100 ?t demo_server = (r, w')" by fastforce
  have "fw_fs w' = fw_fs demo_server"
    using foreign_chunk_refused [OF _ _ _ _ run, of "(CSession_new 8)\<lparr>cs_user_uid := 2\<rparr>"]
    by (auto simp: CSession_new_def IsOpen_def demo_server_def demo_task_def demo_upload_db_def demo_db_def find_message_def)
  then show ?thesis using run by (simp add: demo_server_def)
qed

end
