(* ===== verification/Blob_Stability.thy ===== *)
theory Blob_Stability
  imports Resource_System
begin

text \<open>
  A file that is installed stays: the handlers of the resource server never rename, replace or write
  a blob that exists, and the cleanup task removes none that is published.  So a file handle that
  the download worker keeps open goes on reading the published bytes.  The framing predicate
  \<open>keeps\<close> is used with the set of all paths except the blobs of an earlier state.
\<close>

definition free_paths :: "path \<Rightarrow> fs \<Rightarrow> path set" where
  "free_paths root f = {p. \<not> (\<exists>h j. p = ResourceBlobPath root h \<and> names f p = Some (File j))}"

definition stays :: "path \<Rightarrow> fs \<Rightarrow> fs \<Rightarrow> bool" where
  "stays root f g \<longleftrightarrow> keeps (free_paths root f) f g"

lemma touches_file:
  assumes "touches P f g" and "q \<notin> P" and "names f q = Some (File j)"
  shows "names g q = Some (File j)" and "data g j = data f j"
  using assms unfolding touches_def by (elim allE [of _ q], auto)+

lemma stays_file:
  assumes "stays root f g" and "names f (ResourceBlobPath root h) = Some (File j)"
  shows "names g (ResourceBlobPath root h) = Some (File j)" and "data g j = data f j"
proof -
  have "ResourceBlobPath root h \<notin> free_paths root f" using assms(2) by (auto simp: free_paths_def)
  then show "names g (ResourceBlobPath root h) = Some (File j)" "data g j = data f j"
    using assms touches_file unfolding stays_def keeps_def by blast+
qed

lemma part_free: "part_of root i \<in> free_paths root f"
  using part_not_blob(1) [of root i] by (auto simp: free_paths_def)

lemma stays_refl: "fs_ok f \<Longrightarrow> stays root f f"
  by (simp add: stays_def keeps_refl)

lemma stays_trans:
  assumes "stays root f g" and "stays root g h"
  shows "stays root f h"
proof -
  have "free_paths root g \<subseteq> free_paths root f"
    using stays_file(1) [OF assms(1)] by (auto simp: free_paths_def)
  then show ?thesis using assms keeps_mono keeps_trans unfolding stays_def by blast
qed

subsection \<open>The operations of the file worker\<close>

text \<open>The rules of the collection \<open>keep\<close> for operations on the \<open>.part\<close> file, on the second component.\<close>

lemma ends2_snd: "ends2 R r \<Longrightarrow> R (snd r)"
  by (simp add: ends2_def)

lemma ends3_snd: "ends3 R r \<Longrightarrow> R (snd (snd r))"
  by (simp add: ends3_def)

lemmas snd_keep =
  keep_syscall [THEN ends2_snd] keep_DiskFileLength [THEN ends2_snd] keep_init_choice [THEN ends2_snd]
  keep_file_hash [THEN ends2_snd] keep_Flush [THEN ends2_snd] keep_Ensure [THEN ends2_snd]
  keep_check_proof [THEN ends2_snd] keep_blob_has_size [THEN ends2_snd] keep_hash_append [THEN ends2_snd]
  keep_whole_file_hash [THEN ends3_snd]

lemmas part_keep =
  keep_remove [THEN ends2_snd, OF _ part_free] keep_Recover [THEN ends3_snd, OF _ part_free]
  keep_WriteUploadChunk [THEN ends3_snd, OF _ part_free]

abbreviation stays_from :: "path \<Rightarrow> fs \<Rightarrow> fs \<Rightarrow> bool" where
  "stays_from root f0 g \<equiv> keeps (free_paths root f0) f0 g"

lemma stay_restore_part:
  "stays_from root f0 g \<Longrightarrow> stays_from root f0 (snd (snd (restore_part (part_of root i) base n e g)))"
  by (erule keep_restore_part [THEN ends3_snd]) (rule part_free)

lemma stay_rename:
  assumes "stays_from root f0 g"
  shows "stays_from root f0 (snd (snd (DurableRename (part_of root i) (blob_of root h) False True g)))"
proof -
  obtain ok ex g' where r: "DurableRename (part_of root i) (blob_of root h) False True g = (ok, ex, g')" by (metis prod_cases3)
  note F = DurableRename_frame [OF r assms part_not_blob(1)]
  show ?thesis
  proof (cases "blob_of root h \<in> free_paths root f0")
    case True
    then show ?thesis using F(1) [OF part_free] r by simp
  next
    case False
    then obtain j where "names f0 (blob_of root h) = Some (File j)" by (auto simp: free_paths_def)
    then have "names g (blob_of root h) \<noteq> None" using stays_file(1) [of root f0 g h j] assms by (simp add: stays_def)
    then show ?thesis using F(2) r by simp
  qed
qed

lemma stay_install:
  "stays_from root f0 g \<Longrightarrow> stays_from root f0 (snd (install_blob sha (part_of root i) (blob_of root h) s g))"
  by (simp add: install_blob_def Let_def case_prod_beta snd_keep part_keep stay_rename)

subsection \<open>The rows\<close>

definition grown :: "db \<Rightarrow> db \<Rightarrow> bool" where
  "grown d0 d \<longleftrightarrow> evolves (\<lambda>_. True) d0 d"

lemma grown_refl: "grown d d"
  by (simp add: grown_def)

lemma grown_evolves: "grown d0 d \<Longrightarrow> evolves P d d' \<Longrightarrow> grown d0 d'"
proof -
  assume "grown d0 d" "evolves P d d'"
  then show ?thesis unfolding grown_def using evolves_trans evolves_mono [of P d d' "\<lambda>_. True"] by blast
qed

lemma grown_outcomes [simp]: "grown d0 (d\<lparr>outcomes := xs\<rparr>) = grown d0 d"
  by (simp add: grown_def evolves_def)

lemma grown_ops:
  "grown d0 d \<Longrightarrow> grown d0 (snd (GetChatMsgById i d))"
  "grown d0 d \<Longrightarrow> grown d0 (snd (MarkResourceFailed i d))"
  "grown d0 d \<Longrightarrow> grown d0 (snd (SenderHasPublishedContent u h n d))"
  "grown d0 d \<Longrightarrow> grown d0 (snd (snd (CompleteResourceUpload i u d)))"
proof -
  assume g: "grown d0 d"
  show "grown d0 (snd (GetChatMsgById i d))" using g GetChatMsgById_D(1) [of i d] by (cases "GetChatMsgById i d") simp
  show "grown d0 (snd (SenderHasPublishedContent u h n d))"
    using g SenderHasPublishedContent_D(1) [of u h n d] by (cases "SenderHasPublishedContent u h n d") simp
  show "grown d0 (snd (MarkResourceFailed i d))"
    using g MarkResourceFailed_D(1) [of i d] by (cases "MarkResourceFailed i d") (auto intro: grown_evolves)
  show "grown d0 (snd (snd (CompleteResourceUpload i u d)))"
    using g CompleteResourceUpload_D(1) [of i u d] by (cases "CompleteResourceUpload i u d") (auto intro: grown_evolves)
qed

lemma status_step_published: "status_step P r r' \<Longrightarrow> msg_status r = Published \<Longrightarrow> r' = r"
  by (cases r; cases r') (simp add: status_step_def)

lemma evolves_find_message:
  assumes "evolves P d d'" and "find_message i d = Some m" and "msg_status m = Published"
  shows "find_message i d' = Some m"
  using evolves_find [OF assms(1,2)] status_step_published assms(3) by metis

subsection \<open>The handlers\<close>

definition settled :: "path \<Rightarrow> fs \<Rightarrow> db \<Rightarrow> file_worker \<Rightarrow> bool" where
  "settled root f0 d0 w \<longleftrightarrow> stays_from root f0 (fw_fs w) \<and> grown d0 (fw_db w)"

lemma settled_worker [simp]:
  "settled root f0 d0 (put_session i s w) = settled root f0 d0 w"
  "settled root f0 d0 (EvictUploadSession i w) = settled root f0 d0 w"
  "settled root f0 d0 (w\<lparr>fw_notified := x\<rparr>) = settled root f0 d0 w"
  "settled root f0 d0 (EvictIdleUploadSessions index now w) = settled root f0 d0 w"
  by (simp_all add: settled_def)

lemma settled_fs: "settled root f0 d0 w \<Longrightarrow> stays_from root f0 g \<Longrightarrow> settled root f0 d0 (set_fs g w)"
  by (simp add: settled_def)

lemma settled_db: "settled root f0 d0 w \<Longrightarrow> grown d0 d \<Longrightarrow> settled root f0 d0 (set_db d w)"
  by (simp add: settled_def)

lemma settledD: "settled root f0 d0 w \<Longrightarrow> stays_from root f0 (fw_fs w)" "settled root f0 d0 w \<Longrightarrow> grown d0 (fw_db w)"
  by (simp_all add: settled_def)

lemmas settled_simps = Let_def case_prod_beta settled_fs settled_db snd_keep part_keep grown_ops

lemma settled_refl: "fs_ok (fw_fs w) \<Longrightarrow> settled root (fw_fs w) (fw_db w) w"
  by (simp add: settled_def keeps_refl grown_refl)

lemma settled_respond:
  assumes "settled root f0 d0 w"
  shows "settled root f0 d0 (snd (respond_restored root task s e w))"
  using assms settledD [OF assms]
  by (simp add: respond_restored_def restore_part_after_publish_failure_def settled_simps stay_restore_part)

lemma settled_mismatch:
  assumes "settled root f0 d0 w"
  shows "settled root f0 d0 (snd (content_mismatch root task s w))"
  using assms settledD [OF assms] by (simp add: content_mismatch_def settled_simps)

lemma settled_publish:
  assumes "settled root f0 d0 w"
  shows "settled root f0 d0 (snd (publish_upload root task s w))"
  using assms settledD [OF assms]
  by (simp add: publish_upload_def settled_simps settled_respond split: ChatMsgLookup.split PublishResult.split)

lemma settled_complete:
  assumes "settled root f0 d0 w"
  shows "settled root f0 d0 (snd (FileWorker_CompleteResourceUpload sha root task s w))"
  using assms settledD [OF assms]
  by (simp add: FileWorker_CompleteResourceUpload_def settled_simps stay_install settled_respond settled_mismatch settled_publish)

lemma settled_write_chunk:
  assumes "settled root f0 d0 w"
  shows "settled root f0 d0 (snd (write_chunk sha root task s w))"
  using assms settledD [OF assms] by (simp add: write_chunk_def settled_simps settled_complete)

lemma settled_load:
  assumes "settled root f0 d0 w"
  shows "settled root f0 d0 (snd (LoadUploadSession root now i msg w))"
  using assms settledD [OF assms] by (simp add: LoadUploadSession_def settled_simps split: option.split)

lemma settled_find:
  assumes "settled root f0 d0 w"
  shows "settled root f0 d0 (snd (FindUploadSession now i w))"
  using assms by (simp add: FindUploadSession_def Let_def split: option.split)

lemma settled_chunk_session:
  assumes "settled root f0 d0 w"
  shows "settled root f0 d0 (snd (chunk_session root now uid task w))"
  using assms settledD [OF assms]
  by (simp add: chunk_session_def settled_simps settled_load split: ChatMsgLookup.split option.split)

lemma settled_chunk:
  assumes "fs_ok (fw_fs w)"
  shows "settled root (fw_fs w) (fw_db w) (snd (HandleResourceChunk sha root now task w))"
  using settled_refl [OF assms, of root]
  by (simp add: HandleResourceChunk_def Let_def case_prod_beta settled_find settled_chunk_session settled_write_chunk
      split: option.split sum.split)

lemma settled_proof:
  assumes "fs_ok (fw_fs w)"
  shows "settled root (fw_fs w) (fw_db w) (snd (HandleInstantProof sha root now sid uid i proof_hex w))"
proof -
  note s = settled_refl [OF assms, of root]
  show ?thesis using s settledD [OF s]
    by (simp add: HandleInstantProof_def use_challenge_def publish_proved_def RemoveStubPart_def settled_simps
        split: ChatMsgLookup.split option.split PublishResult.split)
qed

lemma settled_pending:
  assumes "settled root f0 d0 w"
  shows "settled root f0 d0 (snd (progress_pending root now sid uid rnd i msg res s w))"
  using assms settledD [OF assms] by (simp add: progress_pending_def settled_simps split: option.split)

lemma settled_progress:
  assumes "fs_ok (fw_fs w)"
  shows "settled root (fw_fs w) (fw_db w) (snd (upload_progress root now sid uid rnd i w))"
proof -
  note s = settled_refl [OF assms, of root]
  show ?thesis using s settledD [OF s]
    by (simp add: upload_progress_def settled_simps settled_find settled_load settled_pending
        split: ChatMsgLookup.split option.split)
qed

subsection \<open>Published files and rows are stable\<close>

definition rows_stable :: "db \<Rightarrow> db \<Rightarrow> bool" where
  "rows_stable d d' \<longleftrightarrow>
     (\<forall>i m. find_message i d = Some m \<longrightarrow> msg_status m = Published \<longrightarrow> find_message i d' = Some m)
     \<and> (\<forall>i r. find_resource i d = Some r \<longrightarrow> find_resource i d' = Some r)
     \<and> (\<forall>t c. find_chat t d = Some c \<longrightarrow> find_chat t d' = Some c)"

definition blobs_stable :: "path \<Rightarrow> db \<Rightarrow> fs \<Rightarrow> fs \<Rightarrow> bool" where
  "blobs_stable root d f g \<longleftrightarrow>
     (\<forall>r j. published_res d r \<longrightarrow> names f (blob_of root (res_sha256 r)) = Some (File j) \<longrightarrow>
        names g (blob_of root (res_sha256 r)) = Some (File j) \<and> data g j = data f j)"

definition pub_stable :: "path \<Rightarrow> file_worker \<Rightarrow> file_worker \<Rightarrow> bool" where
  "pub_stable root w v \<longleftrightarrow> rows_stable (fw_db w) (fw_db v) \<and> blobs_stable root (fw_db w) (fw_fs w) (fw_fs v)"

lemma rows_stable_grown: "grown d d' \<Longrightarrow> rows_stable d d'"
  unfolding rows_stable_def grown_def
  by (auto dest: evolves_find_message) (simp_all add: evolves_def find_resource_def find_chat_def)

lemma blobs_stable_stays: "stays_from root f g \<Longrightarrow> blobs_stable root d f g"
  using stays_file [of root f g] by (auto simp: blobs_stable_def stays_def)

lemma settled_stable: "settled root (fw_fs w) (fw_db w) v \<Longrightarrow> pub_stable root w v"
  by (simp add: settled_def pub_stable_def rows_stable_grown blobs_stable_stays)

lemma pub_stable_trans:
  assumes "pub_stable root w v" and "pub_stable root v u"
    and "\<And>r. published_res (fw_db w) r \<Longrightarrow> published_res (fw_db v) r"
  shows "pub_stable root w u"
proof -
  have "blobs_stable root (fw_db w) (fw_fs w) (fw_fs u)"
    unfolding blobs_stable_def
  proof (intro allI impI)
    fix r j assume r: "published_res (fw_db w) r" "names (fw_fs w) (blob_of root (res_sha256 r)) = Some (File j)"
    then have "names (fw_fs v) (blob_of root (res_sha256 r)) = Some (File j)" "data (fw_fs v) j = data (fw_fs w) j"
      using assms(1) unfolding pub_stable_def blobs_stable_def by blast+
    then show "names (fw_fs u) (blob_of root (res_sha256 r)) = Some (File j) \<and> data (fw_fs u) j = data (fw_fs w) j"
      using assms(2) assms(3) [OF r(1)] unfolding pub_stable_def blobs_stable_def by auto
  qed
  then show ?thesis using assms(1,2) unfolding pub_stable_def rows_stable_def by blast
qed

lemma cleanup_file_stable:
  assumes "fs_ok (fw_fs w)"
  shows "pub_stable root w (cleanup_file root mtime now rel w)" and "fs_ok (fw_fs (cleanup_file root mtime now rel w))"
    and "published_res (fw_db (cleanup_file root mtime now rel w)) = published_res (fw_db w)"
proof -
  let ?p = "root @ rel"
  have k: "keeps {?p} (fw_fs w) (snd (remove_file ?p (fw_fs w)))"
    by (rule keep_remove [THEN ends2_snd]) (simp_all add: keeps_refl assms)
  have rows: "rows_stable d (d\<lparr>outcomes := xs\<rparr>)" for d xs
    by (simp add: rows_stable_def find_chat_def)
  have res: "published_res (d\<lparr>outcomes := xs\<rparr>) = published_res d" for d xs
    by (simp add: published_res_def fun_eq_iff)
  have "pub_stable root w (cleanup_file root mtime now rel w) \<and> fs_ok (fw_fs (cleanup_file root mtime now rel w))
      \<and> published_res (fw_db (cleanup_file root mtime now rel w)) = published_res (fw_db w)"
  proof (cases rule: cleanup_file_cases [of root mtime now rel w])
    case (keep xs)
    then show ?thesis using assms rows res by (simp add: pub_stable_def blobs_stable_def)
  next
    case (remove xs)
    have "blobs_stable root (fw_db w) (fw_fs w) (snd (remove_file ?p (fw_fs w)))"
      using touches_file [of "{?p}" "fw_fs w" "snd (remove_file ?p (fw_fs w))"] k remove(3)
      unfolding blobs_stable_def keeps_def by blast
    then show ?thesis using remove(1) rows res keeps_fs_ok [OF k] by (simp add: pub_stable_def)
  qed
  then show "pub_stable root w (cleanup_file root mtime now rel w)" and "fs_ok (fw_fs (cleanup_file root mtime now rel w))"
    and "published_res (fw_db (cleanup_file root mtime now rel w)) = published_res (fw_db w)" by blast+
qed

lemma cleanup_files_stable:
  assumes "fs_ok (fw_fs w)"
  shows "pub_stable root w (fold (cleanup_file root mtime now) es w)"
  using assms
proof (induction es arbitrary: w)
  case Nil
  then show ?case by (simp add: pub_stable_def rows_stable_def blobs_stable_def)
next
  case (Cons e es)
  note C = cleanup_file_stable [OF Cons(2), of root mtime now e]
  show ?case using pub_stable_trans [OF C(1) Cons(1) [OF C(2)]] C(3) by simp
qed

lemma cleanup_stable:
  assumes "fs_ok (fw_fs w)"
  shows "pub_stable root w (RunResourceCleanup root mtime now entries w)"
proof -
  obtain n d1 where c: "cleanup_expire root mtime now None 0 0 (fw_db w) = (n, d1)" by fastforce
  have ev: "evolves (\<lambda>_. False) (fw_db w) d1"
    using cleanup_expire_evolves [of "fw_db w" root mtime now None 0 0] c by simp
  then have "grown (fw_db w) d1" by (rule grown_evolves [OF grown_refl])
  then have 1: "pub_stable root w (set_db d1 w)" using rows_stable_grown by (simp add: pub_stable_def blobs_stable_def)
  have 2: "pub_stable root (set_db d1 w) (fold (cleanup_file root mtime now) entries (set_db d1 w))"
    by (rule cleanup_files_stable) (simp add: assms)
  have "published_res (fw_db w) r \<Longrightarrow> published_res (fw_db (set_db d1 w)) r" for r
    using evolves_published_res(1) [OF ev] by simp
  from pub_stable_trans [OF 1 2 this] 1 show ?thesis using c by (simp add: RunResourceCleanup_def Let_def)
qed

lemma crash_stable:
  assumes "pub_ok sha root d f" and "crash f g"
  shows "blobs_stable root d f g"
  unfolding blobs_stable_def
proof (intro allI impI)
  fix r j assume r: "published_res d r" and j: "names f (blob_of root (res_sha256 r)) = Some (File j)"
  then have "file_durable f (blob_of root (res_sha256 r))" using assms(1) by (auto simp: pub_ok_def stored_def)
  then have i: "dnames f (blob_of root (res_sha256 r)) = Some (File j)" "\<not> dirty f j"
    using j by (auto simp: file_durable_def)
  have "names g p = names f p \<or> names g p = dnames f p" for p using assms(2) unfolding crash_def by blast
  from this [of "blob_of root (res_sha256 r)"] i j assms(2)
  show "names g (blob_of root (res_sha256 r)) = Some (File j) \<and> data g j = data f j" by (auto simp: crash_def)
qed

lemma head_icon_stable:
  assumes "fs_ok (fw_fs w)" and "outside root (ft_path task)"
  shows "pub_stable root w (snd (snd (handle_head_icon task w)))"
proof -
  note C = head_icon_change [OF assms(1), of task]
  have "rows_stable (fw_db w) (fw_db (snd (snd (handle_head_icon task w))))"
    using avatar_change_rows [OF C(2)] by (simp add: rows_stable_def)
  then show ?thesis
    using touches_file [of "{ft_path task}" "fw_fs w"] C(1) outside_paths(1) [OF assms(2)]
    unfolding pub_stable_def blobs_stable_def keeps_def by blast
qed

lemma step_stable:
  assumes "upload_inv sha root w" and "server_step sha root w v"
  shows "pub_stable root w v"
proof -
  have ok: "fs_ok (fw_fs w)" using assms(1) by (simp add: upload_inv_def)
  have same: "pub_stable root w u" if "fw_db u = (fw_db w)\<lparr>outcomes := oc\<rparr>" "names (fw_fs u) = names (fw_fs w)"
    "data (fw_fs u) = data (fw_fs w)" for u oc
    using that by (simp add: pub_stable_def rows_stable_def blobs_stable_def find_chat_def)
  show ?thesis
    using assms(2)
  proof cases
    case (step_database d)
    then show ?thesis by (simp add: pub_stable_def rows_stable_def blobs_stable_def db_env_def)
  next
    case (step_crash f)
    then show ?thesis using crash_stable [of sha root "fw_db w"] assms(1)
      by (auto simp: pub_stable_def rows_stable_def upload_inv_def)
  next
    case (step_evict now)
    show ?thesis by (rule same [of _ "outcomes (fw_db w)"]) (simp_all add: step_evict)
  next
    case (step_world oc fa)
    show ?thesis by (rule same [of _ oc]) (simp_all add: step_world)
  next
    case step_restart
    show ?thesis by (rule same [of _ "outcomes (fw_db w)"]) (simp_all add: step_restart)
  qed (simp_all add: settled_stable settled_chunk settled_proof settled_progress cleanup_stable cleanup_file_stable head_icon_stable ok)
qed

end
