(* ===== verification/Download_Worker.thy ===== *)
theory Download_Worker
  imports Blob_Stability "HOL-Library.AList"
begin

text \<open>
  The download worker (\<open>DownloadWorker\<close> in \<open>server/ResourceServer/src/FileWorker.cpp\<close> and
  \<open>include/FileWorker.h\<close>): the cache of published resources with its authorisation, the open file
  handles, and the requests 1509 and 1511 (the avatar download 1603 is in Avatar_Download).  Files
  and database are those of the upload side.  A handle refers to the inode that was opened, so that it goes on reading a
  file that is unlinked meanwhile.  \<open>alive\<close> tells which sessions still exist (for \<open>weak_ptr::lock\<close>).
\<close>

subsection \<open>State\<close>

record PublishedCacheEntry =
  pe_first_session :: "nat option"
  pe_sender_user_id :: nat
  pe_recipient_user_id :: nat
  pe_message_type :: nat
  pe_file_path :: path
  pe_file_size_bytes :: nat
  pe_sha256 :: string
  pe_original_file_name :: string
  pe_mime_type :: string

record FileHandleEntry =
  fh_inode :: nat
  fh_last_used :: nat

record download_worker =
  dw_published_cache :: "(nat \<times> PublishedCacheEntry) list"
  dw_file_handles :: "(nat \<times> FileHandleEntry) list"

definition kPublishedCacheLimit :: nat where
  "kPublishedCacheLimit = 1024"

definition kFileHandleLimit :: nat where
  "kFileHandleLimit = 64"

definition kFileHandleIdle :: nat where
  "kFileHandleIdle = 60"

datatype ResolveStatus = Authorized | Forbidden | NotReady | Resolve_NotFound | DbError

definition lock :: "(nat \<Rightarrow> bool) \<Rightarrow> nat option \<Rightarrow> nat option" where
  "lock alive p = (case p of None \<Rightarrow> None | Some i \<Rightarrow> if alive i then Some i else None)"

subsection \<open>Resolution of a published resource\<close>

definition cache_entry :: "path \<Rightarrow> nat option \<Rightarrow> ChatMessage \<Rightarrow> resource_row \<Rightarrow> PublishedCacheEntry" where
  "cache_entry root session msg res =
     \<lparr>pe_first_session = session, pe_sender_user_id = cm_sender_user_id msg,
      pe_recipient_user_id = cm_recipient_user_id msg, pe_message_type = cm_message_type msg,
      pe_file_path = ResourceBlobPath root (res_sha256 res), pe_file_size_bytes = res_file_size_bytes res,
      pe_sha256 = res_sha256 res, pe_original_file_name = res_original_file_name res,
      pe_mime_type = res_mime_type res\<rparr>"

definition emplace_entry :: "nat \<Rightarrow> PublishedCacheEntry \<Rightarrow> download_worker \<Rightarrow> download_worker" where
  "emplace_entry message_id e dw =
     dw\<lparr>dw_published_cache :=
        (message_id, e) # (if length (dw_published_cache dw) \<ge> kPublishedCacheLimit then [] else dw_published_cache dw)\<rparr>"

text \<open>A message that \<open>GetChatMsgById\<close> finds always has its resource (an inner join).\<close>

definition resolve_row ::
  "path \<Rightarrow> nat option \<Rightarrow> nat \<Rightarrow> nat \<Rightarrow> download_worker \<Rightarrow> file_worker
   \<Rightarrow> ResolveStatus \<times> PublishedCacheEntry option \<times> download_worker \<times> file_worker" where
  "resolve_row root session message_id uid dw w =
     (let (found, d1) = GetChatMsgById message_id (fw_db w); w1 = set_db d1 w in
      case found of
        NotFound \<Rightarrow> (Resolve_NotFound, None, dw, w1)
      | Transient \<Rightarrow> (DbError, None, dw, w1)
      | Found msg \<Rightarrow>
          if uid = 0 \<or> (uid \<noteq> cm_sender_user_id msg \<and> uid \<noteq> cm_recipient_user_id msg) then (Forbidden, None, dw, w1)
          else if cm_status msg \<noteq> Published then (NotReady, None, dw, w1)
          else let e = cache_entry root session msg (the (cm_resource msg)) in
            (Authorized, Some e, emplace_entry message_id e dw, w1))"

definition ResolvePublished ::
  "path \<Rightarrow> (nat \<Rightarrow> bool) \<Rightarrow> nat option \<Rightarrow> nat \<Rightarrow> nat \<Rightarrow> download_worker \<Rightarrow> file_worker
   \<Rightarrow> ResolveStatus \<times> PublishedCacheEntry option \<times> download_worker \<times> file_worker" where
  "ResolvePublished root alive session message_id uid dw w =
     (case map_of (dw_published_cache dw) message_id of
        Some e \<Rightarrow>
          if lock alive (pe_first_session e) = session then (Authorized, Some e, dw, w)
          else if uid \<noteq> 0 \<and> (uid = pe_sender_user_id e \<or> uid = pe_recipient_user_id e) then
            let e1 = e\<lparr>pe_first_session := session\<rparr> in
            (Authorized, Some e1,
             dw\<lparr>dw_published_cache := AList.update message_id e1 (dw_published_cache dw)\<rparr>, w)
          else (Forbidden, None, dw, w)
      | None \<Rightarrow> resolve_row root session message_id uid dw w)"

definition resolve_error :: "ResolveStatus \<Rightarrow> ErrorCodes" where
  "resolve_error st =
     (case st of Authorized \<Rightarrow> Success | Forbidden \<Rightarrow> ResourceForbidden | NotReady \<Rightarrow> ResourceNotReady
      | Resolve_NotFound \<Rightarrow> MsgIdErr | DbError \<Rightarrow> RPCFailed)"

subsection \<open>Download information (1509)\<close>

record down_info =
  di_error :: ErrorCodes
  di_entry :: "PublishedCacheEntry option"

definition session_of :: "CSession option \<Rightarrow> nat option" where
  "session_of = map_option cs_id"

definition uid_of_task :: "CSession option \<Rightarrow> nat" where
  "uid_of_task s = (case s of None \<Rightarrow> 0 | Some cs \<Rightarrow> cs_user_uid cs)"

definition HandleResourceDownInfo ::
  "path \<Rightarrow> (nat \<Rightarrow> bool) \<Rightarrow> CSession option \<Rightarrow> nat \<Rightarrow> download_worker \<Rightarrow> file_worker
   \<Rightarrow> down_info \<times> download_worker \<times> file_worker" where
  "HandleResourceDownInfo root alive session message_id dw w =
     (case ResolvePublished root alive (session_of session) message_id (uid_of_task session) dw w of
        (Authorized, Some e, dw1, w1) \<Rightarrow>
          let (ok, f1) = syscall (fw_fs w1); w2 = set_fs f1 w1 in
          if \<not> ok \<or> names f1 (pe_file_path e) = None
          then (\<lparr>di_error = FileNotExists, di_entry = None\<rparr>, dw1, w2)
          else (\<lparr>di_error = Success, di_entry = Some e\<rparr>, dw1, w2)
      | (st, _, dw1, w1) \<Rightarrow> (\<lparr>di_error = resolve_error st, di_entry = None\<rparr>, dw1, w1))"

subsection \<open>Chunks (1511)\<close>

record ResourceChunkDownTask =
  dt_session :: "CSession option"
  dt_message_id :: nat
  dt_offset :: nat

record down_reply =
  dr_error :: ErrorCodes
  dr_raw :: string
  dr_bytes :: nat
  dr_chunk_sha256 :: string
  dr_is_last :: bool
  dr_total_size :: nat

definition down_error :: "ErrorCodes \<Rightarrow> nat \<Rightarrow> down_reply" where
  "down_error error total_size =
     \<lparr>dr_error = error, dr_raw = [], dr_bytes = 0, dr_chunk_sha256 = [], dr_is_last = False, dr_total_size = total_size\<rparr>"

definition EvictIdleFileHandles :: "nat \<Rightarrow> download_worker \<Rightarrow> download_worker" where
  "EvictIdleFileHandles now dw =
     dw\<lparr>dw_file_handles := filter (\<lambda>(_, h). \<not> (now - fh_last_used h > kFileHandleIdle)) (dw_file_handles dw)\<rparr>"

text \<open>The least recently used handle other than the new one, the first of several in the order of the table.\<close>

fun oldest :: "(nat \<times> FileHandleEntry) option \<Rightarrow> (nat \<times> FileHandleEntry) list \<Rightarrow> (nat \<times> FileHandleEntry) option" where
  "oldest v [] = v"
| "oldest v (x # xs) =
     oldest (case v of None \<Rightarrow> Some x
             | Some y \<Rightarrow> if fh_last_used (snd x) < fh_last_used (snd y) then Some x else Some y) xs"

definition add_handle :: "nat \<Rightarrow> FileHandleEntry \<Rightarrow> download_worker \<Rightarrow> download_worker" where
  "add_handle message_id h dw =
     (let others = dw_file_handles dw; all = (message_id, h) # others in
      dw\<lparr>dw_file_handles :=
        (if length all > kFileHandleLimit then
           case oldest None others of None \<Rightarrow> all | Some v \<Rightarrow> (message_id, h) # AList.delete (fst v) others
         else all)\<rparr>)"

definition open_handle ::
  "nat \<Rightarrow> nat \<Rightarrow> path \<Rightarrow> download_worker \<Rightarrow> fs \<Rightarrow> nat option \<times> download_worker \<times> fs" where
  "open_handle now message_id p dw f =
     (case map_of (dw_file_handles dw) message_id of
        Some h \<Rightarrow> (Some (fh_inode h),
          dw\<lparr>dw_file_handles := AList.update message_id (h\<lparr>fh_last_used := now\<rparr>) (dw_file_handles dw)\<rparr>, f)
      | None \<Rightarrow>
          let (ok, f1) = open_existing p f in
          (case (ok, names f1 p) of
             (True, Some (File i)) \<Rightarrow> (Some i, add_handle message_id \<lparr>fh_inode = i, fh_last_used = now\<rparr> dw, f1)
           | _ \<Rightarrow> (None, dw, f1)))"

definition read_chunk ::
  "(string \<Rightarrow> string) \<Rightarrow> nat \<Rightarrow> nat \<Rightarrow> nat \<Rightarrow> nat \<Rightarrow> download_worker \<Rightarrow> fs \<Rightarrow> down_reply \<times> download_worker \<times> fs" where
  "read_chunk sha message_id inode offset total_size dw f =
     (let want = min kUploadChunkSize (total_size - offset);
          (ok, f1) = syscall f;
          buf = (if ok then window offset want (data f1 inode) else []) in
      if length buf \<noteq> want
      then (down_error FileReadFailed total_size, dw\<lparr>dw_file_handles := AList.delete message_id (dw_file_handles dw)\<rparr>, f1)
      else let (evp, f2) = syscall f1 in
        (\<lparr>dr_error = Success, dr_raw = buf, dr_bytes = length buf, dr_chunk_sha256 = Sha256Hex sha (\<not> evp) buf,
          dr_is_last = (offset + length buf \<ge> total_size), dr_total_size = total_size\<rparr>, dw, f2))"

definition HandleResourceChunkDown ::
  "(string \<Rightarrow> string) \<Rightarrow> path \<Rightarrow> (nat \<Rightarrow> bool) \<Rightarrow> nat \<Rightarrow> ResourceChunkDownTask \<Rightarrow> download_worker \<Rightarrow> file_worker
   \<Rightarrow> down_reply \<times> download_worker \<times> file_worker" where
  "HandleResourceChunkDown sha root alive now task dw w =
     (case ResolvePublished root alive (session_of (dt_session task)) (dt_message_id task)
             (uid_of_task (dt_session task)) dw w of
        (Authorized, Some e, dw1, w1) \<Rightarrow>
          let total_size = pe_file_size_bytes e; offset = dt_offset task in
          if offset \<ge> total_size then (down_error FileOffsetInvalid total_size, dw1, w1)
          else
            (case open_handle now (dt_message_id task) (pe_file_path e) (EvictIdleFileHandles now dw1) (fw_fs w1) of
               (None, dw2, f1) \<Rightarrow> (down_error FileNotExists total_size, dw2, set_fs f1 w1)
             | (Some inode, dw2, f1) \<Rightarrow>
                 let (r, dw3, f2) = read_chunk sha (dt_message_id task) inode offset total_size dw2 f1
                 in (r, dw3, set_fs f2 w1))
      | (st, _, dw1, w1) \<Rightarrow> (down_error (resolve_error st) 0, dw1, w1))"

subsection \<open>The invariant\<close>

text \<open>
  A cached entry agrees with a published row, and the session it remembers belongs to a member of
  the chat; an open handle refers to the blob of a published row.  \<open>uid_of\<close> is the user that a
  session is logged in as: the login succeeds at most once per session and precedes every request.
\<close>

definition entry_ok :: "path \<Rightarrow> (nat \<Rightarrow> nat) \<Rightarrow> db \<Rightarrow> nat \<Rightarrow> PublishedCacheEntry \<Rightarrow> bool" where
  "entry_ok root uid_of d i e \<longleftrightarrow>
     (\<exists>m res pc. find_message i d = Some m \<and> msg_status m = Published \<and> find_resource i d = Some res
        \<and> find_chat (msg_thread_id m) d = Some pc
        \<and> pe_sender_user_id e = msg_sender m \<and> pe_recipient_user_id e = peer_of pc (msg_sender m)
        \<and> pe_file_path e = ResourceBlobPath root (res_sha256 res) \<and> pe_file_size_bytes e = res_file_size_bytes res
        \<and> pe_sha256 e = res_sha256 res)
     \<and> (\<forall>sid. pe_first_session e = Some sid \<longrightarrow>
          uid_of sid \<noteq> 0 \<and> (uid_of sid = pe_sender_user_id e \<or> uid_of sid = pe_recipient_user_id e))"

definition handle_ok :: "path \<Rightarrow> db \<Rightarrow> fs \<Rightarrow> nat \<Rightarrow> FileHandleEntry \<Rightarrow> bool" where
  "handle_ok root d f i h \<longleftrightarrow>
     (\<exists>m res. find_message i d = Some m \<and> msg_status m = Published \<and> find_resource i d = Some res
        \<and> names f (ResourceBlobPath root (res_sha256 res)) = Some (File (fh_inode h)))"

definition down_inv :: "path \<Rightarrow> (nat \<Rightarrow> nat) \<Rightarrow> download_worker \<Rightarrow> file_worker \<Rightarrow> bool" where
  "down_inv root uid_of dw w \<longleftrightarrow>
     (\<forall>(i, e) \<in> set (dw_published_cache dw). entry_ok root uid_of (fw_db w) i e)
     \<and> (\<forall>(i, h) \<in> set (dw_file_handles dw). handle_ok root (fw_db w) (fw_fs w) i h)"

definition member_session :: "(nat \<Rightarrow> nat) \<Rightarrow> CSession option \<Rightarrow> bool" where
  "member_session uid_of s \<longleftrightarrow> (\<exists>cs. s = Some cs \<and> cs_user_uid cs = uid_of (cs_id cs))"

lemma entry_ok_stable: "entry_ok root uid_of d i e \<Longrightarrow> rows_stable d d' \<Longrightarrow> entry_ok root uid_of d' i e"
  unfolding entry_ok_def rows_stable_def by blast

lemma handle_ok_stable:
  assumes "handle_ok root d f i h" and "rows_stable d d'" and "blobs_stable root d f g"
  shows "handle_ok root d' g i h"
proof -
  obtain m res where m: "find_message i d = Some m" "msg_status m = Published" and res: "find_resource i d = Some res"
    and n: "names f (ResourceBlobPath root (res_sha256 res)) = Some (File (fh_inode h))"
    using assms(1) by (auto simp: handle_ok_def)
  have "published_res d res" using published_row_res [OF _ res] m res by (auto simp: row_published_def)
  then have "names g (ResourceBlobPath root (res_sha256 res)) = Some (File (fh_inode h))"
    using assms(3) n unfolding blobs_stable_def by blast
  then show ?thesis using assms(2) m res unfolding handle_ok_def rows_stable_def by blast
qed

lemma down_inv_stable:
  assumes "down_inv root uid_of dw w" and "pub_stable root w v"
  shows "down_inv root uid_of dw v"
  using assms entry_ok_stable handle_ok_stable unfolding down_inv_def pub_stable_def by blast

lemma update_set: "set (AList.update k v xs) \<subseteq> insert (k, v) (set xs)"
  by (induction xs) auto

lemma delete_set: "set (AList.delete k xs) \<subseteq> set xs"
  by (auto simp: AList.delete_eq)

lemma lock_Some: "lock alive p = Some i \<Longrightarrow> p = Some i"
  by (simp add: lock_def split: option.splits if_splits)

lemma found_parts:
  assumes "GetChatMsgById i d = (Found msg, d')"
  shows "\<exists>m res pc. find_message i d = Some m \<and> find_resource i d = Some res \<and> find_chat (msg_thread_id m) d = Some pc
     \<and> cm_status msg = msg_status m \<and> cm_sender_user_id msg = msg_sender m
     \<and> cm_recipient_user_id msg = peer_of pc (msg_sender m) \<and> cm_resource msg = Some res"
  using GetChatMsgById_D(2) [OF assms] by (auto simp: select_message_def Let_def split: option.splits)

lemma stable_outcomes: "pub_stable root w (set_db ((fw_db w)\<lparr>outcomes := xs\<rparr>) w)"
  by (simp add: pub_stable_def rows_stable_def blobs_stable_def find_chat_def)

lemma stable_faults: "pub_stable root w (set_fs ((fw_fs w)\<lparr>faults := xs\<rparr>) w)"
  by (simp add: pub_stable_def rows_stable_def blobs_stable_def)

text \<open>What resolution establishes: nothing but a query happens, and who is authorised is a member of the chat.\<close>

definition resolved :: "path \<Rightarrow> (nat \<Rightarrow> nat) \<Rightarrow> nat \<Rightarrow> nat \<Rightarrow> file_worker
    \<Rightarrow> ResolveStatus \<times> PublishedCacheEntry option \<times> download_worker \<times> file_worker \<Rightarrow> bool" where
  "resolved root uid_of u i w r \<longleftrightarrow>
     (case r of (st, oe, dw1, w1) \<Rightarrow>
        down_inv root uid_of dw1 w1 \<and> (\<exists>xs. w1 = set_db ((fw_db w)\<lparr>outcomes := xs\<rparr>) w)
        \<and> (st = Authorized \<longrightarrow> (\<exists>e. oe = Some e \<and> entry_ok root uid_of (fw_db w1) i e \<and> u \<noteq> 0
             \<and> (u = pe_sender_user_id e \<or> u = pe_recipient_user_id e))))"

lemma no_query: "\<exists>xs. w = set_db ((fw_db w)\<lparr>outcomes := xs\<rparr>) w"
  by (rule exI [of _ "outcomes (fw_db w)"]) (simp add: set_db_def)

lemma resolve_row_resolved:
  assumes inv: "down_inv root uid_of dw w"
  shows "resolved root uid_of (uid_of sid) i w (resolve_row root (Some sid) i (uid_of sid) dw w)"
proof -
  let ?u = "uid_of sid"
  obtain found d1 where d1: "GetChatMsgById i (fw_db w) = (found, d1)" by fastforce
  have db: "d1 = (fw_db w)\<lparr>outcomes := tl (outcomes (fw_db w))\<rparr>" by (rule GetChatMsgById_D(1) [OF d1])
  have inv1: "down_inv root uid_of dw (set_db d1 w)" using down_inv_stable [OF inv stable_outcomes] db by simp
  have query: "\<exists>xs. set_db d1 w = set_db ((fw_db w)\<lparr>outcomes := xs\<rparr>) w" using db by blast
  show ?thesis
  proof (cases "\<exists>msg. found = Found msg \<and> ?u \<noteq> 0 \<and> (?u = cm_sender_user_id msg \<or> ?u = cm_recipient_user_id msg)
      \<and> cm_status msg = Published")
    case False
    then show ?thesis using d1 inv1 query
      by (auto simp: resolve_row_def resolved_def Let_def split: ChatMsgLookup.splits)
  next
    case True
    then obtain msg where msg: "found = Found msg" "?u \<noteq> 0" "?u = cm_sender_user_id msg \<or> ?u = cm_recipient_user_id msg"
      "cm_status msg = Published" by blast
    let ?e = "cache_entry root (Some sid) msg (the (cm_resource msg))"
    have e: "entry_ok root uid_of d1 i ?e"
      using found_parts [OF d1 [unfolded msg(1)]] msg(2-4) db
      by (auto simp: entry_ok_def cache_entry_def find_chat_def)
    then have "down_inv root uid_of (emplace_entry i ?e dw) (set_db d1 w)"
      using inv1 by (auto simp: down_inv_def emplace_entry_def)
    then have "resolved root uid_of ?u i w (Authorized, Some ?e, emplace_entry i ?e dw, set_db d1 w)"
      using e msg(2,3) query by (auto simp: resolved_def cache_entry_def)
    moreover have "resolve_row root (Some sid) i ?u dw w = (Authorized, Some ?e, emplace_entry i ?e dw, set_db d1 w)"
      using d1 msg by (auto simp: resolve_row_def Let_def)
    ultimately show ?thesis by simp
  qed
qed

lemma ResolvePublished_resolved:
  assumes inv: "down_inv root uid_of dw w"
  shows "resolved root uid_of (uid_of sid) i w (ResolvePublished root alive (Some sid) i (uid_of sid) dw w)"
proof (cases "map_of (dw_published_cache dw) i")
  case None
  then show ?thesis using resolve_row_resolved [OF inv] by (simp add: ResolvePublished_def)
next
  case (Some e)
  let ?u = "uid_of sid" and ?e = "e\<lparr>pe_first_session := Some sid\<rparr>"
  have eok: "entry_ok root uid_of (fw_db w) i e" using inv map_of_SomeD [OF Some] by (auto simp: down_inv_def)
  have first: "?u \<noteq> 0 \<and> (?u = pe_sender_user_id e \<or> ?u = pe_recipient_user_id e)"
    if "lock alive (pe_first_session e) = Some sid"
    using eok lock_Some [OF that] by (auto simp: entry_ok_def)
  have "down_inv root uid_of (dw\<lparr>dw_published_cache := AList.update i ?e (dw_published_cache dw)\<rparr>) w \<and> entry_ok root uid_of (fw_db w) i ?e"
    if "?u \<noteq> 0" "?u = pe_sender_user_id e \<or> ?u = pe_recipient_user_id e"
  proof -
    have "entry_ok root uid_of (fw_db w) i ?e" using eok that by (auto simp: entry_ok_def)
    then show ?thesis using inv update_set [of i ?e "dw_published_cache dw"] by (fastforce simp: down_inv_def)
  qed
  then show ?thesis using Some inv eok first no_query
    by (simp add: ResolvePublished_def resolved_def Let_def)
qed

lemma ResolvePublished_D:
  assumes inv: "down_inv root uid_of dw w" and cs: "member_session uid_of session"
    and run: "ResolvePublished root alive (session_of session) i (uid_of_task session) dw w = (st, oe, dw1, w1)"
  shows "down_inv root uid_of dw1 w1" and "\<exists>xs. w1 = set_db ((fw_db w)\<lparr>outcomes := xs\<rparr>) w"
    and "st = Authorized \<Longrightarrow> \<exists>e. oe = Some e \<and> entry_ok root uid_of (fw_db w1) i e \<and> uid_of_task session \<noteq> 0
          \<and> (uid_of_task session = pe_sender_user_id e \<or> uid_of_task session = pe_recipient_user_id e)"
proof -
  obtain c where c: "session = Some c" "cs_user_uid c = uid_of (cs_id c)" using cs by (auto simp: member_session_def)
  have u: "uid_of_task session = uid_of (cs_id c)" "session_of session = Some (cs_id c)"
    using c by (simp_all add: uid_of_task_def session_of_def)
  from ResolvePublished_resolved [OF inv, of "cs_id c" i alive] run u
  show "down_inv root uid_of dw1 w1" and "\<exists>xs. w1 = set_db ((fw_db w)\<lparr>outcomes := xs\<rparr>) w"
    and "st = Authorized \<Longrightarrow> \<exists>e. oe = Some e \<and> entry_ok root uid_of (fw_db w1) i e \<and> uid_of_task session \<noteq> 0
          \<and> (uid_of_task session = pe_sender_user_id e \<or> uid_of_task session = pe_recipient_user_id e)"
    by (simp_all add: resolved_def)
qed

subsection \<open>Handles\<close>

definition handles_ok :: "path \<Rightarrow> db \<Rightarrow> fs \<Rightarrow> download_worker \<Rightarrow> bool" where
  "handles_ok root d f dw \<longleftrightarrow> (\<forall>(i, h) \<in> set (dw_file_handles dw). handle_ok root d f i h)"

lemma down_inv_handles:
  "down_inv root uid_of dw w \<longleftrightarrow>
     (\<forall>(i, e) \<in> set (dw_published_cache dw). entry_ok root uid_of (fw_db w) i e) \<and> handles_ok root (fw_db w) (fw_fs w) dw"
  by (simp add: down_inv_def handles_ok_def)

lemma handle_ok_faults [simp]: "handle_ok root d (f\<lparr>faults := xs\<rparr>) i h = handle_ok root d f i h"
  by (simp add: handle_ok_def)

lemma handle_ok_used [simp]: "handle_ok root d f i (h\<lparr>fh_last_used := t\<rparr>) = handle_ok root d f i h"
  by (simp add: handle_ok_def)

lemma handles_ok_idle: "handles_ok root d f dw \<Longrightarrow> handles_ok root d f (EvictIdleFileHandles now dw)"
  by (auto simp: handles_ok_def EvictIdleFileHandles_def)

lemma handles_ok_add:
  assumes "handles_ok root d f dw" and "handle_ok root d f i h"
  shows "handles_ok root d f (add_handle i h dw)"
  using assms delete_set [of _ "dw_file_handles dw"]
  by (auto simp: handles_ok_def add_handle_def Let_def split: option.splits)

lemma open_handle_D:
  assumes run: "open_handle now i p dw f = (r, dw', g)" and hs: "handles_ok root d f dw"
    and row: "find_message i d = Some m" "msg_status m = Published" "find_resource i d = Some res"
    and p: "p = ResourceBlobPath root (res_sha256 res)"
  shows "handles_ok root d g dw'" and "\<exists>xs. g = f\<lparr>faults := xs\<rparr>" and "dw_published_cache dw' = dw_published_cache dw"
    and "r = Some j \<Longrightarrow> names f p = Some (File j)"
proof -
  have "handles_ok root d g dw' \<and> (\<exists>xs. g = f\<lparr>faults := xs\<rparr>) \<and> dw_published_cache dw' = dw_published_cache dw
      \<and> (\<forall>j. r = Some j \<longrightarrow> names f p = Some (File j))"
  proof (cases "map_of (dw_file_handles dw) i")
    case (Some h)
    then have h: "handle_ok root d f i h" using hs map_of_SomeD [OF Some] by (auto simp: handles_ok_def)
    let ?h = "h\<lparr>fh_last_used := now\<rparr>"
    have "handles_ok root d f (dw\<lparr>dw_file_handles := AList.update i ?h (dw_file_handles dw)\<rparr>)"
      using hs h update_set [of i ?h "dw_file_handles dw"] by (fastforce simp: handles_ok_def)
    moreover have "names f p = Some (File (fh_inode h))" using h row p by (auto simp: handle_ok_def)
    moreover have "\<exists>xs. f = f\<lparr>faults := xs\<rparr>" by (rule exI [of _ "faults f"]) simp
    ultimately show ?thesis using run Some by (auto simp: open_handle_def)
  next
    case None
    obtain ok f1 where o: "open_existing p f = (ok, f1)" by fastforce
    have f1: "f1 = f\<lparr>faults := tl (faults f)\<rparr>" using open_existing_D(1) [OF o] .
    have hs1: "handles_ok root d f1 dw" using hs by (simp add: handles_ok_def f1)
    show ?thesis
    proof (cases "\<exists>j. ok \<and> names f1 p = Some (File j)")
      case True
      then obtain j where j: ok "names f1 p = Some (File j)" by blast
      have "handle_ok root d f1 i \<lparr>fh_inode = j, fh_last_used = now\<rparr>" using row p j by (simp add: handle_ok_def)
      from handles_ok_add [OF hs1 this] show ?thesis using run None o j f1
        by (auto simp: open_handle_def add_handle_def Let_def)
    next
      case False
      then have "r = None" "dw' = dw" "g = f1"
        using run None o by (auto simp: open_handle_def split: bool.splits option.splits node.splits)
      then show ?thesis using hs1 f1 by auto
    qed
  qed
  then show "handles_ok root d g dw'" and "\<exists>xs. g = f\<lparr>faults := xs\<rparr>" and "dw_published_cache dw' = dw_published_cache dw"
    and "r = Some j \<Longrightarrow> names f p = Some (File j)" by blast+
qed

lemma read_chunk_D:
  assumes run: "read_chunk sha i inode off tot dw f = (r, dw', g)" and "handles_ok root d f dw"
  shows "handles_ok root d g dw'" and "\<exists>xs. g = f\<lparr>faults := xs\<rparr>" and "dw_published_cache dw' = dw_published_cache dw"
    and "dr_error r = Success \<Longrightarrow> length (dr_raw r) = min kUploadChunkSize (tot - off)
      \<and> dr_raw r = window off (min kUploadChunkSize (tot - off)) (data f inode)
      \<and> dr_is_last r = (off + length (dr_raw r) \<ge> tot) \<and> dr_bytes r = length (dr_raw r) \<and> dr_total_size r = tot
      \<and> (dr_chunk_sha256 r = [] \<or> dr_chunk_sha256 r = ToLowerHex (sha (dr_raw r)))"
proof -
  obtain ok f1 where s: "syscall f = (ok, f1)" by fastforce
  obtain evp f2 where s2: "syscall f1 = (evp, f2)" by fastforce
  have f1: "f1 = f\<lparr>faults := tl (faults f)\<rparr>" "f2 = f1\<lparr>faults := tl (faults f1)\<rparr>" using s s2 by (auto elim: syscallE)
  have hs: "handles_ok root d (f\<lparr>faults := xs\<rparr>) dw" for xs using assms(2) by (simp add: handles_ok_def)
  have del: "handles_ok root d (f\<lparr>faults := xs\<rparr>) (dw\<lparr>dw_file_handles := AList.delete i (dw_file_handles dw)\<rparr>)" for xs
    using assms(2) delete_set [of i "dw_file_handles dw"] by (auto simp: handles_ok_def)
  let ?want = "min kUploadChunkSize (tot - off)"
  let ?buf = "if ok then window off ?want (data f1 inode) else []"
  have "length ?buf \<noteq> ?want \<and> r = down_error FileReadFailed tot \<and> g = f1
        \<and> dw' = dw\<lparr>dw_file_handles := AList.delete i (dw_file_handles dw)\<rparr>
      \<or> length ?buf = ?want \<and> g = f2 \<and> dw' = dw
        \<and> r = \<lparr>dr_error = Success, dr_raw = ?buf, dr_bytes = length ?buf, dr_chunk_sha256 = Sha256Hex sha (\<not> evp) ?buf,
              dr_is_last = (off + length ?buf \<ge> tot), dr_total_size = tot\<rparr>"
    using run s s2 by (simp add: read_chunk_def Let_def split: if_splits)
  note cs = this
  show "handles_ok root d g dw'" using cs del hs f1 by auto
  show "\<exists>xs. g = f\<lparr>faults := xs\<rparr>" using cs f1 by auto
  show "dw_published_cache dw' = dw_published_cache dw" using cs by auto
  show "length (dr_raw r) = ?want \<and> dr_raw r = window off ?want (data f inode)
      \<and> dr_is_last r = (off + length (dr_raw r) \<ge> tot) \<and> dr_bytes r = length (dr_raw r) \<and> dr_total_size r = tot
      \<and> (dr_chunk_sha256 r = [] \<or> dr_chunk_sha256 r = ToLowerHex (sha (dr_raw r)))" if "dr_error r = Success"
  proof -
    have "?want = 0 \<Longrightarrow> window off ?want (data f inode) = []" by (simp add: window_def)
    then show ?thesis using cs that f1 by (auto simp: down_error_def Sha256Hex_def split: if_splits)
  qed
qed

subsection \<open>The handlers\<close>

lemma down_inv_fs:
  assumes "down_inv root uid_of dw w" and "handles_ok root (fw_db w) g dw'" and "dw_published_cache dw' = dw_published_cache dw"
  shows "down_inv root uid_of dw' (set_fs g w)"
  using assms by (simp add: down_inv_handles)

lemma HandleResourceDownInfo_inv:
  assumes "down_inv root uid_of dw w" and "member_session uid_of session"
    and run: "HandleResourceDownInfo root alive session i dw w = (r, dw', w')"
  shows "down_inv root uid_of dw' w'" and "\<exists>xs ys. w' = set_fs ((fw_fs w)\<lparr>faults := xs\<rparr>) (set_db ((fw_db w)\<lparr>outcomes := ys\<rparr>) w)"
proof -
  obtain st oe dw1 w1 where p: "ResolvePublished root alive (session_of session) i (uid_of_task session) dw w = (st, oe, dw1, w1)"
    by (metis prod_cases4)
  note R = ResolvePublished_D [OF assms(1,2) p]
  obtain ys where ys: "w1 = set_db ((fw_db w)\<lparr>outcomes := ys\<rparr>) w" using R(2) by blast
  have "dw' = dw1 \<and> (\<exists>xs. w' = set_fs ((fw_fs w1)\<lparr>faults := xs\<rparr>) w1)"
  proof (cases "st = Authorized \<and> oe \<noteq> None")
    case True
    obtain ok f1 where s: "syscall (fw_fs w1) = (ok, f1)" by fastforce
    then have "f1 = (fw_fs w1)\<lparr>faults := tl (faults (fw_fs w1))\<rparr>" by (auto elim: syscallE)
    then show ?thesis using run p s True by (auto simp: HandleResourceDownInfo_def Let_def split: if_splits)
  next
    case False
    have "set_fs ((fw_fs w1)\<lparr>faults := faults (fw_fs w1)\<rparr>) w1 = w1" by (simp add: set_fs_def)
    moreover have "dw' = dw1 \<and> w' = w1" using run p False
      by (auto simp: HandleResourceDownInfo_def split: ResolveStatus.splits option.splits)
    ultimately show ?thesis by metis
  qed
  then obtain xs where xs: "dw' = dw1" "w' = set_fs ((fw_fs w1)\<lparr>faults := xs\<rparr>) w1" by blast
  show "down_inv root uid_of dw' w'" using down_inv_stable [OF R(1) stable_faults] xs by simp
  show "\<exists>xs ys. w' = set_fs ((fw_fs w)\<lparr>faults := xs\<rparr>) (set_db ((fw_db w)\<lparr>outcomes := ys\<rparr>) w)"
    using xs ys by auto
qed

lemma HandleResourceChunkDown_D:
  assumes "down_inv root uid_of dw w" and "member_session uid_of (dt_session task)"
    and run: "HandleResourceChunkDown sha root alive now task dw w = (r, dw', w')"
  shows "down_inv root uid_of dw' w'"
    and "\<exists>xs ys. w' = set_fs ((fw_fs w)\<lparr>faults := xs\<rparr>) (set_db ((fw_db w)\<lparr>outcomes := ys\<rparr>) w)"
    and "dr_error r = Success \<Longrightarrow>
      \<exists>e inode. entry_ok root uid_of (fw_db w) (dt_message_id task) e \<and> uid_of_task (dt_session task) \<noteq> 0
        \<and> (uid_of_task (dt_session task) = pe_sender_user_id e \<or> uid_of_task (dt_session task) = pe_recipient_user_id e)
        \<and> names (fw_fs w) (pe_file_path e) = Some (File inode) \<and> dt_offset task < pe_file_size_bytes e
        \<and> dr_raw r = window (dt_offset task) (min kUploadChunkSize (pe_file_size_bytes e - dt_offset task)) (data (fw_fs w) inode)
        \<and> length (dr_raw r) = min kUploadChunkSize (pe_file_size_bytes e - dt_offset task)
        \<and> dr_is_last r = (dt_offset task + length (dr_raw r) \<ge> pe_file_size_bytes e)"
proof -
  let ?i = "dt_message_id task" and ?u = "uid_of_task (dt_session task)"
  obtain st oe dw1 w1 where p: "ResolvePublished root alive (session_of (dt_session task)) ?i ?u dw w = (st, oe, dw1, w1)"
    by (metis prod_cases4)
  note R = ResolvePublished_D [OF assms(1,2) p]
  obtain ys where ys: "w1 = set_db ((fw_db w)\<lparr>outcomes := ys\<rparr>) w" using R(2) by blast
  let ?same = "\<exists>xs ys. w' = set_fs ((fw_fs w)\<lparr>faults := xs\<rparr>) (set_db ((fw_db w)\<lparr>outcomes := ys\<rparr>) w)"
  let ?got = "\<exists>e inode. entry_ok root uid_of (fw_db w) ?i e \<and> ?u \<noteq> 0 \<and> (?u = pe_sender_user_id e \<or> ?u = pe_recipient_user_id e)
        \<and> names (fw_fs w) (pe_file_path e) = Some (File inode) \<and> dt_offset task < pe_file_size_bytes e
        \<and> dr_raw r = window (dt_offset task) (min kUploadChunkSize (pe_file_size_bytes e - dt_offset task)) (data (fw_fs w) inode)
        \<and> length (dr_raw r) = min kUploadChunkSize (pe_file_size_bytes e - dt_offset task)
        \<and> dr_is_last r = (dt_offset task + length (dr_raw r) \<ge> pe_file_size_bytes e)"
  have idle: ?same if "w' = w1"
    using that ys by (intro exI [of _ "faults (fw_fs w)"] exI [of _ ys]) (simp add: set_fs_def set_db_def)
  have "down_inv root uid_of dw' w' \<and> ?same \<and> (dr_error r = Success \<longrightarrow> ?got)"
  proof (cases "st = Authorized \<and> (\<exists>e. oe = Some e \<and> dt_offset task < pe_file_size_bytes e)")
    case False
    then have "dw' = dw1 \<and> w' = w1 \<and> dr_error r \<noteq> Success"
      using run p R(3) by (auto simp: HandleResourceChunkDown_def Let_def down_error_def resolve_error_def
          split: ResolveStatus.splits option.splits if_splits)
    then show ?thesis using R(1) idle by auto
  next
    case True
    then obtain e where e: "oe = Some e" "dt_offset task < pe_file_size_bytes e" "entry_ok root uid_of (fw_db w1) ?i e"
      "?u \<noteq> 0" "?u = pe_sender_user_id e \<or> ?u = pe_recipient_user_id e" using R(3) by auto
    then obtain m res where m: "find_message ?i (fw_db w1) = Some m" "msg_status m = Published"
      "find_resource ?i (fw_db w1) = Some res" "pe_file_path e = ResourceBlobPath root (res_sha256 res)"
      by (auto simp: entry_ok_def)
    have hs: "handles_ok root (fw_db w1) (fw_fs w1) (EvictIdleFileHandles now dw1)"
      using R(1) handles_ok_idle by (simp add: down_inv_handles)
    obtain h dw2 f1 where o: "open_handle now ?i (pe_file_path e) (EvictIdleFileHandles now dw1) (fw_fs w1) = (h, dw2, f1)"
      by (metis prod_cases3)
    note O = open_handle_D [OF o hs m(1-3) m(4)]
    have c2: "dw_published_cache dw2 = dw_published_cache dw1" using O(3) by (simp add: EvictIdleFileHandles_def)
    obtain xs where xs: "f1 = (fw_fs w1)\<lparr>faults := xs\<rparr>" using O(2) by blast
    show ?thesis
    proof (cases h)
      case None
      then have res: "dw' = dw2" "w' = set_fs f1 w1" "dr_error r \<noteq> Success"
        using run p True e(1,2) o by (auto simp: HandleResourceChunkDown_def Let_def down_error_def)
      then show ?thesis using down_inv_fs [OF R(1) O(1) c2] xs ys by auto
    next
      case (Some inode)
      obtain r' dw3 f2 where rd: "read_chunk sha ?i inode (dt_offset task) (pe_file_size_bytes e) dw2 f1 = (r', dw3, f2)"
        by (metis prod_cases3)
      note D = read_chunk_D [OF rd O(1)]
      have res: "r = r'" "dw' = dw3" "w' = set_fs f2 w1"
        using run p True e(1,2) o Some rd by (auto simp: HandleResourceChunkDown_def Let_def)
      have "dw_published_cache dw3 = dw_published_cache dw1" using D(3) c2 by simp
      then have inv: "down_inv root uid_of dw' w'" using down_inv_fs [OF R(1) D(1)] res by simp
      have n: "names (fw_fs w) (pe_file_path e) = Some (File inode)" using O(4) [OF Some] ys by simp
      have "entry_ok root uid_of (fw_db w) ?i e" using e(3) ys by (simp add: entry_ok_def find_chat_def)
      then have "?got" if "dr_error r = Success"
        using D(4) that res(1) e n xs ys by (intro exI [of _ e] exI [of _ inode]) auto
      then show ?thesis using inv D(2) res xs ys by auto
    qed
  qed
  then show "down_inv root uid_of dw' w'" ?same "dr_error r = Success \<Longrightarrow> ?got" by blast+
qed

subsection \<open>Uploads and downloads together\<close>

definition empty_downloads :: download_worker where
  "empty_downloads = \<lparr>dw_published_cache = [], dw_file_handles = []\<rparr>"

text \<open>
  Transitions of the server with one download worker.  A restart also empties the download worker;
  that it may keep its state over a restart only adds behaviour.
\<close>

inductive system_step ::
  "(string \<Rightarrow> string) \<Rightarrow> path \<Rightarrow> (nat \<Rightarrow> nat) \<Rightarrow> file_worker \<times> download_worker \<Rightarrow> file_worker \<times> download_worker \<Rightarrow> bool"
  for sha :: "string \<Rightarrow> string" and root :: path and uid_of :: "nat \<Rightarrow> nat" where
  sys_server: "server_step sha root w v \<Longrightarrow> system_step sha root uid_of (w, dw) (v, dw)"
| sys_info: "member_session uid_of session \<Longrightarrow> HandleResourceDownInfo root alive session i dw w = (r, dw', w') \<Longrightarrow>
     system_step sha root uid_of (w, dw) (w', dw')"
| sys_down: "member_session uid_of (dt_session task) \<Longrightarrow> HandleResourceChunkDown sha root alive now task dw w = (r, dw', w') \<Longrightarrow>
     system_step sha root uid_of (w, dw) (w', dw')"
| sys_empty: "system_step sha root uid_of (w, dw) (w, empty_downloads)"

inductive_cases system_stepE: "system_step sha root uid_of (w, dw) (w', dw')"

definition system_start :: "(string \<Rightarrow> string) \<Rightarrow> path \<Rightarrow> file_worker \<times> download_worker \<Rightarrow> bool" where
  "system_start sha root s \<longleftrightarrow> server_start sha root (fst s) \<and> snd s = empty_downloads"

definition system_inv :: "(string \<Rightarrow> string) \<Rightarrow> path \<Rightarrow> (nat \<Rightarrow> nat) \<Rightarrow> file_worker \<times> download_worker \<Rightarrow> bool" where
  "system_inv sha root uid_of s \<longleftrightarrow> upload_inv sha root (fst s) \<and> down_inv root uid_of (snd s) (fst s)"

lemma upload_inv_world:
  assumes "upload_inv sha root w"
  shows "upload_inv sha root (set_fs ((fw_fs w)\<lparr>faults := xs\<rparr>) (set_db ((fw_db w)\<lparr>outcomes := ys\<rparr>) w))"
  using inv_world [OF assms, of ys xs] by (cases w) (simp add: set_fs_def set_db_def)

lemma down_inv_empty: "down_inv root uid_of empty_downloads w"
  by (simp add: down_inv_def empty_downloads_def)

interpretation system: invariant_system "system_start sha root" "system_step sha root uid_of" "system_inv sha root uid_of"
  for sha root uid_of
proof unfold_locales
  show "system_inv sha root uid_of s" if "system_start sha root s" for s
    using that server.inv_init [of sha root "fst s"] by (simp add: system_start_def system_inv_def down_inv_empty)
  show "system_inv sha root uid_of t" if inv: "system_inv sha root uid_of s" and step: "system_step sha root uid_of s t" for s t
    using step inv
  proof cases
    case (sys_server w v dw)
    then show ?thesis using inv server.inv_step [of sha root w v] step_stable [of sha root w v] down_inv_stable
      by (auto simp: system_inv_def)
  next
    case (sys_info session alive i dw w r dw' w')
    then show ?thesis using inv HandleResourceDownInfo_inv [of root uid_of dw w session alive i r dw' w'] upload_inv_world
      by (auto simp: system_inv_def)
  next
    case (sys_down task alive now dw w r dw' w')
    then show ?thesis using inv HandleResourceChunkDown_D(1,2) [of root uid_of dw w task sha alive now r dw' w'] upload_inv_world
      by (auto simp: system_inv_def)
  next
    case (sys_empty w dw)
    then show ?thesis using inv by (simp add: system_inv_def down_inv_empty)
  qed
qed

subsection \<open>Properties\<close>


definition demo_down_task :: ResourceChunkDownTask where
  "demo_down_task = \<lparr>dt_session = Some ((CSession_new 8)\<lparr>cs_user_uid := 2\<rparr>), dt_message_id = 9, dt_offset = 0\<rparr>"

lemma demo_down_ok:
  "dr_error (fst (HandleResourceChunkDown demo_sha [''r''] (\<lambda>_. True) 120 demo_down_task empty_downloads demo_after)) = Success"
  by code_simp


end
