(* ===== verification/Avatar_Download.thy ===== *)
theory Avatar_Download
  imports File_Worker
begin

text \<open>
  The avatar download (1603, \<open>DownloadWorker::task_callback\<close> in
  \<open>server/ResourceServer/src/FileWorker.cpp\<close>), an older protocol: chunks of 32 KiB, numbered from 1, with the position kept in Redis under the
  name of the file.  Whether Redis stores a value is a parameter, its content is a map.  No reply
  is an exception of \<open>exists\<close>, which the worker swallows.
\<close>

definition MAX_FILE_LEN :: nat where
  "MAX_FILE_LEN = 1024 * 32"

record FileInfo =
  fi_seq :: int
  fi_name :: string
  fi_total_size :: int
  fi_trans_size :: int
  fi_file_path_str :: path

record DownloadTask =
  dl_name :: string
  dl_seq :: int
  dl_file_path :: path

record avatar_reply =
  av_error :: ErrorCodes
  av_data :: string
  av_seq :: int
  av_total_size :: int
  av_current_size :: nat
  av_is_last :: bool

definition avatar_error :: "ErrorCodes \<Rightarrow> avatar_reply" where
  "avatar_error e = \<lparr>av_error = e, av_data = [], av_seq = 0, av_total_size = 0, av_current_size = 0, av_is_last = False\<rparr>"

definition SetDownLoadInfo ::
  "bool \<Rightarrow> string \<Rightarrow> FileInfo \<Rightarrow> (string \<Rightarrow> FileInfo option) \<Rightarrow> string \<Rightarrow> FileInfo option" where
  "SetDownLoadInfo store_ok name info redis = (if store_ok then redis(name \<mapsto> info) else redis)"

definition DelDownLoadInfo :: "bool \<Rightarrow> string \<Rightarrow> (string \<Rightarrow> FileInfo option) \<Rightarrow> string \<Rightarrow> FileInfo option" where
  "DelDownLoadInfo store_ok name redis = (if store_ok then redis(name := None) else redis)"

definition send_section ::
  "bool \<Rightarrow> DownloadTask \<Rightarrow> FileInfo \<Rightarrow> string \<Rightarrow> (string \<Rightarrow> FileInfo option) \<Rightarrow> fs
   \<Rightarrow> avatar_reply option \<times> (string \<Rightarrow> FileInfo option) \<times> fs" where
  "send_section store_ok task info c redis f =
     (let offset = (dl_seq task - 1) * int MAX_FILE_LEN in
      if offset \<ge> fi_total_size info then (Some (avatar_error FileOffsetInvalid), redis, f)
      else
        let (ok, f1) = syscall f;
            buffer = (if ok \<and> offset \<ge> 0 then window (nat offset) MAX_FILE_LEN c else []) in
        if buffer = [] then (Some (avatar_error FileReadFailed), redis, f1)
        else
          let current_pos = nat offset + length buffer; is_last = (int current_pos \<ge> fi_total_size info);
              redis1 = (if is_last then DelDownLoadInfo store_ok (dl_name task) redis
                        else SetDownLoadInfo store_ok (dl_name task)
                               (info\<lparr>fi_seq := fi_seq info + 1, fi_trans_size := int current_pos\<rparr>) redis) in
          (Some \<lparr>av_error = Success, av_data = base64_encode buffer False, av_seq = dl_seq task,
                 av_total_size = fi_total_size info, av_current_size = current_pos, av_is_last = is_last\<rparr>, redis1, f1))"

definition DownloadWorker_task_callback ::
  "bool \<Rightarrow> DownloadTask \<Rightarrow> (string \<Rightarrow> FileInfo option) \<Rightarrow> fs
   \<Rightarrow> avatar_reply option \<times> (string \<Rightarrow> FileInfo option) \<times> fs" where
  "DownloadWorker_task_callback store_ok task redis f =
     (let (st, f1) = syscall f in
      if \<not> st then (None, redis, f1)
      else if names f1 (dl_file_path task) = None then (Some (avatar_error FileNotExists), redis, f1)
      else let (op, f2) = open_existing (dl_file_path task) f1 in
        case (op, content f2 (dl_file_path task)) of
          (True, Some c) \<Rightarrow>
            if dl_seq task = 1 then
              let info = \<lparr>fi_seq = 1, fi_name = dl_name task, fi_total_size = int (length c), fi_trans_size = 0,
                          fi_file_path_str = dl_file_path task\<rparr> in
              send_section store_ok task info c (SetDownLoadInfo store_ok (dl_name task) info redis) f2
            else (case redis (dl_name task) of
                    None \<Rightarrow> (Some (avatar_error RedisReadErr), redis, f2)
                  | Some info \<Rightarrow>
                      if dl_seq task \<noteq> fi_seq info then (Some (avatar_error FileSeqInvalid), redis, f2)
                      else send_section store_ok task info c redis f2)
        | _ \<Rightarrow> (Some (avatar_error FileReadPermissionFailed), redis, f2))"

text \<open>A client that asks for one section after the other, at most \<open>n\<close> of them.\<close>

fun fetch_avatar ::
  "nat \<Rightarrow> string \<Rightarrow> path \<Rightarrow> nat \<Rightarrow> (string \<Rightarrow> FileInfo option) \<Rightarrow> fs \<Rightarrow> string option" where
  "fetch_avatar 0 name p k redis f = None"
| "fetch_avatar (Suc n) name p k redis f =
     (case DownloadWorker_task_callback True \<lparr>dl_name = name, dl_seq = int k, dl_file_path = p\<rparr> redis f of
        (Some r, redis1, f1) \<Rightarrow>
          if av_error r \<noteq> Success then None
          else (case base64_decode (av_data r) False of
                  None \<Rightarrow> None
                | Some d \<Rightarrow>
                    if av_is_last r then Some d
                    else map_option ((@) d) (fetch_avatar n name p (k + 1) redis1 f1))
      | (None, _, _) \<Rightarrow> None)"

lemma quiet_syscall: "faults f = [] \<Longrightarrow> syscall f = (True, f)"
  by (cases f) (simp add: syscall_def next_fault_def)

lemma quiet_open: "faults f = [] \<Longrightarrow> open_existing p f = (content f p \<noteq> None, f)"
  by (simp add: open_existing_def quiet_syscall)

lemma send_section_ok:
  assumes "faults f = []" and off: "(dl_seq task - 1) * int MAX_FILE_LEN = int off" and "off < length c"
    and "fi_total_size info = int (length c)"
  shows "send_section True task info c red f =
     (let buffer = window off MAX_FILE_LEN c; is_last = (length c \<le> off + length buffer) in
      (Some \<lparr>av_error = Success, av_data = base64_encode buffer False, av_seq = dl_seq task, av_total_size = int (length c),
             av_current_size = off + length buffer, av_is_last = is_last\<rparr>,
       if is_last then red(dl_name task := None)
       else red(dl_name task \<mapsto> info\<lparr>fi_seq := fi_seq info + 1, fi_trans_size := int (off + length buffer)\<rparr>), f))"
proof -
  have "window off MAX_FILE_LEN c \<noteq> []" using assms(3) by (simp add: window_def MAX_FILE_LEN_def)
  then show ?thesis
    using assms(1,3,4) by (simp add: send_section_def off quiet_syscall Let_def SetDownLoadInfo_def DelDownLoadInfo_def)
qed

lemma avatar_section:
  assumes "faults f = []" and c: "content f p = Some c" and k: "0 < k" "(k - 1) * MAX_FILE_LEN < length c"
    and red: "k = 1 \<or> (\<exists>info. redis name = Some info \<and> fi_seq info = int k \<and> fi_total_size info = int (length c))"
  shows "\<exists>r redis1. DownloadWorker_task_callback True \<lparr>dl_name = name, dl_seq = int k, dl_file_path = p\<rparr> redis f = (Some r, redis1, f)
    \<and> av_error r = Success \<and> base64_decode (av_data r) False = Some (window ((k - 1) * MAX_FILE_LEN) MAX_FILE_LEN c)
    \<and> (av_is_last r \<longleftrightarrow> length c \<le> k * MAX_FILE_LEN)
    \<and> (\<not> av_is_last r \<longrightarrow> (\<exists>info. redis1 name = Some info \<and> fi_seq info = int (k + 1) \<and> fi_total_size info = int (length c)))"
proof -
  let ?t = "\<lparr>dl_name = name, dl_seq = int k, dl_file_path = p\<rparr>"
  let ?off = "(k - 1) * MAX_FILE_LEN"
  have M: "0 < MAX_FILE_LEN" by (simp add: MAX_FILE_LEN_def)
  have off: "(dl_seq ?t - 1) * int MAX_FILE_LEN = int ?off" using k(1) by (simp add: of_nat_diff)
  have buf: "window ?off MAX_FILE_LEN c \<noteq> []" using k(2) M by (simp add: window_def)
  have kM: "k * MAX_FILE_LEN = ?off + MAX_FILE_LEN" using k(1) by (cases k) simp_all
  have len: "length (window ?off MAX_FILE_LEN c) = min MAX_FILE_LEN (length c - ?off)" by (simp add: window_def min.commute)
  have last: "(length c \<le> ?off + length (window ?off MAX_FILE_LEN c)) = (length c \<le> k * MAX_FILE_LEN)"
    unfolding len kM using k(2) by auto
  have sec: "\<exists>r red1. send_section True ?t info c red f = (Some r, red1, f) \<and> av_error r = Success
      \<and> base64_decode (av_data r) False = Some (window ?off MAX_FILE_LEN c)
      \<and> (av_is_last r \<longleftrightarrow> length c \<le> k * MAX_FILE_LEN)
      \<and> (\<not> av_is_last r \<longrightarrow> (\<exists>info. red1 name = Some info \<and> fi_seq info = int (k + 1) \<and> fi_total_size info = int (length c)))"
    if "fi_seq info = int k" "fi_total_size info = int (length c)" for info red
    unfolding send_section_ok [OF assms(1) off k(2) that(2)]
    using that last by (simp add: Let_def base64_decode_encode)
  obtain i where ex: "names f p = Some i" using c by (auto elim: content_SomeE)
  let ?new = "\<lparr>fi_seq = 1, fi_name = name, fi_total_size = int (length c), fi_trans_size = 0, fi_file_path_str = p\<rparr>"
  show ?thesis
  proof (cases "k = 1")
    case True
    have "DownloadWorker_task_callback True ?t redis f = send_section True ?t ?new c (SetDownLoadInfo True name ?new redis) f"
      using assms(1) c ex True by (simp add: DownloadWorker_task_callback_def quiet_syscall quiet_open Let_def)
    then show ?thesis using sec [of ?new "SetDownLoadInfo True name ?new redis"] True by simp
  next
    case False
    then obtain info where info: "redis name = Some info" "fi_seq info = int k" "fi_total_size info = int (length c)" using red by blast
    have "DownloadWorker_task_callback True ?t redis f = send_section True ?t info c redis f"
      using assms(1) c ex False info by (simp add: DownloadWorker_task_callback_def quiet_syscall quiet_open)
    then show ?thesis using sec [OF info(2,3)] by simp
  qed
qed

lemma fetch_from:
  assumes "faults f = []" and "content f p = Some c" and "0 < k" and "(k - 1) * MAX_FILE_LEN < length c"
    and "k = 1 \<or> (\<exists>info. redis name = Some info \<and> fi_seq info = int k \<and> fi_total_size info = int (length c))"
    and "length c \<le> (k - 1 + n) * MAX_FILE_LEN"
  shows "fetch_avatar n name p k redis f = Some (drop ((k - 1) * MAX_FILE_LEN) c)"
  using assms(3-6)
proof (induction n arbitrary: k redis)
  case 0
  then show ?case by simp
next
  case (Suc n)
  obtain r redis1 where r: "DownloadWorker_task_callback True \<lparr>dl_name = name, dl_seq = int k, dl_file_path = p\<rparr> redis f = (Some r, redis1, f)"
    "av_error r = Success" "base64_decode (av_data r) False = Some (window ((k - 1) * MAX_FILE_LEN) MAX_FILE_LEN c)"
    "av_is_last r \<longleftrightarrow> length c \<le> k * MAX_FILE_LEN"
    "\<not> av_is_last r \<Longrightarrow> \<exists>info. redis1 name = Some info \<and> fi_seq info = int (k + 1) \<and> fi_total_size info = int (length c)"
    using avatar_section [where redis = redis and name = name, OF assms(1,2) Suc.prems(1-3)] by blast
  have kM: "k * MAX_FILE_LEN = (k - 1) * MAX_FILE_LEN + MAX_FILE_LEN" using Suc.prems(1) by (cases k) simp_all
  show ?case
  proof (cases "av_is_last r")
    case True
    then have "window ((k - 1) * MAX_FILE_LEN) MAX_FILE_LEN c = drop ((k - 1) * MAX_FILE_LEN) c"
      using r(4) kM by (simp add: window_def)
    then show ?thesis using r(1-3) True by simp
  next
    case False
    have "fetch_avatar n name p (k + 1) redis1 f = Some (drop ((k + 1 - 1) * MAX_FILE_LEN) c)"
      by (rule Suc.IH) (use False r(4,5) Suc.prems in \<open>auto simp: algebra_simps\<close>)
    moreover have "window ((k - 1) * MAX_FILE_LEN) MAX_FILE_LEN c @ drop (k * MAX_FILE_LEN) c = drop ((k - 1) * MAX_FILE_LEN) c"
      unfolding kM window_def by (metis add.commute append_take_drop_id drop_drop)
    ultimately show ?thesis using r(1-3) False by simp
  qed
qed

text \<open>
  C21.  Avatar downloads are complete: a client that asks for the sections 1, 2, ... of a non-empty
  file, with nobody else downloading under that name, gets exactly the bytes of the file, and as
  many requests are enough as the file has sections of 32 KiB.
\<close>

theorem avatar_download_complete:
  assumes "faults f = []" and "content f p = Some c" and "c \<noteq> []" and "length c \<le> n * MAX_FILE_LEN"
  shows "fetch_avatar n name p 1 redis f = Some c"
  using fetch_from [OF assms(1,2), of 1 redis name n] assms(3,4) by simp

theorem avatar_download_complete_witness:
  "fetch_avatar 1 ''a.png'' [''r'', ''p''] 1 (\<lambda>_. None) demo_move_fs = Some ''abc''"
  using avatar_download_complete [of demo_move_fs "[''r'', ''p'']" "''abc''" 1 "''a.png''" "\<lambda>_. None"]
  by (simp add: demo_move_fs_def demo_fs_def content_def MAX_FILE_LEN_def)

end
