(* ===== verification/Json_Value.thy ===== *)
theory Json_Value
  imports Chat_Prelude
begin

text \<open>
  JSON values as the servers read them.  Parser and printer belong to the library nlohmann/json and
  are parameters of the definitions that use them: \<open>parse\<close> gives \<open>None\<close> for text that is discarded.
  Of a floating-point number only its value truncated toward zero is kept, the one thing the
  servers ever read of it.  The order of the members of an object carries no meaning.

  An access that throws in the code is \<open>None\<close>: \<open>operator[]\<close> with a key on anything but an object or
  null, and \<open>get\<close> with a type the value does not have.
\<close>

datatype json = JNull | JBool bool | JInt int | JFloat int | JStr string | JArr "json list" | JObj "(string \<times> json) list"

definition is_string :: "json \<Rightarrow> bool" where
  "is_string j = (case j of JStr _ \<Rightarrow> True | _ \<Rightarrow> False)"

definition is_object :: "json \<Rightarrow> bool" where
  "is_object j = (case j of JObj _ \<Rightarrow> True | _ \<Rightarrow> False)"

definition json_contains :: "json \<Rightarrow> string \<Rightarrow> bool" where
  "json_contains j k = (case j of JObj ms \<Rightarrow> map_of ms k \<noteq> None | _ \<Rightarrow> False)"

definition json_member :: "json \<Rightarrow> string \<Rightarrow> json option" where
  "json_member j k =
     (case j of JObj ms \<Rightarrow> Some (case map_of ms k of Some v \<Rightarrow> v | None \<Rightarrow> JNull)
      | JNull \<Rightarrow> Some JNull | _ \<Rightarrow> None)"

definition get_string :: "json \<Rightarrow> string option" where
  "get_string j = (case j of JStr s \<Rightarrow> Some s | _ \<Rightarrow> None)"

text \<open>
  \<open>get<int>()\<close> converts booleans and all numbers, an integer by reduction to 32 bits, a
  floating-point number outside of the range to the smallest \<open>int\<close>, as the processor does.
\<close>

definition to_int32 :: "int \<Rightarrow> int" where
  "to_int32 i = sint (word_of_int i :: 32 word)"

definition get_int :: "json \<Rightarrow> int option" where
  "get_int j =
     (case j of JInt i \<Rightarrow> Some (to_int32 i) | JBool b \<Rightarrow> Some (of_bool b)
      | JFloat t \<Rightarrow> Some (if - (2 ^ 31) \<le> t \<and> t < 2 ^ 31 then t else - (2 ^ 31))
      | _ \<Rightarrow> None)"

definition string_field :: "json option \<Rightarrow> string \<Rightarrow> string option" where
  "string_field root k = Option.bind (Option.bind root (\<lambda>j. json_member j k)) get_string"

definition int_field :: "json option \<Rightarrow> string \<Rightarrow> int option" where
  "int_field root k = Option.bind (Option.bind root (\<lambda>j. json_member j k)) get_int"

subsection \<open>Decimal strings of 64 bits\<close>

text \<open>\<open>std::stoull\<close> on a non-empty string of digits: it throws where the value needs more than 64 bits.\<close>

definition stoull :: "string \<Rightarrow> nat option" where
  "stoull s = (if read_digits s < 2 ^ 64 then Some (read_digits s) else None)"

definition ParseJsonUInt64 :: "json \<Rightarrow> nat option" where
  "ParseJsonUInt64 v =
     (case v of
        JStr s \<Rightarrow>
          if s = [] \<or> \<not> list_all is_digit s then None
          else (case stoull s of None \<Rightarrow> None | Some n \<Rightarrow> if n \<le> 2 ^ 63 - 1 then Some n else None)
      | _ \<Rightarrow> None)"

lemma ParseJsonUInt64_to_string: "n < 2 ^ 63 \<Longrightarrow> ParseJsonUInt64 (JStr (to_string n)) = Some n"
  using to_string_digits [of n] by (simp add: ParseJsonUInt64_def stoull_def)

lemma ParseJsonUInt64_less: "ParseJsonUInt64 v = Some n \<Longrightarrow> n < 2 ^ 63"
  by (auto simp: ParseJsonUInt64_def split: json.splits if_splits option.splits)

interpretation decimal_codec: codec "\<lambda>n. JStr (to_string n)" ParseJsonUInt64 "\<lambda>n. n < 2 ^ 63"
  by unfold_locales (rule ParseJsonUInt64_to_string)

end
