(* ===== verification/Resource_Logic.thy ===== *)
theory Resource_Logic
  imports Json_Value Logic_Worker Download_Worker Avatar_Download "HOL-Library.Monad_Syntax"
begin

text \<open>
  The protocol entry of the resource server (\<open>server/ResourceServer/src/ResourceLogicWorker.cpp\<close>,
  \<open>LogicSystem.cpp\<close> and \<open>FileSystem.cpp\<close>): login, the gate in front of all other messages, and the
  handlers that check a request and post a job to the file or download worker that is responsible
  for it.  What the jobs do is in File_Worker, Upload_Progress and Download_Worker.

  \<open>parse\<close> and \<open>dump\<close> are those of the JSON library and \<open>hash_fn\<close> is \<open>std::hash\<close>; \<open>get_ok\<close> and \<open>set_ok\<close> say whether
  Redis answers reads and writes during the request.  A handler that throws leaves the state as it is, since the executor
  swallows the exception (\<open>RunGuarded\<close>).  Every job carries the size of the quota token that came
  with the frame.
\<close>

subsection \<open>Jobs and state\<close>

datatype file_job =
    Job_icon nat FileTask
  | Job_chunk ResourceChunkTask
  | Job_progress nat nat nat
  | Job_proof nat nat nat string

datatype down_job =
    Job_avatar nat DownloadTask
  | Job_info "CSession option" nat
  | Job_chunk_down ResourceChunkDownTask

record resource_server =
  rs_sessions :: "nat \<Rightarrow> CSession"
  rs_redis :: "string \<Rightarrow> string option"
  rs_file_info :: "string \<Rightarrow> FileInfo option"
  rs_file_workers :: "(file_job \<times> nat) worker list"
  rs_down_workers :: "(down_job \<times> nat) worker list"

definition DOWN_LOAD_WORKER_COUNT :: nat where
  "DOWN_LOAD_WORKER_COUNT = 4"

definition USERTOKENPREFIX :: string where
  "USERTOKENPREFIX = ''utoken_''"

definition PostFile :: "file_job \<times> nat \<Rightarrow> nat \<Rightarrow> resource_server \<Rightarrow> resource_server" where
  "PostFile job index w =
     w\<lparr>rs_file_workers := (rs_file_workers w)[index := snd (Post job (rs_file_workers w ! index))]\<rparr>"

definition PostDown :: "down_job \<times> nat \<Rightarrow> nat \<Rightarrow> resource_server \<Rightarrow> resource_server" where
  "PostDown job index w =
     w\<lparr>rs_down_workers := (rs_down_workers w)[index := snd (Post job (rs_down_workers w ! index))]\<rparr>"

definition at_session :: "nat \<Rightarrow> (CSession \<Rightarrow> CSession) \<Rightarrow> resource_server \<Rightarrow> resource_server" where
  "at_session i g w = w\<lparr>rs_sessions := (rs_sessions w)(i := g (rs_sessions w i))\<rparr>"

subsection \<open>Replies\<close>

definition wire_id :: "MsgId \<Rightarrow> u16" where
  "wire_id m = of_nat (msg_num m)"

definition error_json :: "ErrorCodes \<Rightarrow> (string \<times> json) list \<Rightarrow> json" where
  "error_json e ms = JObj ((''error'', JInt (int (err_num e))) # ms)"

definition SendRspFrame :: "(json \<Rightarrow> string) \<Rightarrow> MsgId \<Rightarrow> json \<Rightarrow> string \<Rightarrow> CSession \<Rightarrow> CSession" where
  "SendRspFrame dump rsp_id meta raw s =
     (if rsp_id = MSG_RESOURCE_CHUNK_DOWN_RSP then
        (case EncodeFrame (dump meta) raw (Some []) of
           (True, Some body) \<Rightarrow> Send body (wire_id rsp_id) s
         | _ \<Rightarrow> s)
      else Send (dump meta) (wire_id rsp_id) s)"

definition SendRspFrameAndClose :: "(json \<Rightarrow> string) \<Rightarrow> MsgId \<Rightarrow> json \<Rightarrow> CSession \<Rightarrow> CSession" where
  "SendRspFrameAndClose dump rsp_id meta s =
     (if rsp_id = MSG_RESOURCE_CHUNK_DOWN_RSP then
        (case EncodeFrame (dump meta) [] (Some []) of
           (True, Some body) \<Rightarrow> SendAndClose body (wire_id rsp_id) s
         | _ \<Rightarrow> s)
      else SendAndClose (dump meta) (wire_id rsp_id) s)"

subsection \<open>Avatars\<close>

fun has_dotdot :: "string \<Rightarrow> bool" where
  "has_dotdot (a # b # cs) = ((a = CHR ''.'' \<and> b = CHR ''.'') \<or> has_dotdot (b # cs))"
| "has_dotdot _ = False"

definition IsValidAvatarName :: "string \<Rightarrow> bool" where
  "IsValidAvatarName name =
     (if name = [] \<or> length name > 128 \<or> hd name = CHR ''.'' then False
      else if has_dotdot name then False
      else list_all (\<lambda>c. \<not> (c = CHR ''/'' \<or> c = CHR 0x5C \<or> byte_of c < 32)) name)"

record icon_request =
  ir_md5 :: string
  ir_seq :: int
  ir_name :: string
  ir_total_size :: int
  ir_trans_size :: int
  ir_last :: int
  ir_data :: string
  ir_last_seq :: int

definition icon_fields :: "json option \<Rightarrow> icon_request option" where
  "icon_fields root = do {
     md5 \<leftarrow> string_field root ''md5''; seq \<leftarrow> int_field root ''seq''; name \<leftarrow> string_field root ''name'';
     total_size \<leftarrow> int_field root ''total_size''; trans_size \<leftarrow> int_field root ''trans_size'';
     last \<leftarrow> int_field root ''last''; file_data \<leftarrow> string_field root ''data''; last_seq \<leftarrow> int_field root ''last_seq'';
     Some \<lparr>ir_md5 = md5, ir_seq = seq, ir_name = name, ir_total_size = total_size, ir_trans_size = trans_size,
           ir_last = last, ir_data = file_data, ir_last_seq = last_seq\<rparr> }"

definition name_refused :: "int \<Rightarrow> string \<Rightarrow> json" where
  "name_refused seq name = error_json ResourceInvalid [(''seq'', JInt seq), (''name'', JStr name)]"

text \<open>The progress record of an avatar upload; the result is the error, if any.\<close>

definition note_progress ::
  "bool \<Rightarrow> bool \<Rightarrow> path \<Rightarrow> icon_request \<Rightarrow> (string \<Rightarrow> FileInfo option) \<Rightarrow> ErrorCodes option \<times> (string \<Rightarrow> FileInfo option)" where
  "note_progress get_ok set_ok file_path r infos =
     (if ir_seq r = 1 then
        let file_info = \<lparr>fi_seq = ir_seq r, fi_name = ir_name r, fi_total_size = ir_total_size r,
                         fi_trans_size = ir_trans_size r, fi_file_path_str = file_path\<rparr> in
        if \<not> set_ok then (Some FileSaveRedisFailed, infos) else (None, infos(ir_name r \<mapsto> file_info))
      else
        (case (if get_ok then infos (ir_name r) else None) of
           None \<Rightarrow> (Some FileNotExists, infos)
         | Some file_info \<Rightarrow>
             if \<not> set_ok then (Some FileSaveRedisFailed, infos)
             else (None, infos(ir_name r \<mapsto> file_info\<lparr>fi_seq := ir_seq r, fi_trans_size := ir_trans_size r\<rparr>))))"

definition handleUploadHeadIcon ::
  "(string \<Rightarrow> json option) \<Rightarrow> (json \<Rightarrow> string) \<Rightarrow> (string \<Rightarrow> nat) \<Rightarrow> path \<Rightarrow> bool \<Rightarrow> bool
   \<Rightarrow> nat \<Rightarrow> string \<Rightarrow> nat \<Rightarrow> resource_server \<Rightarrow> resource_server" where
  "handleUploadHeadIcon parse dump hash_fn out get_ok set_ok i msg_data quota w =
     (case icon_fields (parse msg_data) of
        None \<Rightarrow> w
      | Some r \<Rightarrow>
          let uid = cs_user_uid (rs_sessions w i); file_path = out @ [to_string uid, ir_name r];
              reply = (\<lambda>j. at_session i (Send (dump j) (wire_id MSG_UPLOAD_HEAD_ICON_RSP))) in
          if \<not> IsValidAvatarName (ir_name r) then reply (name_refused (ir_seq r) (ir_name r)) w
          else
            let index = hash_fn (ir_name r) mod FILE_WORKER_COUNT;
                (refused, infos) = note_progress get_ok set_ok file_path r (rs_file_info w); w1 = w\<lparr>rs_file_info := infos\<rparr> in
            (case refused of
               Some e \<Rightarrow> reply (error_json e []) w1
             | None \<Rightarrow> PostFile (Job_icon i \<lparr>ft_uid = uid, ft_seq = ir_seq r, ft_path = file_path,
                         ft_last = (ir_last r \<noteq> 0), ft_file_data = ir_data r\<rparr>, quota) index w1))"

definition handleDownloadFile ::
  "(string \<Rightarrow> json option) \<Rightarrow> (json \<Rightarrow> string) \<Rightarrow> (string \<Rightarrow> nat) \<Rightarrow> path
   \<Rightarrow> nat \<Rightarrow> string \<Rightarrow> nat \<Rightarrow> resource_server \<Rightarrow> resource_server" where
  "handleDownloadFile parse dump hash_fn out i msg_data quota w =
     (let root = parse msg_data in
      case do { seq \<leftarrow> int_field root ''seq''; name \<leftarrow> string_field root ''name'';
                client_path \<leftarrow> string_field root ''client_path''; req_type \<leftarrow> string_field root ''req_type'';
                Some (seq, name) } of
        None \<Rightarrow> w
      | Some (seq, name) \<Rightarrow>
          let uid = cs_user_uid (rs_sessions w i) in
          if \<not> IsValidAvatarName name
          then at_session i (Send (dump (name_refused seq name)) (wire_id MSG_DOWN_LOAD_FILE_RSP)) w
          else PostDown (Job_avatar i \<lparr>dl_name = name, dl_seq = seq, dl_file_path = out @ [to_string uid, name]\<rparr>, quota)
                 (hash_fn name mod FILE_WORKER_COUNT) w)"

subsection \<open>Resources\<close>

definition id_field :: "json \<Rightarrow> string \<Rightarrow> nat option" where
  "id_field root k = (if json_contains root k then Option.bind (json_member root k) ParseJsonUInt64 else None)"

definition message_id_of :: "json option \<Rightarrow> nat option" where
  "message_id_of root =
     (case root of None \<Rightarrow> None
      | Some r \<Rightarrow>
          if \<not> is_object r then None
          else (case id_field r ''message_id'' of None \<Rightarrow> None | Some n \<Rightarrow> if n = 0 then None else Some n))"

definition message_id_echo :: "json \<Rightarrow> json" where
  "message_id_echo root =
     (case json_member root ''message_id'' of Some (JStr s) \<Rightarrow> JStr s | _ \<Rightarrow> JStr ''0'')"

definition chunk_fields :: "json \<Rightarrow> string \<Rightarrow> (nat \<times> nat \<times> string) option" where
  "chunk_fields root file_data = do {
     message_id \<leftarrow> id_field root ''message_id''; offset \<leftarrow> id_field root ''offset'';
     h \<leftarrow> Option.bind (json_member root ''chunk_sha256'') get_string;
     if file_data = [] then None else Some (message_id, offset, h) }"

definition handleResourceChunkUpload ::
  "(string \<Rightarrow> json option) \<Rightarrow> (json \<Rightarrow> string) \<Rightarrow> nat \<Rightarrow> string \<Rightarrow> nat \<Rightarrow> resource_server \<Rightarrow> resource_server" where
  "handleResourceChunkUpload parse dump i msg_data quota w =
     (let refuse = (\<lambda>fields. at_session i (SendRspFrame dump MSG_RESOURCE_CHUNK_UPLOAD_RSP (error_json Error_Json fields) [])) in
      case DecodeFrame msg_data (Some []) (Some []) of
        (True, Some meta_str, Some file_data) \<Rightarrow>
          (case parse meta_str of
             None \<Rightarrow> refuse [] w
           | Some root \<Rightarrow>
               if \<not> is_object root then refuse [] w
               else (case chunk_fields root file_data of
                       None \<Rightarrow> refuse [(''message_id'', message_id_echo root)] w
                     | Some (message_id, offset, chunk_sha256) \<Rightarrow>
                         if message_id = 0 \<or> \<not> IsValidSha256Hex chunk_sha256
                         then refuse [(''message_id'', JStr (to_string message_id))] w
                         else PostFile (Job_chunk \<lparr>tk_session = Some (rs_sessions w i), tk_message_id = message_id,
                                tk_offset = offset, tk_chunk_sha256 = chunk_sha256, tk_file_data = file_data\<rparr>, quota)
                                (ResourceWorkerIndex message_id FILE_WORKER_COUNT) w))
      | _ \<Rightarrow> refuse [] w)"

definition handleResourceUploadProgress ::
  "(string \<Rightarrow> json option) \<Rightarrow> (json \<Rightarrow> string) \<Rightarrow> nat \<Rightarrow> string \<Rightarrow> nat \<Rightarrow> resource_server \<Rightarrow> resource_server" where
  "handleResourceUploadProgress parse dump i msg_data quota w =
     (case message_id_of (parse msg_data) of
        None \<Rightarrow> at_session i (Send (dump (error_json Error_Json [])) (wire_id MSG_RESOURCE_UPLOAD_PROGRESS_RSP)) w
      | Some message_id \<Rightarrow>
          PostFile (Job_progress i (cs_user_uid (rs_sessions w i)) message_id, quota)
            (ResourceWorkerIndex message_id FILE_WORKER_COUNT) w)"

definition handleInstantProof ::
  "(string \<Rightarrow> json option) \<Rightarrow> (json \<Rightarrow> string) \<Rightarrow> nat \<Rightarrow> string \<Rightarrow> nat \<Rightarrow> resource_server \<Rightarrow> resource_server" where
  "handleInstantProof parse dump i msg_data quota w =
     (let root = parse msg_data in
      case (message_id_of root, string_field root ''proof'') of
        (Some message_id, Some proof_hex) \<Rightarrow>
          PostFile (Job_proof i (cs_user_uid (rs_sessions w i)) message_id proof_hex, quota)
            (ResourceWorkerIndex message_id FILE_WORKER_COUNT) w
      | _ \<Rightarrow> at_session i (SendRspFrame dump MSG_RESOURCE_INSTANT_PROOF_RSP (error_json Error_Json []) []) w)"

definition handleResourceDownInfo ::
  "(string \<Rightarrow> json option) \<Rightarrow> (json \<Rightarrow> string) \<Rightarrow> nat \<Rightarrow> string \<Rightarrow> nat \<Rightarrow> resource_server \<Rightarrow> resource_server" where
  "handleResourceDownInfo parse dump i msg_data quota w =
     (case message_id_of (parse msg_data) of
        None \<Rightarrow> at_session i (Send (dump (error_json Error_Json [])) (wire_id MSG_RESOURCE_DOWN_INFO_RSP)) w
      | Some message_id \<Rightarrow>
          PostDown (Job_info (Some (rs_sessions w i)) message_id, quota)
            (ResourceWorkerIndex message_id DOWN_LOAD_WORKER_COUNT) w)"

definition handleResourceChunkDown ::
  "(string \<Rightarrow> json option) \<Rightarrow> (json \<Rightarrow> string) \<Rightarrow> nat \<Rightarrow> string \<Rightarrow> nat \<Rightarrow> resource_server \<Rightarrow> resource_server" where
  "handleResourceChunkDown parse dump i msg_data quota w =
     (let root = parse msg_data in
      case (message_id_of root, Option.bind root (\<lambda>r. id_field r ''offset'')) of
        (Some message_id, Some offset) \<Rightarrow>
          PostDown (Job_chunk_down \<lparr>dt_session = Some (rs_sessions w i), dt_message_id = message_id, dt_offset = offset\<rparr>, quota)
            (ResourceWorkerIndex message_id DOWN_LOAD_WORKER_COUNT) w
      | _ \<Rightarrow> at_session i (SendRspFrame dump MSG_RESOURCE_CHUNK_DOWN_RSP (error_json Error_Json []) []) w)"

subsection \<open>Login and dispatch\<close>

definition handleResourceLogin ::
  "(string \<Rightarrow> json option) \<Rightarrow> (json \<Rightarrow> string) \<Rightarrow> bool \<Rightarrow> nat \<Rightarrow> string \<Rightarrow> resource_server \<Rightarrow> resource_server" where
  "handleResourceLogin parse dump get_ok i msg_data w =
     (let root = parse msg_data;
          reply = (\<lambda>j. at_session i (Send (dump j) (wire_id MSG_RESOURCE_LOGIN_RSP)));
          fields = (case root of
              Some (JObj ms) \<Rightarrow> do { uid \<leftarrow> int_field root ''uid''; token \<leftarrow> string_field root ''token''; Some (uid, token) }
            | _ \<Rightarrow> None) in
      case fields of
        None \<Rightarrow> reply (error_json TokenInvalid []) w
      | Some (uid, token) \<Rightarrow>
          (case (if get_ok then rs_redis w (USERTOKENPREFIX @ to_string_int uid) else None) of
             None \<Rightarrow> reply (error_json TokenInvalid []) w
           | Some stored_token \<Rightarrow>
               if stored_token \<noteq> token then reply (error_json TokenInvalid []) w
               else let (ok, s1) = TrySetAuth uid (rs_sessions w i); w1 = at_session i (\<lambda>_. s1) w in
                 if \<not> ok then w1 else reply (error_json Success [(''uid'', JInt uid)]) w1))"

text \<open>The table \<open>_fun_callbacks\<close>.\<close>

definition fun_callbacks ::
  "(string \<Rightarrow> json option) \<Rightarrow> (json \<Rightarrow> string) \<Rightarrow> (string \<Rightarrow> nat) \<Rightarrow> path \<Rightarrow> bool \<Rightarrow> bool
   \<Rightarrow> MsgId \<Rightarrow> (nat \<Rightarrow> string \<Rightarrow> nat \<Rightarrow> resource_server \<Rightarrow> resource_server) option" where
  "fun_callbacks parse dump hash_fn out get_ok set_ok m =
     (case m of
        MSG_UPLOAD_HEAD_ICON_REQ \<Rightarrow> Some (handleUploadHeadIcon parse dump hash_fn out get_ok set_ok)
      | MSG_DOWN_LOAD_FILE_REQ \<Rightarrow> Some (handleDownloadFile parse dump hash_fn out)
      | MSG_RESOURCE_CHUNK_UPLOAD_REQ \<Rightarrow> Some (handleResourceChunkUpload parse dump)
      | MSG_RESOURCE_UPLOAD_PROGRESS_REQ \<Rightarrow> Some (handleResourceUploadProgress parse dump)
      | MSG_RESOURCE_INSTANT_PROOF_REQ \<Rightarrow> Some (handleInstantProof parse dump)
      | MSG_RESOURCE_DOWN_INFO_REQ \<Rightarrow> Some (handleResourceDownInfo parse dump)
      | MSG_RESOURCE_CHUNK_DOWN_REQ \<Rightarrow> Some (handleResourceChunkDown parse dump)
      | MSG_RESOURCE_LOGIN_REQ \<Rightarrow> Some (\<lambda>i msg_data quota. handleResourceLogin parse dump get_ok i msg_data)
      | _ \<Rightarrow> None)"

definition task_callback ::
  "(string \<Rightarrow> json option) \<Rightarrow> (json \<Rightarrow> string) \<Rightarrow> (string \<Rightarrow> nat) \<Rightarrow> path \<Rightarrow> bool \<Rightarrow> bool
   \<Rightarrow> nat \<Rightarrow> nat \<Rightarrow> string \<Rightarrow> nat \<Rightarrow> resource_server \<Rightarrow> resource_server" where
  "task_callback parse dump hash_fn out get_ok set_ok i type_id msg_data quota w =
     (let callback = Option.bind (msg_of_num type_id) (fun_callbacks parse dump hash_fn out get_ok set_ok) in
      if \<not> IsOpen (cs_lifecycle (rs_sessions w i)) then w
      else if msg_of_num type_id = Some MSG_RESOURCE_LOGIN_REQ then
        (case callback of None \<Rightarrow> w | Some h \<Rightarrow> h i msg_data quota w)
      else if \<not> cs_authed (rs_sessions w i) then
        (case Option.bind (msg_of_num type_id) ReqToRspId of
           Some rsp_id \<Rightarrow> at_session i (SendRspFrameAndClose dump rsp_id (error_json TokenInvalid [])) w
         | None \<Rightarrow> at_session i Close w)
      else (case callback of None \<Rightarrow> w | Some h \<Rightarrow> h i msg_data quota w))"

subsection \<open>Jobs come from users that are logged in\<close>

definition logged_in :: "resource_server \<Rightarrow> nat \<Rightarrow> nat \<Rightarrow> bool" where
  "logged_in w i uid \<longleftrightarrow> cs_authed (rs_sessions w i) \<and> cs_user_uid (rs_sessions w i) = uid \<and> 0 < uid"

definition from_user :: "resource_server \<Rightarrow> CSession option \<Rightarrow> bool" where
  "from_user w s \<longleftrightarrow> (\<exists>cs. s = Some cs \<and> logged_in w (cs_id cs) (cs_user_uid cs))"

definition avatar_path :: "path \<Rightarrow> nat \<Rightarrow> path \<Rightarrow> bool" where
  "avatar_path out uid p \<longleftrightarrow> (\<exists>name. IsValidAvatarName name \<and> p = out @ [to_string uid, name])"

fun file_job_ok :: "path \<Rightarrow> resource_server \<Rightarrow> nat \<Rightarrow> file_job \<Rightarrow> bool" where
  "file_job_ok out w k (Job_icon i t) \<longleftrightarrow> logged_in w i (ft_uid t) \<and> avatar_path out (ft_uid t) (ft_path t)"
| "file_job_ok out w k (Job_chunk t) \<longleftrightarrow> from_user w (tk_session t) \<and> 0 < tk_message_id t
     \<and> tk_message_id t mod FILE_WORKER_COUNT = k \<and> IsValidSha256Hex (tk_chunk_sha256 t) \<and> tk_file_data t \<noteq> []"
| "file_job_ok out w k (Job_progress i uid m) \<longleftrightarrow> logged_in w i uid \<and> 0 < m \<and> m mod FILE_WORKER_COUNT = k"
| "file_job_ok out w k (Job_proof i uid m h) \<longleftrightarrow> logged_in w i uid \<and> 0 < m \<and> m mod FILE_WORKER_COUNT = k"

fun down_job_ok :: "path \<Rightarrow> resource_server \<Rightarrow> nat \<Rightarrow> down_job \<Rightarrow> bool" where
  "down_job_ok out w k (Job_avatar i t) \<longleftrightarrow> (\<exists>uid. logged_in w i uid \<and> avatar_path out uid (dl_file_path t))"
| "down_job_ok out w k (Job_info s m) \<longleftrightarrow> from_user w s \<and> 0 < m \<and> m mod DOWN_LOAD_WORKER_COUNT = k"
| "down_job_ok out w k (Job_chunk_down t) \<longleftrightarrow> from_user w (dt_session t) \<and> 0 < dt_message_id t
     \<and> dt_message_id t mod DOWN_LOAD_WORKER_COUNT = k"

definition workers_ok :: "(nat \<Rightarrow> 'j \<Rightarrow> bool) \<Rightarrow> ('j \<times> nat) worker list \<Rightarrow> bool" where
  "workers_ok P ws \<longleftrightarrow> (\<forall>k < length ws. worker_inv (ws ! k) \<and> (\<forall>(j, q) \<in> set (accepted (ws ! k)). P k j))"

definition sessions_ok :: "resource_server \<Rightarrow> bool" where
  "sessions_ok w \<longleftrightarrow> (\<forall>i. cs_id (rs_sessions w i) = i \<and> (cs_authed (rs_sessions w i) \<longrightarrow> 0 < cs_user_uid (rs_sessions w i)))"

definition requests_inv :: "path \<Rightarrow> resource_server \<Rightarrow> bool" where
  "requests_inv out w \<longleftrightarrow> sessions_ok w
     \<and> length (rs_file_workers w) = FILE_WORKER_COUNT \<and> length (rs_down_workers w) = DOWN_LOAD_WORKER_COUNT
     \<and> workers_ok (file_job_ok out w) (rs_file_workers w) \<and> workers_ok (down_job_ok out w) (rs_down_workers w)"

text \<open>Nobody logs out, and nobody logs in a second time.\<close>

definition logins_kept :: "resource_server \<Rightarrow> resource_server \<Rightarrow> bool" where
  "logins_kept w v \<longleftrightarrow> (\<forall>i uid. logged_in w i uid \<longrightarrow> logged_in v i uid)"

lemma file_job_ok_mono: "file_job_ok out w k j \<Longrightarrow> logins_kept w v \<Longrightarrow> file_job_ok out v k j"
  unfolding logins_kept_def by (cases j) (auto simp: from_user_def)

lemma down_job_ok_mono: "down_job_ok out w k j \<Longrightarrow> logins_kept w v \<Longrightarrow> down_job_ok out v k j"
  unfolding logins_kept_def by (cases j) (auto simp: from_user_def)

lemma workers_ok_mono: "workers_ok P ws \<Longrightarrow> (\<And>k j. P k j \<Longrightarrow> Q k j) \<Longrightarrow> workers_ok Q ws"
  unfolding workers_ok_def by fast

lemma workers_ok_update:
  assumes "workers_ok P ws" and "k < length ws" and "worker_inv v"
    and "\<And>j q. (j, q) \<in> set (accepted v) \<Longrightarrow> (j, q) \<in> set (accepted (ws ! k)) \<or> P k j"
  shows "workers_ok P (ws[k := v])"
  unfolding workers_ok_def
proof (intro allI impI)
  fix m
  assume m: "m < length (ws[k := v])"
  show "worker_inv (ws[k := v] ! m) \<and> (\<forall>(j, q) \<in> set (accepted (ws[k := v] ! m)). P m j)"
  proof (cases "m = k")
    case True
    have "P k j" if "(j, q) \<in> set (accepted v)" for j q
      using assms(4) [OF that] assms(1,2) unfolding workers_ok_def by blast
    then show ?thesis using True assms(2,3) by auto
  next
    case False
    then show ?thesis using assms(1) m unfolding workers_ok_def by simp
  qed
qed

lemma workers_ok_post:
  assumes "workers_ok P ws" and "k < length ws" and "P k j"
  shows "workers_ok P (ws[k := snd (Post (j, q) (ws ! k))])"
proof (rule workers_ok_update [OF assms(1,2)])
  show "worker_inv (snd (Post (j, q) (ws ! k)))" using assms(1,2) by (auto simp: workers_ok_def intro: worker_inv_Post)
qed (use assms(3) in \<open>auto simp: Post_def split: if_splits\<close>)

lemma requests_inv_mono:
  assumes "sessions_ok v" and kept: "logins_kept w v"
    and "length (rs_file_workers v) = FILE_WORKER_COUNT" and "length (rs_down_workers v) = DOWN_LOAD_WORKER_COUNT"
    and "workers_ok (file_job_ok out w) (rs_file_workers v)" and "workers_ok (down_job_ok out w) (rs_down_workers v)"
  shows "requests_inv out v"
  unfolding requests_inv_def
  using assms(1,3,4) workers_ok_mono [OF assms(5), of "file_job_ok out v"] file_job_ok_mono [OF _ kept]
    workers_ok_mono [OF assms(6), of "down_job_ok out v"] down_job_ok_mono [OF _ kept]
  by blast

lemma requests_inv_kept:
  assumes "requests_inv out w" and "logins_kept w v" and "sessions_ok v"
    and "rs_file_workers v = rs_file_workers w" and "rs_down_workers v = rs_down_workers w"
  shows "requests_inv out v"
  by (rule requests_inv_mono [OF assms(3,2)]) (use assms(1,4,5) in \<open>simp_all add: requests_inv_def\<close>)

lemma same_sessions:
  "rs_sessions v = rs_sessions w \<Longrightarrow> logins_kept w v" "rs_sessions v = rs_sessions w \<Longrightarrow> sessions_ok v = sessions_ok w"
  by (simp_all add: logins_kept_def logged_in_def sessions_ok_def)

lemma requests_inv_post_file:
  assumes "requests_inv out w" and "k < FILE_WORKER_COUNT" and "file_job_ok out w k j"
  shows "requests_inv out (PostFile (j, q) k w)"
  by (rule requests_inv_mono [of _ w])
     (use assms workers_ok_post [of "file_job_ok out w" "rs_file_workers w" k j q]
        same_sessions [of "PostFile (j, q) k w" w] in \<open>simp_all add: requests_inv_def PostFile_def\<close>)

lemma requests_inv_post_down:
  assumes "requests_inv out w" and "k < DOWN_LOAD_WORKER_COUNT" and "down_job_ok out w k j"
  shows "requests_inv out (PostDown (j, q) k w)"
  by (rule requests_inv_mono [of _ w])
     (use assms workers_ok_post [of "down_job_ok out w" "rs_down_workers w" k j q]
        same_sessions [of "PostDown (j, q) k w" w] in \<open>simp_all add: requests_inv_def PostDown_def\<close>)

text \<open>Operations that leave the login of a session alone.\<close>

definition quiet :: "(CSession \<Rightarrow> CSession) \<Rightarrow> bool" where
  "quiet g \<longleftrightarrow> (\<forall>s. cs_id (g s) = cs_id s \<and> cs_authed (g s) = cs_authed s \<and> cs_user_uid (g s) = cs_user_uid s)"

lemma quiet_Close [intro, simp]: "quiet Close"
  by (simp add: quiet_def Close_def Let_def split: prod.split)

lemma quiet_Send [intro, simp]: "quiet (Send m t)"
  using quiet_Close by (simp add: quiet_def Send_def TryReserveSendBudget_def)

lemma quiet_SendAndClose [intro, simp]: "quiet (SendAndClose m t)"
  using quiet_Close by (simp add: quiet_def SendAndClose_def TryReserveSendBudget_def)

lemma quiet_SendRspFrame [intro, simp]: "quiet (SendRspFrame dump r j raw)"
  using quiet_Send unfolding quiet_def SendRspFrame_def by (auto split: prod.split bool.split option.split)

lemma quiet_SendRspFrameAndClose [intro, simp]: "quiet (SendRspFrameAndClose dump r j)"
  using quiet_SendAndClose unfolding quiet_def SendRspFrameAndClose_def by (auto split: prod.split bool.split option.split)

lemma requests_inv_quiet:
  assumes "requests_inv out w" and "quiet g"
  shows "requests_inv out (at_session i g w)"
  by (rule requests_inv_kept [OF assms(1)])
     (use assms in \<open>auto simp: logins_kept_def logged_in_def at_session_def sessions_ok_def requests_inv_def quiet_def\<close>)

lemma requests_inv_store:
  assumes "requests_inv out w"
  shows "requests_inv out (w\<lparr>rs_redis := r, rs_file_info := fi\<rparr>)" and "requests_inv out (w\<lparr>rs_file_info := fi\<rparr>)"
  by (rule requests_inv_kept [OF assms]; use assms in \<open>simp add: requests_inv_def sessions_ok_def logins_kept_def logged_in_def\<close>)+

lemma index_less [simp]:
  "ResourceWorkerIndex m FILE_WORKER_COUNT < FILE_WORKER_COUNT" "n mod FILE_WORKER_COUNT < FILE_WORKER_COUNT"
  "ResourceWorkerIndex m DOWN_LOAD_WORKER_COUNT < DOWN_LOAD_WORKER_COUNT" "n mod FILE_WORKER_COUNT < DOWN_LOAD_WORKER_COUNT"
  "n mod DOWN_LOAD_WORKER_COUNT < DOWN_LOAD_WORKER_COUNT"
  by (simp_all add: ResourceWorkerIndex_def FILE_WORKER_COUNT_def DOWN_LOAD_WORKER_COUNT_def)

lemma message_id_of_pos: "message_id_of r = Some m \<Longrightarrow> 0 < m"
  by (auto simp: message_id_of_def split: option.splits if_splits)

lemma authed_logged_in:
  "requests_inv out w \<Longrightarrow> cs_authed (rs_sessions w i) \<Longrightarrow> logged_in w i (cs_user_uid (rs_sessions w i))"
  by (simp add: requests_inv_def sessions_ok_def logged_in_def)

lemma authed_from_user:
  "requests_inv out w \<Longrightarrow> cs_authed (rs_sessions w i) \<Longrightarrow> from_user w (Some (rs_sessions w i))"
  by (simp add: requests_inv_def sessions_ok_def logged_in_def from_user_def)

lemmas request_rules = requests_inv_quiet requests_inv_post_file requests_inv_post_down
  authed_logged_in authed_from_user message_id_of_pos

lemma icon_inv:
  assumes "requests_inv out w" and "cs_authed (rs_sessions w i)"
  shows "requests_inv out (handleUploadHeadIcon parse dump hash_fn out get_ok set_ok i msg_data quota w)"
proof (cases "icon_fields (parse msg_data)")
  case None
  then show ?thesis using assms(1) by (simp add: handleUploadHeadIcon_def)
next
  case (Some r)
  let ?uid = "cs_user_uid (rs_sessions w i)"
  let ?p = "out @ [to_string ?uid, ir_name r]"
  obtain e infos where n: "note_progress get_ok set_ok ?p r (rs_file_info w) = (e, infos)" by fastforce
  let ?w1 = "w\<lparr>rs_file_info := infos\<rparr>"
  have inv1: "requests_inv out ?w1" by (rule requests_inv_store(2) [OF assms(1)])
  have log1: "logged_in ?w1 i ?uid" using authed_logged_in [OF assms] by (simp add: logged_in_def)
  show ?thesis
    using Some n assms inv1 log1
    by (auto simp: handleUploadHeadIcon_def Let_def avatar_path_def split: option.split
          intro!: requests_inv_quiet requests_inv_post_file)
qed

lemma avatar_download_inv:
  assumes "requests_inv out w" and "cs_authed (rs_sessions w i)"
  shows "requests_inv out (handleDownloadFile parse dump hash_fn out i msg_data quota w)"
  using assms authed_logged_in [OF assms]
  by (auto simp: handleDownloadFile_def Let_def avatar_path_def split: option.split
        intro!: requests_inv_quiet requests_inv_post_down)

lemma chunk_upload_inv:
  assumes "requests_inv out w" and "cs_authed (rs_sessions w i)"
  shows "requests_inv out (handleResourceChunkUpload parse dump i msg_data quota w)"
proof -
  have post: "requests_inv out (PostFile (Job_chunk \<lparr>tk_session = Some (rs_sessions w i), tk_message_id = m,
      tk_offset = off, tk_chunk_sha256 = h, tk_file_data = d\<rparr>, quota) (ResourceWorkerIndex m FILE_WORKER_COUNT) w)"
    if "m \<noteq> 0" "IsValidSha256Hex h" "chunk_fields root d = Some (m, off, h)" for m off h d root
    using assms authed_from_user [OF assms] that
    by (intro requests_inv_post_file) (auto simp: chunk_fields_def bind_eq_Some_conv ResourceWorkerIndex_def split: if_splits)
  show ?thesis
    using assms post by (auto simp: handleResourceChunkUpload_def Let_def split: prod.split bool.split option.split
        intro!: requests_inv_quiet)
qed

lemma small_requests_inv:
  assumes "requests_inv out w" and "cs_authed (rs_sessions w i)"
  shows "requests_inv out (handleResourceUploadProgress parse dump i msg_data quota w)"
    and "requests_inv out (handleInstantProof parse dump i msg_data quota w)"
    and "requests_inv out (handleResourceDownInfo parse dump i msg_data quota w)"
    and "requests_inv out (handleResourceChunkDown parse dump i msg_data quota w)"
  using assms authed_logged_in [OF assms] authed_from_user [OF assms]
  by (auto simp: handleResourceUploadProgress_def handleInstantProof_def handleResourceDownInfo_def handleResourceChunkDown_def
        Let_def ResourceWorkerIndex_def split: option.split dest: message_id_of_pos
        intro!: requests_inv_quiet requests_inv_post_file [where k = "_ mod _"] requests_inv_post_down)

lemma login_inv:
  assumes "requests_inv out w"
  shows "requests_inv out (handleResourceLogin parse dump get_ok i msg_data w)"
proof -
  have auth: "requests_inv out (at_session i (\<lambda>_. snd (TrySetAuth uid (rs_sessions w i))) w)" for uid
    by (rule requests_inv_kept [OF assms])
       (use assms in \<open>auto simp: requests_inv_def sessions_ok_def at_session_def logins_kept_def logged_in_def TrySetAuth_def\<close>)
  show ?thesis
    using assms auth
    by (auto simp: handleResourceLogin_def Let_def split_beta split: option.split json.split
        intro!: requests_inv_quiet [OF _ quiet_Send])
qed

lemma callback_inv:
  assumes "requests_inv out w" and "fun_callbacks parse dump hash_fn out get_ok set_ok m = Some h"
    and "m = MSG_RESOURCE_LOGIN_REQ \<or> cs_authed (rs_sessions w i)"
  shows "requests_inv out (h i msg_data quota w)"
  using assms(2,3)
  by (cases m) (auto simp: fun_callbacks_def icon_inv [OF assms(1)] avatar_download_inv [OF assms(1)]
      chunk_upload_inv [OF assms(1)] small_requests_inv [OF assms(1)] login_inv [OF assms(1)])

lemma task_callback_inv:
  assumes "requests_inv out w"
  shows "requests_inv out (task_callback parse dump hash_fn out get_ok set_ok i type_id msg_data quota w)"
proof (cases "\<exists>m h. msg_of_num type_id = Some m \<and> fun_callbacks parse dump hash_fn out get_ok set_ok m = Some h
    \<and> (m = MSG_RESOURCE_LOGIN_REQ \<or> cs_authed (rs_sessions w i))")
  case True
  then obtain m h where m: "msg_of_num type_id = Some m" and h: "fun_callbacks parse dump hash_fn out get_ok set_ok m = Some h"
    and gate: "m = MSG_RESOURCE_LOGIN_REQ \<or> cs_authed (rs_sessions w i)" by blast
  have "requests_inv out (h i msg_data quota w)" by (rule callback_inv [OF assms h gate])
  then show ?thesis using m h gate assms by (auto simp: task_callback_def Let_def)
next
  case False
  then show ?thesis using assms
    by (auto simp: task_callback_def Let_def bind_eq_Some_conv split: option.split intro!: requests_inv_quiet)
qed

subsection \<open>The request system\<close>

text \<open>
  Requests, sending and closing of sessions, the threads of the workers and changes of Redis by
  others, in any order.  Only the login handler logs a session in, and only the handlers post jobs.
\<close>

definition requests_start :: "resource_server \<Rightarrow> bool" where
  "requests_start w \<longleftrightarrow> rs_sessions w = CSession_new
     \<and> rs_file_workers w = replicate FILE_WORKER_COUNT worker_new
     \<and> rs_down_workers w = replicate DOWN_LOAD_WORKER_COUNT worker_new"

inductive request_step ::
  "(string \<Rightarrow> json option) \<Rightarrow> (json \<Rightarrow> string) \<Rightarrow> (string \<Rightarrow> nat) \<Rightarrow> path \<Rightarrow> resource_server \<Rightarrow> resource_server \<Rightarrow> bool"
  for parse :: "string \<Rightarrow> json option" and dump :: "json \<Rightarrow> string" and hash_fn :: "string \<Rightarrow> nat" and out :: path where
  req_task: "request_step parse dump hash_fn out w
     (task_callback parse dump hash_fn out get_ok set_ok i type_id msg_data quota w)"
| req_session: "session_step (rs_sessions w i) s \<Longrightarrow> cs_authed s = cs_authed (rs_sessions w i) \<Longrightarrow>
     request_step parse dump hash_fn out w (at_session i (\<lambda>_. s) w)"
| req_file: "k < length (rs_file_workers w) \<Longrightarrow> worker_step (rs_file_workers w ! k) v \<Longrightarrow>
     accepted v = accepted (rs_file_workers w ! k) \<Longrightarrow>
     request_step parse dump hash_fn out w (w\<lparr>rs_file_workers := (rs_file_workers w)[k := v]\<rparr>)"
| req_down: "k < length (rs_down_workers w) \<Longrightarrow> worker_step (rs_down_workers w ! k) u \<Longrightarrow>
     accepted u = accepted (rs_down_workers w ! k) \<Longrightarrow>
     request_step parse dump hash_fn out w (w\<lparr>rs_down_workers := (rs_down_workers w)[k := u]\<rparr>)"
| req_redis: "request_step parse dump hash_fn out w (w\<lparr>rs_redis := r, rs_file_info := fi\<rparr>)"

lemma clear_frames_id [simp]: "cs_id (clear_frames xs s) = cs_id s"
  by (induction xs s rule: clear_frames.induct) (simp_all add: ReleaseSendBudget_def Let_def)

lemma session_ops_id [simp]:
  "cs_id (Close s) = cs_id s" "cs_id (ReleaseSendBudget n s) = cs_id s" "cs_id (push_frame m t s) = cs_id s"
  by (simp_all add: Close_def ReleaseSendBudget_def push_frame_def Let_def split: prod.split)

lemma session_step_login:
  assumes "session_step s t" and "cs_authed t = cs_authed s"
  shows "cs_id t = cs_id s" and "cs_user_uid t = cs_user_uid s"
  using assms
  by (auto elim!: session_step.cases simp: TrySetAuth_def Send_def SendAndClose_def TryReserveSendBudget_def run_posted_def
      Send_posted_def SendAndClose_posted_def Close_posted_def HandleWrite_def ClearSendQueueLocked_def pop_front_def
      drain_timeout_def AsyncReadBody_cb_def Quota_Acquire_def TryAcquireTaskBytes_def Quota_destroy_def ReleaseTaskBytes_def
      Let_def split: if_splits list.splits posted.splits prod.splits)

lemma worker_step_kept:
  assumes "workers_ok P ws" and "k < length ws" and "worker_step (ws ! k) v" and "accepted v = accepted (ws ! k)"
  shows "workers_ok P (ws[k := v])"
  by (rule workers_ok_update [OF assms(1,2)])
     (use assms worker.inv_step [OF _ assms(3)] in \<open>auto simp: workers_ok_def\<close>)

lemma workers_ok_new: "workers_ok P (replicate n worker_new)"
  using worker_inv_new by (auto simp: workers_ok_def worker_new_def)

interpretation requests: invariant_system requests_start "request_step parse dump hash_fn out" "requests_inv out"
  for parse dump hash_fn out
proof unfold_locales
  show "requests_inv out w" if "requests_start w" for w
    using that by (simp add: requests_start_def requests_inv_def sessions_ok_def CSession_new_def workers_ok_new)
  show "requests_inv out v" if inv: "requests_inv out w" and step: "request_step parse dump hash_fn out w v" for w v
    using step inv
  proof cases
    case (req_task get_ok set_ok i type_id msg_data quota)
    then show ?thesis using inv by (simp add: task_callback_inv)
  next
    case (req_session i s)
    then have "quiet (\<lambda>s'. if s' = rs_sessions w i then s else s')" using session_step_login by (auto simp: quiet_def)
    moreover have "at_session i (\<lambda>_. s) w = at_session i (\<lambda>s'. if s' = rs_sessions w i then s else s') w"
      by (simp add: at_session_def)
    ultimately show ?thesis using req_session(1) requests_inv_quiet [OF inv] by metis
  next
    case (req_file k u)
    show ?thesis unfolding req_file(1)
      by (rule requests_inv_mono [of _ w])
         (use inv req_file worker_step_kept [of "file_job_ok out w" "rs_file_workers w" k u]
           in \<open>simp_all add: requests_inv_def sessions_ok_def logins_kept_def logged_in_def\<close>)
  next
    case (req_down k u)
    show ?thesis unfolding req_down(1)
      by (rule requests_inv_mono [of _ w])
         (use inv req_down worker_step_kept [of "down_job_ok out w" "rs_down_workers w" k u]
           in \<open>simp_all add: requests_inv_def sessions_ok_def logins_kept_def logged_in_def\<close>)
  next
    case (req_redis r fi)
    then show ?thesis using requests_inv_store(1) [OF inv] by simp
  qed
qed

subsection \<open>Properties\<close>

lemma fun_callbacks_login:
  "fun_callbacks parse dump hash_fn out get_ok set_ok MSG_RESOURCE_LOGIN_REQ
     = Some (\<lambda>i msg_data quota. handleResourceLogin parse dump get_ok i msg_data)"
  by (simp add: fun_callbacks_def)

text \<open>Handlers other than the login keep everybody's login.\<close>

lemma same_login:
  "quiet g \<Longrightarrow> cs_authed (rs_sessions (at_session i g w) j) = cs_authed (rs_sessions w j)"
  "rs_sessions (PostFile x k w) = rs_sessions w" "rs_sessions (PostDown y k w) = rs_sessions w"
  by (simp_all add: at_session_def quiet_def PostFile_def PostDown_def)

lemma chunk_upload_login:
  "cs_authed (rs_sessions (handleResourceChunkUpload parse dump i msg_data quota w) j) = cs_authed (rs_sessions w j)"
  by (auto simp: handleResourceChunkUpload_def Let_def same_login split: option.split prod.split bool.split)

lemma handlers_keep_login:
  assumes "fun_callbacks parse dump hash_fn out get_ok set_ok m = Some h" and "m \<noteq> MSG_RESOURCE_LOGIN_REQ"
  shows "cs_authed (rs_sessions (h i msg_data quota w) j) = cs_authed (rs_sessions w j)"
proof -
  have icon: "cs_authed (rs_sessions (handleUploadHeadIcon parse dump hash_fn out get_ok set_ok i msg_data quota w) j)
      = cs_authed (rs_sessions w j)"
    by (auto simp: handleUploadHeadIcon_def Let_def same_login split_beta split: option.split)
  show ?thesis
    using assms
    by (cases m) (auto simp: fun_callbacks_def icon chunk_upload_login handleDownloadFile_def
      handleResourceUploadProgress_def handleInstantProof_def handleResourceDownInfo_def handleResourceChunkDown_def
      Let_def same_login split: option.splits if_splits)
qed

lemma gate_keeps_login:
  assumes "quiet g"
  shows "cs_authed (rs_sessions (at_session i g w) j) = cs_authed (rs_sessions w j)"
  using assms by (simp add: same_login)

lemma login_D:
  assumes "cs_authed (rs_sessions (handleResourceLogin parse dump get_ok i msg_data w) j)" and "\<not> cs_authed (rs_sessions w j)"
  shows "j = i \<and> (\<exists>uid token. int_field (parse msg_data) ''uid'' = Some uid \<and> 0 < uid \<and> string_field (parse msg_data) ''token'' = Some token
    \<and> rs_redis w (USERTOKENPREFIX @ to_string_int uid) = Some token
    \<and> cs_user_uid (rs_sessions (handleResourceLogin parse dump get_ok i msg_data w) i) = nat uid)"
proof -
  have q: "quiet (Send m t)" for m t by simp
  show ?thesis
    using assms q
    by (auto simp: handleResourceLogin_def Let_def TrySetAuth_def at_session_def quiet_def bind_eq_Some_conv
        split: option.splits json.splits if_splits)
qed

text \<open>
  C14.  Logging in needs the token: a message makes a session authenticated only if it is a login
  request on that session, with a positive user id and the very token that Redis holds for this user,
  and the session belongs to this user from then on.
\<close>

theorem login_needs_token:
  assumes "w' = task_callback parse dump hash_fn out get_ok set_ok i type_id msg_data quota w"
    and "cs_authed (rs_sessions w' j)" and "\<not> cs_authed (rs_sessions w j)"
  shows "j = i \<and> type_id = msg_num MSG_RESOURCE_LOGIN_REQ
    \<and> (\<exists>uid token. int_field (parse msg_data) ''uid'' = Some uid \<and> 0 < uid \<and> string_field (parse msg_data) ''token'' = Some token
         \<and> rs_redis w (USERTOKENPREFIX @ to_string_int uid) = Some token \<and> cs_user_uid (rs_sessions w' i) = nat uid)"
proof (cases "msg_of_num type_id = Some MSG_RESOURCE_LOGIN_REQ")
  case True
  then have "w' = handleResourceLogin parse dump get_ok i msg_data w" 
    using assms by (auto simp: task_callback_def Let_def fun_callbacks_login split: if_splits)
  moreover have "type_id = msg_num MSG_RESOURCE_LOGIN_REQ"
    using True by (auto simp: msg_of_num_def find_Some_iff)
  ultimately show ?thesis using login_D assms(2,3) by blast
next
  case False
  have "cs_authed (rs_sessions w' j) = cs_authed (rs_sessions w j)"
    using False handlers_keep_login [of parse dump hash_fn out get_ok set_ok]
    by (auto simp: assms(1) task_callback_def Let_def gate_keeps_login bind_eq_Some_conv split: option.split)
  then show ?thesis using assms(2,3) by simp
qed

text \<open>A login with the stored token, as an instance.\<close>

definition demo_json :: "string \<Rightarrow> json option" where
  "demo_json msg_data =
     (if msg_data = ''login'' then Some (JObj [(''uid'', JInt 5), (''token'', JStr ''tok'')])
      else if msg_data = ''progress'' then Some (JObj [(''message_id'', JStr ''6'')]) else None)"

definition demo_requests :: resource_server where
  "demo_requests = \<lparr>rs_sessions = CSession_new, rs_redis = (\<lambda>k. if k = ''utoken_5'' then Some ''tok'' else None),
     rs_file_info = (\<lambda>_. None), rs_file_workers = replicate FILE_WORKER_COUNT worker_new,
     rs_down_workers = replicate DOWN_LOAD_WORKER_COUNT worker_new\<rparr>"

definition demo_run :: "string \<Rightarrow> nat \<Rightarrow> resource_server \<Rightarrow> resource_server" where
  "demo_run msg_data type_id w = task_callback demo_json (\<lambda>_. ''{}'') length [''out''] True True 0 type_id msg_data 20 w"

lemma demo_login: "cs_authed (rs_sessions (demo_run ''login'' 1501 demo_requests) 0)"
  by code_simp

theorem login_needs_token_witness:
  "\<exists>uid token. int_field (demo_json ''login'') ''uid'' = Some uid \<and> string_field (demo_json ''login'') ''token'' = Some token
     \<and> rs_redis demo_requests (USERTOKENPREFIX @ to_string_int uid) = Some token"
proof -
  have "\<not> cs_authed (rs_sessions demo_requests 0)" by (simp add: demo_requests_def CSession_new_def)
  from login_needs_token [OF demo_run_def demo_login this] show ?thesis by blast
qed


lemma demo_reach: "reach requests_start (request_step demo_json (\<lambda>_. ''{}'') length [''out''])
    (demo_run ''progress'' 1507 (demo_run ''login'' 1501 demo_requests))"
proof -
  have "requests_start demo_requests" by (simp add: requests_start_def demo_requests_def)
  then have "reach requests_start (request_step demo_json (\<lambda>_. ''{}'') length [''out'']) demo_requests" by (rule reach_init)
  then have "reach requests_start (request_step demo_json (\<lambda>_. ''{}'') length [''out'']) (demo_run ''login'' 1501 demo_requests)"
    by (rule reach_step) (unfold demo_run_def, rule req_task)
  then show ?thesis by (rule reach_step) (unfold demo_run_def, rule req_task)
qed

lemma demo_job: "accepted (rs_file_workers (demo_run ''progress'' 1507 (demo_run ''login'' 1501 demo_requests)) ! 2)
    = [(Job_progress 0 5 6, 20)]"
  by code_simp


text \<open>
  C15.  A message other than the login on a session that is not logged in has no effect but on that
  session, and ends it: the session is closing, or the answer that closes it is on its way.  The printed
  answer fits into a frame.
\<close>

theorem unauthenticated_refused:
  assumes "\<not> cs_authed (rs_sessions w i)" and "type_id \<noteq> msg_num MSG_RESOURCE_LOGIN_REQ"
    and "dump (error_json TokenInvalid []) \<noteq> []" and "length (dump (error_json TokenInvalid [])) \<le> kMaxMetaLen"
    and "w' = task_callback parse dump hash_fn out get_ok set_ok i type_id msg_data quota w"
  shows "rs_file_workers w' = rs_file_workers w \<and> rs_down_workers w' = rs_down_workers w \<and> rs_redis w' = rs_redis w
    \<and> rs_file_info w' = rs_file_info w \<and> (\<forall>j. j \<noteq> i \<longrightarrow> rs_sessions w' j = rs_sessions w j)
    \<and> (cs_lifecycle (rs_sessions w' i) \<noteq> Open
       \<or> (\<exists>body t. PostedSendAndClose body t \<in> set (cs_posted (rs_sessions w' i))))"
proof -
  have no: "msg_of_num type_id \<noteq> Some MSG_RESOURCE_LOGIN_REQ"
    using assms(2) by (auto simp: msg_of_num_def find_Some_iff)
  have frame: "\<exists>body. EncodeFrame (dump (error_json TokenInvalid [])) [] (Some []) = (True, Some body)"
    using assms(3,4) by (simp add: EncodeFrame_def Let_def kMaxFrameBody_def kMaxMetaLen_def kResourceChunkSize_def)
  have closes: "cs_lifecycle (Close s) \<noteq> Open" for s by (simp add: Close_lifecycle)
  have sent: "cs_lifecycle (SendAndClose m t s) \<noteq> Open \<or> PostedSendAndClose m t \<in> set (cs_posted (SendAndClose m t s))" for m t s
    by (simp add: SendAndClose_def TryReserveSendBudget_def closes)
  have rsp: "cs_lifecycle (SendRspFrameAndClose dump r (error_json TokenInvalid []) s) \<noteq> Open
      \<or> (\<exists>body t. PostedSendAndClose body t \<in> set (cs_posted (SendRspFrameAndClose dump r (error_json TokenInvalid []) s)))" for r s
    using sent frame unfolding SendRspFrameAndClose_def by (cases "r = MSG_RESOURCE_CHUNK_DOWN_RSP") fastforce+
  show ?thesis
    using assms(1,5) no rsp closes
    by (auto simp: task_callback_def Let_def at_session_def IsOpen_def split: option.split)
qed

theorem unauthenticated_refused_witness:
  "rs_file_workers (demo_run ''progress'' 1507 demo_requests) = rs_file_workers demo_requests
   \<and> cs_posted (rs_sessions (demo_run ''progress'' 1507 demo_requests) 0) \<noteq> []"
proof -
  have "\<not> cs_authed (rs_sessions demo_requests 0)" by (simp add: demo_requests_def CSession_new_def)
  from unauthenticated_refused [OF this _ _ _ demo_run_def, of 1507 "''progress''"]
  have "rs_file_workers (demo_run ''progress'' 1507 demo_requests) = rs_file_workers demo_requests"
    by (simp add: kMaxMetaLen_def)
  moreover have "cs_posted (rs_sessions (demo_run ''progress'' 1507 demo_requests) 0) \<noteq> []" by code_simp
  ultimately show ?thesis ..
qed

end
