(* ===== verification/Chat_Dao.thy ===== *)
theory Chat_Dao
  imports Chat_Database Password_Hash
begin

text \<open>
  \<open>server/ChatServer/src/MysqlDao.cpp\<close>: the statements and transactions of the chat server on the
  shared tables.

  A transaction is one step on the tables: it locks the rows it depends on with \<open>FOR UPDATE\<close>.  An
  argument that is not positive is 0, and ids fit into the integer types they are read with.  Columns
  of text are compared under the collation of the schema, which ignores case: \<open>coll\<close> maps a text to
  its sort key.  \<open>gap\<close> is how far the auto-increment counter of the table is ahead of its largest
  id, by inserts that were rolled back.  The violation of a key or a check of the schema throws, which
  ends in a rollback.  An out-parameter is part of the result; the one that accompanies a failure is
  read by no caller.
\<close>

subsection \<open>Values\<close>

record UserInfo =
  ui_user_id :: nat
  ui_username :: string
  ui_email :: string
  ui_nickname :: string
  ui_profile_bio :: string
  ui_gender :: nat
  ui_avatar_key :: string

record chat_message =
  ch_message_id :: nat
  ch_thread_id :: nat
  ch_sender_user_id :: nat
  ch_recipient_user_id :: nat
  ch_client_message_id :: string
  ch_message_type :: nat
  ch_text_content :: string
  ch_status :: MessageStatus
  ch_created_at :: nat
  ch_resource :: "resource_row option"
  ch_event_seq :: nat

record FriendRequest =
  fr_row :: request_row
  fr_event_seq :: nat

record FriendHandleOutput =
  fo_request :: "FriendRequest option"
  fo_thread_id :: nat
  fo_peer_user_id :: nat

record ChatThreadInfo =
  ti_thread_id :: nat
  ti_lower_user_id :: nat
  ti_higher_user_id :: nat
  ti_last_msg_id :: nat

record UserEvent =
  ue_event_seq :: nat
  ue_event_type :: nat
  ue_message :: "chat_message option"
  ue_friend_request :: "FriendRequest option"

record PageResult =
  pg_messages :: "chat_message list"
  pg_load_more :: bool
  pg_next_cursor :: nat

datatype SaveMessageResult = Save_Stored | Save_Duplicate | Save_Conflict | Save_Failed

datatype FriendOperationResult =
  Fr_Stored | Fr_Duplicate | Fr_Conflict | Fr_NotFound | Fr_AlreadyHandled | Fr_AlreadyFriends | Fr_Forbidden | Fr_Failed

text \<open>The numbers of \<open>ChatMsgType\<close>, \<open>UserEventType\<close> and \<open>FriendRequestStatus\<close>.\<close>

abbreviation (input) "TEXT \<equiv> 0 :: nat"
abbreviation (input) "PIC \<equiv> 1 :: nat"
abbreviation (input) "FILE \<equiv> 3 :: nat"
abbreviation (input) "FRIEND_APPLY \<equiv> 10 :: nat"
abbreviation (input) "FRIEND_ACCEPT \<equiv> 11 :: nat"
abbreviation (input) "FRIEND_REJECT \<equiv> 12 :: nat"

subsection \<open>Reading rows\<close>

definition ReadUser :: "user_row \<Rightarrow> UserInfo" where
  "ReadUser r = \<lparr>ui_user_id = usr_id r, ui_username = usr_username r, ui_email = usr_email r, ui_nickname = usr_nickname r,
     ui_profile_bio = usr_profile_bio r, ui_gender = usr_gender r, ui_avatar_key = usr_avatar_key r\<rparr>"

definition blank_resource :: "nat \<Rightarrow> resource_row" where
  "blank_resource m = \<lparr>res_message_id = m, res_original_file_name = [], res_file_size_bytes = 0, res_sha256 = [], res_mime_type = []\<rparr>"

text \<open>
  A message joined with its chat, which gives the recipient, and with its resource, which is blank
  where the outer join finds none.
\<close>

definition ReadMessage :: "db \<Rightarrow> message_row \<Rightarrow> chat_message option" where
  "ReadMessage d m =
     (case find_chat (msg_thread_id m) d of
        None \<Rightarrow> None
      | Some pc \<Rightarrow>
          Some \<lparr>ch_message_id = msg_id m, ch_thread_id = msg_thread_id m, ch_sender_user_id = msg_sender m,
                ch_recipient_user_id = peer_of pc (msg_sender m), ch_client_message_id = msg_client_id m,
                ch_message_type = msg_type m, ch_text_content = (case msg_text m of None \<Rightarrow> [] | Some t \<Rightarrow> t),
                ch_status = msg_status m, ch_created_at = msg_created_at m,
                ch_resource = (if msg_type m = PIC \<or> msg_type m = FILE
                   then Some (case find_resource (msg_id m) d of None \<Rightarrow> blank_resource (msg_id m) | Some r \<Rightarrow> r) else None),
                ch_event_seq = 0\<rparr>)"

definition ReadFriendRequest :: "request_row \<Rightarrow> FriendRequest" where
  "ReadFriendRequest r = \<lparr>fr_row = r, fr_event_seq = 0\<rparr>"

definition ReadPrivateChatMembers :: "nat \<Rightarrow> db \<Rightarrow> (nat \<times> nat) option" where
  "ReadPrivateChatMembers thread_id d = map_option (\<lambda>pc. (pc_lower pc, pc_higher pc)) (find_chat thread_id d)"

definition find_request :: "nat \<Rightarrow> db \<Rightarrow> request_row option" where
  "find_request i d = List.find (\<lambda>r. req_id r = i) (friend_requests d)"

subsection \<open>Writing rows\<close>

definition auto_id :: "nat \<Rightarrow> nat list \<Rightarrow> nat" where
  "auto_id gap ids = Suc (foldr max ids 0 + gap)"

definition AllocateEventSeq :: "nat \<Rightarrow> db \<Rightarrow> (nat \<times> db) option" where
  "AllocateEventSeq recipient_user_id d =
     (case find_user recipient_user_id d of
        None \<Rightarrow> None
      | Some head \<Rightarrow>
          let event_seq = usr_last_event_seq head + 1;
              (n, us) = update_rows (\<lambda>r. usr_id r = recipient_user_id) (\<lambda>r. r\<lparr>usr_last_event_seq := event_seq\<rparr>) (users d)
          in if n = 1 then Some (event_seq, d\<lparr>users := us\<rparr>) else None)"

definition event_clash :: "event_row \<Rightarrow> event_row \<Rightarrow> bool" where
  "event_clash e r \<longleftrightarrow> evt_recipient r = evt_recipient e
     \<and> (evt_seq r = evt_seq e
        \<or> evt_type r = evt_type e \<and> (evt_message_id e \<noteq> None \<and> evt_message_id r = evt_message_id e
                                   \<or> evt_request_id e \<noteq> None \<and> evt_request_id r = evt_request_id e))"

definition insert_event :: "event_row \<Rightarrow> db \<Rightarrow> db option" where
  "insert_event e d =
     (if list_ex (event_clash e) (user_events d) then None else Some (d\<lparr>user_events := user_events d @ [e]\<rparr>))"

definition InsertMessageEvent :: "nat \<Rightarrow> nat \<Rightarrow> nat \<Rightarrow> nat \<Rightarrow> db \<Rightarrow> db option" where
  "InsertMessageEvent recipient_user_id event_seq event_type message_id d =
     insert_event \<lparr>evt_recipient = recipient_user_id, evt_seq = event_seq, evt_type = event_type,
                   evt_message_id = Some message_id, evt_request_id = None\<rparr> d"

definition InsertFriendEvent :: "nat \<Rightarrow> nat \<Rightarrow> nat \<Rightarrow> nat \<Rightarrow> db \<Rightarrow> db option" where
  "InsertFriendEvent recipient_user_id event_seq event_type friend_request_id d =
     insert_event \<lparr>evt_recipient = recipient_user_id, evt_seq = event_seq, evt_type = event_type,
                   evt_message_id = None, evt_request_id = Some friend_request_id\<rparr> d"

text \<open>\<open>INSERT \<dots> ON DUPLICATE KEY UPDATE thread_id = LAST_INSERT_ID(thread_id)\<close>, with the id it reports.\<close>

definition upsert_chat :: "nat \<Rightarrow> nat \<Rightarrow> nat \<Rightarrow> db \<Rightarrow> (nat \<times> db) option" where
  "upsert_chat gap lower higher d =
     (case List.find (\<lambda>c. pc_lower c = lower \<and> pc_higher c = higher) (private_chats d) of
        Some c \<Rightarrow> Some (pc_thread_id c, d)
      | None \<Rightarrow>
          if find_user lower d = None \<or> find_user higher d = None \<or> \<not> lower < higher then None
          else let t = auto_id gap (map pc_thread_id (private_chats d)) in
            Some (t, d\<lparr>private_chats := private_chats d @ [\<lparr>pc_thread_id = t, pc_lower = lower, pc_higher = higher\<rparr>]\<rparr>))"

definition are_friends :: "nat \<Rightarrow> nat \<Rightarrow> db \<Rightarrow> bool" where
  "are_friends lower higher d = list_ex (\<lambda>f. frd_lower f = lower \<and> frd_higher f = higher) (friendships d)"

definition ignore_insert_friendship :: "nat \<Rightarrow> nat \<Rightarrow> db \<Rightarrow> db" where
  "ignore_insert_friendship lower higher d =
     (if are_friends lower higher d \<or> find_user lower d = None \<or> find_user higher d = None \<or> \<not> lower < higher then d
      else d\<lparr>friendships := friendships d @ [\<lparr>frd_lower = lower, frd_higher = higher\<rparr>]\<rparr>)"

subsection \<open>Accounts\<close>

definition reg_user_body ::
  "(string \<Rightarrow> string) \<Rightarrow> nat \<Rightarrow> string \<Rightarrow> string \<Rightarrow> string \<Rightarrow> db \<Rightarrow> int \<times> bool \<times> db" where
  "reg_user_body coll gap name email hash d =
     (if list_ex (\<lambda>r. coll (usr_username r) = coll name \<or> coll (usr_email r) = coll email) (users d) then (- 1, False, d)
      else let uid = auto_id gap (map usr_id (users d)) in
        (int uid, True, d\<lparr>users := users d @ [\<lparr>usr_id = uid, usr_username = name, usr_email = email,
           usr_password_hash = hash, usr_nickname = name, usr_profile_bio = [], usr_gender = 0, usr_avatar_key = [],
           usr_last_event_seq = 0\<rparr>]\<rparr>))"

definition answer :: "'a \<Rightarrow> (bool + 'a) \<times> db \<Rightarrow> 'a \<times> db" where
  "answer failed r = (case r of (Inr x, d1) \<Rightarrow> (x, d1) | (Inl _, d1) \<Rightarrow> (failed, d1))"

definition RegUser ::
  "(string \<Rightarrow> string) \<Rightarrow> kdf \<Rightarrow> string option \<Rightarrow> nat \<Rightarrow> string \<Rightarrow> string \<Rightarrow> string \<Rightarrow> db \<Rightarrow> int \<times> db" where
  "RegUser coll kdf rand gap name email password d =
     (let hash = HashPassword kdf rand password in
      if hash = [] then (- 1, d) else answer (- 1) (transact (reg_user_body coll gap name email hash) d))"

definition user_by_name :: "(string \<Rightarrow> string) \<Rightarrow> string \<Rightarrow> db \<Rightarrow> user_row option" where
  "user_by_name coll name d = List.find (\<lambda>r. coll (usr_username r) = coll name) (users d)"

definition CheckEmail :: "(string \<Rightarrow> string) \<Rightarrow> string \<Rightarrow> string \<Rightarrow> db \<Rightarrow> bool \<times> db" where
  "CheckEmail coll name email d =
     answer False (query (\<lambda>d. case user_by_name coll name d of None \<Rightarrow> False | Some r \<Rightarrow> usr_email r = email) d)"

definition UpdatePwd :: "(string \<Rightarrow> string) \<Rightarrow> kdf \<Rightarrow> string option \<Rightarrow> string \<Rightarrow> string \<Rightarrow> db \<Rightarrow> bool \<times> db" where
  "UpdatePwd coll kdf rand name new_password d =
     (let hash = HashPassword kdf rand new_password in
      if hash = [] then (False, d)
      else answer False (transact (\<lambda>d.
        let (n, us) = update_rows (\<lambda>r. coll (usr_username r) = coll name) (\<lambda>r. r\<lparr>usr_password_hash := hash\<rparr>) (users d)
        in (n = 1, True, d\<lparr>users := us\<rparr>)) d))"

definition CheckPwd :: "(string \<Rightarrow> string) \<Rightarrow> kdf \<Rightarrow> string \<Rightarrow> string \<Rightarrow> db \<Rightarrow> UserInfo option \<times> db" where
  "CheckPwd coll kdf name password d =
     answer None (query (\<lambda>d. case user_by_name coll name d of None \<Rightarrow> None
       | Some r \<Rightarrow> if VerifyPassword kdf password (usr_password_hash r) then Some (ReadUser r) else None) d)"

definition GetUser_by_id :: "nat \<Rightarrow> db \<Rightarrow> UserInfo option \<times> db" where
  "GetUser_by_id user_id d = answer None (query (\<lambda>d. map_option ReadUser (find_user user_id d)) d)"

definition GetUser_by_name :: "(string \<Rightarrow> string) \<Rightarrow> string \<Rightarrow> db \<Rightarrow> UserInfo option \<times> db" where
  "GetUser_by_name coll username d = answer None (query (\<lambda>d. map_option ReadUser (user_by_name coll username d)) d)"

subsection \<open>Friends\<close>

definition new_request :: "nat \<Rightarrow> nat \<Rightarrow> nat \<Rightarrow> nat \<Rightarrow> string \<Rightarrow> string \<Rightarrow> db \<Rightarrow> (FriendOperationResult \<times> FriendRequest option) \<times> bool \<times> db" where
  "new_request gap now requester_user_id target_user_id request_message client_request_id d =
     (let request_id = auto_id gap (map req_id (friend_requests d));
          row = \<lparr>req_id = request_id, req_requester = requester_user_id, req_target = target_user_id,
                 req_client_id = client_request_id, req_message = request_message, req_status = 0, req_thread_id = None,
                 req_created_at = now\<rparr>;
          d1 = d\<lparr>friend_requests := friend_requests d @ [row]\<rparr> in
      case AllocateEventSeq target_user_id d1 of
        None \<Rightarrow> ((Fr_Failed, None), False, d)
      | Some (event_seq, d2) \<Rightarrow>
          (case InsertFriendEvent target_user_id event_seq FRIEND_APPLY request_id d2 of
             None \<Rightarrow> ((Fr_Failed, None), False, d)
           | Some d3 \<Rightarrow> ((Fr_Stored, Some \<lparr>fr_row = row, fr_event_seq = event_seq\<rparr>), True, d3)))"

definition add_friend_body ::
  "(string \<Rightarrow> string) \<Rightarrow> nat \<Rightarrow> nat \<Rightarrow> nat \<Rightarrow> nat \<Rightarrow> string \<Rightarrow> string \<Rightarrow> db \<Rightarrow> (FriendOperationResult \<times> FriendRequest option) \<times> bool \<times> db" where
  "add_friend_body coll gap now requester_user_id target_user_id request_message client_request_id d =
     (if find_user target_user_id d = None then ((Fr_NotFound, None), False, d)
      else if find_user requester_user_id d = None then ((Fr_NotFound, None), False, d)
      else if are_friends (min requester_user_id target_user_id) (max requester_user_id target_user_id) d
        then ((Fr_AlreadyFriends, None), False, d)
      else case List.find (\<lambda>r. req_requester r = requester_user_id \<and> coll (req_client_id r) = coll client_request_id) (friend_requests d) of
        Some r \<Rightarrow>
          ((if req_target r = target_user_id \<and> req_message r = request_message then Fr_Duplicate else Fr_Conflict,
            Some (ReadFriendRequest r)), True, d)
      | None \<Rightarrow>
          (case sort_key req_id (filter (\<lambda>r. req_requester r = requester_user_id \<and> req_target r = target_user_id \<and> req_status r = 0)
                  (friend_requests d)) of
             r # _ \<Rightarrow> ((Fr_Duplicate, Some (ReadFriendRequest r)), True, d)
           | [] \<Rightarrow> new_request gap now requester_user_id target_user_id request_message client_request_id d))"

definition AddFriendApply ::
  "(string \<Rightarrow> string) \<Rightarrow> nat \<Rightarrow> nat \<Rightarrow> nat \<Rightarrow> nat \<Rightarrow> string \<Rightarrow> string \<Rightarrow> db \<Rightarrow> (FriendOperationResult \<times> FriendRequest option) \<times> db" where
  "AddFriendApply coll gap now requester_user_id target_user_id request_message client_request_id d =
     (if requester_user_id = 0 \<or> target_user_id = 0 \<or> requester_user_id = target_user_id \<or> client_request_id = []
      then ((Fr_Failed, None), d)
      else answer (Fr_Failed, None)
        (transact (add_friend_body coll gap now requester_user_id target_user_id request_message client_request_id) d))"

text \<open>The rows that acceptance and rejection change, with the thread of the chat.\<close>

definition accept_rows :: "nat \<Rightarrow> request_row \<Rightarrow> db \<Rightarrow> (nat \<times> db) option" where
  "accept_rows gap r d =
     (let lower = min (req_requester r) (req_target r); higher = max (req_requester r) (req_target r) in
      case upsert_chat gap lower higher d of
        None \<Rightarrow> None
      | Some (thread_id, d1) \<Rightarrow>
          if thread_id = 0 then None
          else let d2 = ignore_insert_friendship lower higher d1;
                   (n, rs) = update_rows (\<lambda>q. req_status q = 0 \<and> (req_requester q = lower \<and> req_target q = higher
                                              \<or> req_requester q = higher \<and> req_target q = lower))
                               (\<lambda>q. q\<lparr>req_status := 1, req_thread_id := Some thread_id\<rparr>) (friend_requests d2)
               in Some (thread_id, d2\<lparr>friend_requests := rs\<rparr>))"

definition reject_rows :: "request_row \<Rightarrow> db \<Rightarrow> db option" where
  "reject_rows r d =
     (let (n, rs) = update_rows (\<lambda>q. req_id q = req_id r \<and> req_status q = 0) (\<lambda>q. q\<lparr>req_status := 2\<rparr>) (friend_requests d)
      in if n = 1 then Some (d\<lparr>friend_requests := rs\<rparr>) else None)"

definition tell_requester ::
  "nat \<Rightarrow> request_row \<Rightarrow> nat \<Rightarrow> db \<Rightarrow> db \<Rightarrow> (FriendOperationResult \<times> FriendHandleOutput) \<times> bool \<times> db" where
  "tell_requester event_type r thread_id d0 d =
     (let output = (\<lambda>event_seq. \<lparr>fo_request = Some \<lparr>fr_row = r, fr_event_seq = event_seq\<rparr>, fo_thread_id = thread_id,
                                 fo_peer_user_id = req_requester r\<rparr>) in
      case AllocateEventSeq (req_requester r) d of
        None \<Rightarrow> ((Fr_Failed, output 0), False, d0)
      | Some (event_seq, d1) \<Rightarrow>
          (case InsertFriendEvent (req_requester r) event_seq event_type (req_id r) d1 of
             None \<Rightarrow> ((Fr_Failed, output event_seq), False, d0)
           | Some d2 \<Rightarrow> ((Fr_Stored, output event_seq), True, d2)))"

definition no_output :: FriendHandleOutput where
  "no_output = \<lparr>fo_request = None, fo_thread_id = 0, fo_peer_user_id = 0\<rparr>"

definition handle_friend_body ::
  "nat \<Rightarrow> nat \<Rightarrow> nat \<Rightarrow> bool \<Rightarrow> db \<Rightarrow> (FriendOperationResult \<times> FriendHandleOutput) \<times> bool \<times> db" where
  "handle_friend_body gap handler_user_id friend_request_id accept d =
     (case find_request friend_request_id d of
        None \<Rightarrow> ((Fr_NotFound, no_output), False, d)
      | Some r \<Rightarrow>
          if req_target r \<noteq> handler_user_id then ((Fr_Forbidden, no_output), False, d)
          else if req_status r \<noteq> 0 then
            ((if req_status r = (if accept then 1 else 2) then Fr_Duplicate else Fr_AlreadyHandled,
              \<lparr>fo_request = Some (ReadFriendRequest r),
               fo_thread_id = (case req_thread_id r of None \<Rightarrow> 0 | Some t \<Rightarrow> t), fo_peer_user_id = req_requester r\<rparr>), True, d)
          else if accept then
            (case accept_rows gap r d of
               None \<Rightarrow> ((Fr_Failed, no_output), False, d)
             | Some (thread_id, d1) \<Rightarrow>
                 tell_requester FRIEND_ACCEPT (r\<lparr>req_status := 1, req_thread_id := Some thread_id\<rparr>) thread_id d d1)
          else
            (case reject_rows r d of
               None \<Rightarrow> ((Fr_AlreadyHandled, no_output), False, d)
             | Some d1 \<Rightarrow> tell_requester FRIEND_REJECT (r\<lparr>req_status := 2\<rparr>) 0 d d1))"

definition HandleFriendApply ::
  "nat \<Rightarrow> nat \<Rightarrow> nat \<Rightarrow> bool \<Rightarrow> db \<Rightarrow> (FriendOperationResult \<times> FriendHandleOutput) \<times> db" where
  "HandleFriendApply gap handler_user_id friend_request_id accept d =
     answer (Fr_Failed, no_output) (transact (handle_friend_body gap handler_user_id friend_request_id accept) d)"

definition GetApplyList :: "nat \<Rightarrow> nat \<Rightarrow> nat \<Rightarrow> db \<Rightarrow> (FriendRequest \<times> UserInfo) list option \<times> db" where
  "GetApplyList target_user_id after_friend_request_id limit d =
     answer None (query (\<lambda>d. Some (take limit (map (\<lambda>(r, u). (ReadFriendRequest r, ReadUser u))
       (sort_key (\<lambda>(r, u). req_id r)
         [(r, u). r \<leftarrow> friend_requests d, req_target r = target_user_id \<and> req_status r = 0 \<and> req_id r > after_friend_request_id,
                  u \<leftarrow> users d, usr_id u = req_requester r])))) d)"

definition GetFriendList :: "nat \<Rightarrow> db \<Rightarrow> (UserInfo \<times> nat) list option \<times> db" where
  "GetFriendList user_id d =
     answer None (query (\<lambda>d. Some (map (\<lambda>(u, c). (ReadUser u, pc_thread_id c)) (sort_key (\<lambda>(u, c). usr_id u)
       [(u, c). f \<leftarrow> friendships d, frd_lower f = user_id \<or> frd_higher f = user_id,
                u \<leftarrow> users d, usr_id u = (if frd_lower f = user_id then frd_higher f else frd_lower f),
                c \<leftarrow> private_chats d, pc_lower c = frd_lower f \<and> pc_higher c = frd_higher f]))) d)"

subsection \<open>Chats\<close>

definition thread_info :: "db \<Rightarrow> private_chat_row \<Rightarrow> ChatThreadInfo" where
  "thread_info d c = \<lparr>ti_thread_id = pc_thread_id c, ti_lower_user_id = pc_lower c, ti_higher_user_id = pc_higher c,
     ti_last_msg_id = foldr max (map msg_id (filter (\<lambda>m. msg_thread_id m = pc_thread_id c \<and> msg_status m = Published) (chat_messages d))) 0\<rparr>"

text \<open>A page of rows that were fetched with one more than the page holds.\<close>

definition cut_page :: "nat \<Rightarrow> 'a list \<Rightarrow> 'a list \<times> bool" where
  "cut_page page_size rows = (if length rows > page_size then (butlast rows, True) else (rows, False))"

definition GetUserThreads :: "nat \<Rightarrow> nat \<Rightarrow> nat \<Rightarrow> db \<Rightarrow> (ChatThreadInfo list \<times> bool \<times> nat) option \<times> db" where
  "GetUserThreads user_id after_thread_id page_size d =
     answer None (query (\<lambda>d.
       let rows = take (page_size + 1) (rev (sort_key pc_thread_id (filter (\<lambda>c. (pc_lower c = user_id \<or> pc_higher c = user_id)
                    \<and> (after_thread_id = 0 \<or> pc_thread_id c < after_thread_id)) (private_chats d))));
           (threads, load_more) = cut_page page_size (map (thread_info d) rows)
       in Some (threads, load_more, if threads = [] then after_thread_id else ti_thread_id (last threads))) d)"

definition CreatePrivateChat :: "nat \<Rightarrow> nat \<Rightarrow> nat \<Rightarrow> db \<Rightarrow> (bool \<times> nat) \<times> db" where
  "CreatePrivateChat gap requester_user_id target_user_id d =
     (if requester_user_id = 0 \<or> target_user_id = 0 \<or> requester_user_id = target_user_id then ((False, 0), d)
      else answer (False, 0) (transact (\<lambda>d.
        case upsert_chat gap (min requester_user_id target_user_id) (max requester_user_id target_user_id) d of
          None \<Rightarrow> ((False, 0), False, d)
        | Some (thread_id, d1) \<Rightarrow> ((thread_id > 0, thread_id), True, d1)) d))"

definition GetPrivateChatMembers :: "nat \<Rightarrow> db \<Rightarrow> (nat \<times> nat) option \<times> db" where
  "GetPrivateChatMembers thread_id d = answer None (query (ReadPrivateChatMembers thread_id) d)"

subsection \<open>Messages\<close>

definition same_resource :: "resource_row option \<Rightarrow> resource_row option \<Rightarrow> bool" where
  "same_resource a b =
     (case (a, b) of
        (Some x, Some y) \<Rightarrow> res_original_file_name x = res_original_file_name y \<and> res_file_size_bytes x = res_file_size_bytes y
          \<and> res_sha256 x = res_sha256 y \<and> res_mime_type x = res_mime_type y
      | (None, None) \<Rightarrow> True
      | _ \<Rightarrow> False)"

definition same_message :: "chat_message \<Rightarrow> chat_message \<Rightarrow> bool" where
  "same_message stored_message message \<longleftrightarrow> ch_thread_id stored_message = ch_thread_id message
     \<and> ch_sender_user_id stored_message = ch_sender_user_id message \<and> ch_message_type stored_message = ch_message_type message
     \<and> ch_text_content stored_message = ch_text_content message \<and> same_resource (ch_resource stored_message) (ch_resource message)"

definition existing_message :: "(string \<Rightarrow> string) \<Rightarrow> nat \<Rightarrow> string \<Rightarrow> db \<Rightarrow> chat_message option" where
  "existing_message coll sender client_message_id d =
     Option.bind (List.find (\<lambda>r. msg_sender r = sender \<and> coll (msg_client_id r) = coll client_message_id) (chat_messages d)) (ReadMessage d)"

definition with_event :: "chat_message \<Rightarrow> db \<Rightarrow> chat_message" where
  "with_event m d =
     (if ch_status m = Published then
        case find_message_event (ch_recipient_user_id m) (ch_message_type m) (ch_message_id m) d of
          None \<Rightarrow> m | Some e \<Rightarrow> m\<lparr>ch_event_seq := evt_seq e\<rparr>
      else m)"

definition message_row_of :: "nat \<Rightarrow> chat_message \<Rightarrow> message_row" where
  "message_row_of i m = \<lparr>msg_id = i, msg_thread_id = ch_thread_id m, msg_sender = ch_sender_user_id m,
     msg_client_id = ch_client_message_id m, msg_type = ch_message_type m,
     msg_text = (if ch_message_type m = PIC \<or> ch_message_type m = FILE then None else Some (ch_text_content m)),
     msg_status = ch_status m, msg_created_at = ch_created_at m\<rparr>"

definition store_resource :: "nat \<Rightarrow> chat_message \<Rightarrow> resource_row \<Rightarrow> db \<Rightarrow> (SaveMessageResult \<times> chat_message) \<times> bool \<times> db" where
  "store_resource gap message res d =
     (let m1 = message\<lparr>ch_status := Pending\<rparr>; i = auto_id gap (map msg_id (chat_messages d)); row = message_row_of i m1;
          res1 = res\<lparr>res_message_id := i\<rparr>; m2 = m1\<lparr>ch_message_id := i, ch_resource := Some res1\<rparr> in
      if res_file_size_bytes res = 0 then ((Save_Failed, m2), False, d)
      else ((Save_Stored, m2), True,
            d\<lparr>chat_messages := chat_messages d @ [row], message_resources := message_resources d @ [res1]\<rparr>))"

definition store_text :: "nat \<Rightarrow> chat_message \<Rightarrow> db \<Rightarrow> (SaveMessageResult \<times> chat_message) \<times> bool \<times> db" where
  "store_text gap message d =
     (let m1 = message\<lparr>ch_status := Published\<rparr>; i = auto_id gap (map msg_id (chat_messages d)); row = message_row_of i m1;
          m2 = m1\<lparr>ch_message_id := i\<rparr>; d1 = d\<lparr>chat_messages := chat_messages d @ [row]\<rparr> in
      case AllocateEventSeq (ch_recipient_user_id m2) d1 of
        None \<Rightarrow> ((Save_Failed, m2), False, d)
      | Some (event_seq, d2) \<Rightarrow>
          (case InsertMessageEvent (ch_recipient_user_id m2) event_seq (ch_message_type m2) i d2 of
             None \<Rightarrow> ((Save_Failed, m2), False, d)
           | Some d3 \<Rightarrow> ((Save_Stored, m2\<lparr>ch_event_seq := event_seq\<rparr>), True, d3)))"

definition AddChatMsgTransaction ::
  "(string \<Rightarrow> string) \<Rightarrow> nat \<Rightarrow> chat_message \<Rightarrow> db \<Rightarrow> (SaveMessageResult \<times> chat_message) \<times> bool \<times> db" where
  "AddChatMsgTransaction coll gap message d =
     (case ReadPrivateChatMembers (ch_thread_id message) d of
        None \<Rightarrow> ((Save_Failed, message), False, d)
      | Some (lower, higher) \<Rightarrow>
          if ch_sender_user_id message \<noteq> lower \<and> ch_sender_user_id message \<noteq> higher then ((Save_Failed, message), False, d)
          else let m1 = message\<lparr>ch_recipient_user_id := if ch_sender_user_id message = lower then higher else lower\<rparr> in
            case existing_message coll (ch_sender_user_id message) (ch_client_message_id message) d of
              Some stored_message \<Rightarrow>
                if \<not> same_message stored_message m1 then ((Save_Conflict, m1), False, d)
                else ((Save_Duplicate, with_event stored_message d), True, d)
            | None \<Rightarrow>
                if ch_message_type m1 = PIC \<or> ch_message_type m1 = FILE then
                  (case ch_resource m1 of None \<Rightarrow> ((Save_Failed, m1), False, d) | Some res \<Rightarrow> store_resource gap m1 res d)
                else if ch_message_type m1 \<noteq> TEXT then ((Save_Failed, m1), False, d)
                else store_text gap m1 d)"

text \<open>A deadlock is retried; the counter may be further ahead on the next attempt.\<close>

fun add_msg_attempts ::
  "(string \<Rightarrow> string) \<Rightarrow> nat \<Rightarrow> (nat \<Rightarrow> nat) \<Rightarrow> chat_message \<Rightarrow> db \<Rightarrow> (SaveMessageResult \<times> chat_message) \<times> db" where
  "add_msg_attempts coll retries gap message d =
     (case transact (AddChatMsgTransaction coll (gap retries) message) d of
        (Inr r, d1) \<Rightarrow> (r, d1)
      | (Inl deadlock, d1) \<Rightarrow>
          (case retries of
             0 \<Rightarrow> ((Save_Failed, message), d1)
           | Suc n \<Rightarrow> if \<not> deadlock then ((Save_Failed, message), d1) else add_msg_attempts coll n gap message d1))"

declare add_msg_attempts.simps [simp del]

definition AddChatMsg ::
  "(string \<Rightarrow> string) \<Rightarrow> nat \<Rightarrow> (nat \<Rightarrow> nat) \<Rightarrow> chat_message \<Rightarrow> db \<Rightarrow> (SaveMessageResult \<times> chat_message) \<times> db" where
  "AddChatMsg coll deadlock_retries gap message d =
     (if ch_thread_id message = 0 \<or> ch_sender_user_id message = 0 \<or> ch_client_message_id message = [] then ((Save_Failed, message), d)
      else add_msg_attempts coll deadlock_retries gap message d)"

definition LoadChatMsg :: "nat \<Rightarrow> nat \<Rightarrow> nat \<Rightarrow> nat \<Rightarrow> db \<Rightarrow> PageResult option \<times> db" where
  "LoadChatMsg requester_user_id thread_id before_message_id page_size d =
     answer None (query (\<lambda>d.
       case ReadPrivateChatMembers thread_id d of
         None \<Rightarrow> None
       | Some (lower, higher) \<Rightarrow>
           if requester_user_id \<noteq> lower \<and> requester_user_id \<noteq> higher then None
           else let rows = take (page_size + 1) (rev (sort_key ch_message_id (List.map_filter (ReadMessage d)
                      (filter (\<lambda>m. msg_thread_id m = thread_id \<and> msg_status m = Published
                         \<and> (before_message_id = 0 \<or> msg_id m < before_message_id)) (chat_messages d)))));
                    (messages, load_more) = cut_page page_size rows
                in Some \<lparr>pg_messages = messages, pg_load_more = load_more,
                         pg_next_cursor = (if messages = [] then before_message_id else ch_message_id (last messages))\<rparr>) d)"

definition GetChatMsgById_chat :: "nat \<Rightarrow> db \<Rightarrow> chat_message option \<times> db" where
  "GetChatMsgById_chat message_id d = answer None (query (\<lambda>d. Option.bind (find_message message_id d) (ReadMessage d)) d)"

definition GetFriendRequestById :: "nat \<Rightarrow> db \<Rightarrow> FriendRequest option \<times> db" where
  "GetFriendRequestById friend_request_id d = answer None (query (\<lambda>d. map_option ReadFriendRequest (find_request friend_request_id d)) d)"

subsection \<open>Events\<close>

text \<open>The payload of an event; \<open>None\<close> where the row it refers to is missing or not published.\<close>

definition load_event :: "db \<Rightarrow> event_row \<Rightarrow> UserEvent option" where
  "load_event d e =
     (case evt_message_id e of
        Some i \<Rightarrow>
          (case Option.bind (List.find (\<lambda>m. msg_id m = i \<and> msg_status m = Published) (chat_messages d)) (ReadMessage d) of
             None \<Rightarrow> None
           | Some m \<Rightarrow> Some \<lparr>ue_event_seq = evt_seq e, ue_event_type = evt_type e,
                              ue_message = Some (m\<lparr>ch_event_seq := evt_seq e\<rparr>), ue_friend_request = None\<rparr>)
      | None \<Rightarrow>
          (case Option.bind (evt_request_id e) (\<lambda>i. find_request i d) of
             None \<Rightarrow> None
           | Some r \<Rightarrow> Some \<lparr>ue_event_seq = evt_seq e, ue_event_type = evt_type e, ue_message = None,
                              ue_friend_request = Some \<lparr>fr_row = r, fr_event_seq = evt_seq e\<rparr>\<rparr>))"

fun load_events :: "db \<Rightarrow> event_row list \<Rightarrow> UserEvent list option" where
  "load_events d [] = Some []"
| "load_events d (e # es) =
     (case load_event d e of None \<Rightarrow> None | Some x \<Rightarrow> map_option (\<lambda>xs. x # xs) (load_events d es))"

definition GetEventsAfterSeq :: "nat \<Rightarrow> nat \<Rightarrow> nat \<Rightarrow> db \<Rightarrow> UserEvent list option \<times> db" where
  "GetEventsAfterSeq recipient_user_id after_event_seq limit d =
     answer None (query (\<lambda>d. load_events d (take (limit + 1) (sort_key evt_seq
       (filter (\<lambda>e. evt_recipient e = recipient_user_id \<and> evt_seq e > after_event_seq) (user_events d))))) d)"

definition GetUserEvent :: "nat \<Rightarrow> nat \<Rightarrow> nat \<Rightarrow> nat \<Rightarrow> db \<Rightarrow> UserEvent option \<times> db" where
  "GetUserEvent recipient_user_id event_type message_id friend_request_id d =
     (let is_message = (event_type = TEXT \<or> event_type = PIC \<or> event_type = FILE) in
      if is_message \<noteq> (message_id > 0) \<or> is_message = (friend_request_id > 0) then (None, d)
      else
        let (row, d1) = answer None (query (\<lambda>d. List.find (\<lambda>e. evt_recipient e = recipient_user_id \<and> evt_type e = event_type
               \<and> (if is_message then evt_message_id e = Some message_id else evt_request_id e = Some friend_request_id)) (user_events d)) d) in
        case row of
          None \<Rightarrow> (None, d1)
        | Some e \<Rightarrow>
            if is_message then
              (case GetChatMsgById_chat message_id d1 of
                 (Some m, d2) \<Rightarrow>
                   if ch_recipient_user_id m \<noteq> recipient_user_id \<or> ch_status m \<noteq> Published then (None, d2)
                   else (Some \<lparr>ue_event_seq = evt_seq e, ue_event_type = event_type,
                               ue_message = Some (m\<lparr>ch_event_seq := evt_seq e\<rparr>), ue_friend_request = None\<rparr>, d2)
               | (None, d2) \<Rightarrow> (None, d2))
            else
              (case GetFriendRequestById friend_request_id d1 of
                 (Some r, d2) \<Rightarrow> (Some \<lparr>ue_event_seq = evt_seq e, ue_event_type = event_type, ue_message = None,
                                        ue_friend_request = Some (r\<lparr>fr_event_seq := evt_seq e\<rparr>)\<rparr>, d2)
               | (None, d2) \<Rightarrow> (None, d2)))"

definition GetLastEventSeq :: "nat \<Rightarrow> db \<Rightarrow> nat option \<times> db" where
  "GetLastEventSeq user_id d = answer None (query (\<lambda>d. map_option usr_last_event_seq (find_user user_id d)) d)"

end
