(* ===== verification/Chat_Store.thy ===== *)
theory Chat_Store
  imports Chat_Dao Resource_System
begin

text \<open>
  What the transactions of the chat server do to the shared tables: each of them keeps the event log
  and the keys, removes and changes no message, chat or resource, and publishes no file.  So the chat
  server is an instance of the environment that the resource server was shown to work in.
\<close>

lemma auto_id_fresh: "auto_id gap ids \<notin> set ids" "0 < auto_id gap ids"
proof -
  have "x \<in> set ids \<Longrightarrow> x \<le> foldr max ids 0" for x by (induction ids) (auto simp: le_max_iff_disj)
  then show "auto_id gap ids \<notin> set ids" unfolding auto_id_def by fastforce
qed (simp add: auto_id_def)

lemma AllocateEventSeq_D:
  assumes "AllocateEventSeq u d = Some (seq, d')"
  obtains head where "find_user u d = Some head" "seq = Suc (usr_last_event_seq head)"
    "d' = d\<lparr>users := map (\<lambda>r. if usr_id r = u then r\<lparr>usr_last_event_seq := seq\<rparr> else r) (users d)\<rparr>"
  using assms by (auto simp: AllocateEventSeq_def update_rows_def Let_def split: option.splits if_splits)

lemma insert_event_D: "insert_event e d = Some d' \<Longrightarrow> d' = d\<lparr>user_events := user_events d @ [e]\<rparr>"
  by (auto simp: insert_event_def split: if_splits)

lemma InsertEvent_D:
  "InsertMessageEvent u seq ty m d = Some d' \<Longrightarrow> d' = d\<lparr>user_events := user_events d @
     [\<lparr>evt_recipient = u, evt_seq = seq, evt_type = ty, evt_message_id = Some m, evt_request_id = None\<rparr>]\<rparr>"
  "InsertFriendEvent u seq ty q d = Some d' \<Longrightarrow> d' = d\<lparr>user_events := user_events d @
     [\<lparr>evt_recipient = u, evt_seq = seq, evt_type = ty, evt_message_id = None, evt_request_id = Some q\<rparr>]\<rparr>"
  by (simp_all add: InsertMessageEvent_def InsertFriendEvent_def insert_event_D)

subsection \<open>Elementary changes\<close>

lemma find_key_map:
  "(List.find (\<lambda>r. k r = u) xs = None) = (u \<notin> set (map k xs))"
  by (auto simp: find_None_iff)

lemma finds_None:
  "find_user u d = None \<longleftrightarrow> u \<notin> usr_id ` set (users d)"
  "find_message i d = None \<longleftrightarrow> i \<notin> msg_id ` set (chat_messages d)"
  "find_chat t d = None \<longleftrightarrow> t \<notin> pc_thread_id ` set (private_chats d)"
  "find_resource i d = None \<longleftrightarrow> i \<notin> res_message_id ` set (message_resources d)"
  by (auto simp: find_defs find_None_iff)

text \<open>The keys, with the lookups written as sets of ids.\<close>

lemma keys_ok_sets:
  "keys_ok d \<longleftrightarrow> distinct (map usr_id (users d)) \<and> distinct (map msg_id (chat_messages d))
     \<and> distinct (map res_message_id (message_resources d)) \<and> distinct (map pc_thread_id (private_chats d))
     \<and> evt_recipient ` set (user_events d) \<subseteq> usr_id ` set (users d)
     \<and> (\<forall>e \<in> set (user_events d). \<forall>m. evt_message_id e = Some m \<longrightarrow> m \<in> msg_id ` set (chat_messages d))
     \<and> res_message_id ` set (message_resources d) \<subseteq> msg_id ` set (chat_messages d)"
  unfolding keys_ok_def finds_None by (auto simp del: not_None_eq)

lemma publication_cong:
  assumes "publication_ok d" and "chat_messages d' = chat_messages d" and "\<And>i. message_events d' i = message_events d i"
    and "\<And>t pc. find_chat t d = Some pc \<Longrightarrow> find_chat t d' = Some pc"
  shows "publication_ok d'"
  using assms unfolding publication_ok_def by (metis (no_types, lifting))

text \<open>A change that leaves messages, chats and resources alone.\<close>

lemma db_env_rows:
  assumes "db_ok d'" and "chat_messages d' = chat_messages d" and "private_chats d' = private_chats d"
    and "message_resources d' = message_resources d"
  shows "db_env d d'"
  using assms by (simp add: db_env_def find_defs published_res_def)

lemma db_env_users:
  assumes ok: "db_ok d" and us: "d' = d\<lparr>users := map f (users d)\<rparr>"
    and f: "\<And>r. usr_id (f r) = usr_id r" "\<And>r. usr_last_event_seq (f r) = usr_last_event_seq r"
  shows "db_env d d'"
proof (rule db_env_rows)
  have "keys_ok d'" using ok unfolding db_ok_def keys_ok_sets us by (simp add: o_def image_image f)
  moreover have "events_ok d'" using ok by (auto simp: db_ok_def events_ok_def event_seqs_def us f)
  moreover have "publication_ok d'"
    by (rule publication_cong [of d]) (use ok in \<open>simp_all add: us db_ok_def message_events_def find_chat_def\<close>)
  ultimately show "db_ok d'" by (simp add: db_ok_def)
qed (simp_all add: us)

lemma db_env_new_user:
  assumes ok: "db_ok d" and new: "usr_id r \<notin> usr_id ` set (users d)" "usr_last_event_seq r = 0"
    and us: "d' = d\<lparr>users := users d @ [r]\<rparr>"
  shows "db_env d d'"
proof (rule db_env_rows)
  have k: "keys_ok d" "events_ok d" using ok by (simp_all add: db_ok_def)
  have "keys_ok d'" using k(1) new(1) unfolding keys_ok_sets us by auto
  moreover have "filter (\<lambda>e. evt_recipient e = usr_id r) (user_events d) = []"
    using k(1) new(1) unfolding keys_ok_sets filter_empty_conv by (metis image_subset_iff)
  then have "events_ok d'" using k(2) new(2) by (simp add: events_ok_def event_seqs_def us)
  moreover have "publication_ok d'"
    by (rule publication_cong [of d]) (use ok in \<open>simp_all add: us db_ok_def message_events_def find_chat_def\<close>)
  ultimately show "db_ok d'" by (simp add: db_ok_def)
qed (simp_all add: us)

lemma db_env_friends:
  assumes "db_ok d"
  shows "db_env d (d\<lparr>friendships := fs\<rparr>)" "db_env d (d\<lparr>friend_requests := rs\<rparr>)" "db_env d (d\<lparr>outcomes := xs\<rparr>)"
proof -
  have "publication_ok (d\<lparr>friendships := fs\<rparr>)" "publication_ok (d\<lparr>friend_requests := rs\<rparr>)" "publication_ok (d\<lparr>outcomes := xs\<rparr>)"
    by (rule publication_cong [of d]; use assms in \<open>simp add: db_ok_def message_events_def find_chat_def\<close>)+
  then show "db_env d (d\<lparr>friendships := fs\<rparr>)" "db_env d (d\<lparr>friend_requests := rs\<rparr>)" "db_env d (d\<lparr>outcomes := xs\<rparr>)"
    using assms by (auto intro!: db_env_rows simp: db_ok_def keys_ok_sets events_ok_def event_seqs_def)
qed

lemma db_env_new_chat:
  assumes ok: "db_ok d" and new: "pc_thread_id c \<notin> pc_thread_id ` set (private_chats d)"
    and cs: "d' = d\<lparr>private_chats := private_chats d @ [c]\<rparr>"
  shows "db_env d d'"
proof -
  have chat: "find_chat t d = Some pc \<Longrightarrow> find_chat t d' = Some pc" for t pc
    by (simp add: find_chat_def cs find_append)
  have "keys_ok d'" "events_ok d'" using ok new by (auto simp: db_ok_def keys_ok_sets events_ok_def event_seqs_def cs)
  moreover have "publication_ok d'"
    by (rule publication_cong [of d]) (use ok chat in \<open>simp_all add: cs db_ok_def message_events_def\<close>)
  ultimately show ?thesis using chat by (simp add: db_env_def db_ok_def find_message_def find_resource_def published_res_def cs)
qed

lemma db_env_friend_event:
  assumes ok: "db_ok d" and a: "AllocateEventSeq u d = Some (seq, d1)" and i: "InsertFriendEvent u seq ty q d1 = Some d2"
  shows "db_env d d2"
proof (rule db_env_rows)
  have k: "keys_ok d" "events_ok d" "publication_ok d" using ok by (simp_all add: db_ok_def)
  obtain head where head: "find_user u d = Some head" "seq = Suc (usr_last_event_seq head)"
    "d1 = d\<lparr>users := map (\<lambda>r. if usr_id r = u then r\<lparr>usr_last_event_seq := seq\<rparr> else r) (users d)\<rparr>"
    using AllocateEventSeq_D [OF a] .
  note d2 = InsertEvent_D(2) [OF i, unfolded head(3)]
  have u: "u \<in> usr_id ` set (users d)" using find_user_set [OF head(1)] by blast
  let ?e = "\<lparr>evt_recipient = u, evt_seq = seq, evt_type = ty, evt_message_id = None, evt_request_id = Some q\<rparr>"
  have "events_ok d2"
    by (rule log_events_ok [OF _ k(2) head(1,2), where e = ?e]) (use k(1) in \<open>simp_all add: d2 keys_ok_def\<close>)
  moreover have m: "map usr_id (users d2) = map usr_id (users d)" by (simp add: d2)
  then have "usr_id ` set (users d2) = usr_id ` set (users d)" by (metis list.set_map)
  then have "keys_ok d2" using k(1) u unfolding keys_ok_sets m by (auto simp: d2)
  moreover have "publication_ok d2"
    by (rule publication_cong [OF k(3)]) (simp_all add: d2 message_events_def find_chat_def)
  ultimately show "db_ok d2" by (simp add: db_ok_def)
  show "chat_messages d2 = chat_messages d" "private_chats d2 = private_chats d" "message_resources d2 = message_resources d"
    by (simp_all add: d2)
qed

lemma find_new [simp]: "\<not> P x \<Longrightarrow> List.find P (xs @ [x]) = List.find P xs"
  by (simp add: find_append split: option.split)

lemma publication_new:
  assumes "publication_ok d" "chat_messages d' = chat_messages d @ [m]" "msg_id m \<notin> msg_id ` set (chat_messages d)"
    and ev: "\<And>j. j \<noteq> msg_id m \<Longrightarrow> message_events d' j = message_events d j"
    and ch: "\<And>t. find_chat t d' = find_chat t d"
    and m: "if msg_status m = Published
            then \<exists>e pc. message_events d' (msg_id m) = [e] \<and> evt_type e = msg_type m \<and>
                        find_chat (msg_thread_id m) d' = Some pc \<and> evt_recipient e = peer_of pc (msg_sender m)
            else message_events d' (msg_id m) = []"
  shows "publication_ok d'"
  unfolding publication_ok_def
proof
  fix r assume "r \<in> set (chat_messages d')"
  then consider "r = m" | "r \<in> set (chat_messages d)" using assms(2) by auto
  then show "if msg_status r = Published
             then \<exists>e pc. message_events d' (msg_id r) = [e] \<and> evt_type e = msg_type r \<and>
                         find_chat (msg_thread_id r) d' = Some pc \<and> evt_recipient e = peer_of pc (msg_sender r)
             else message_events d' (msg_id r) = []"
  proof cases
    case 2
    then have "msg_id r \<noteq> msg_id m" using assms(3) by (metis imageI)
    then show ?thesis using assms(1) 2 ev [of "msg_id r"] unfolding publication_ok_def ch by (metis (no_types, lifting))
  qed (use m in \<open>simp only:\<close>)
qed

lemma db_env_new_resource:
  assumes ok: "db_ok d" and new: "i \<notin> msg_id ` set (chat_messages d)"
    and m: "msg_id m = i" "msg_status m = Pending" and r: "res_message_id r = i"
    and d': "d' = d\<lparr>chat_messages := chat_messages d @ [m], message_resources := message_resources d @ [r]\<rparr>"
  shows "db_env d d'"
proof -
  have k: "keys_ok d" "events_ok d" "publication_ok d" using ok by (simp_all add: db_ok_def)
  have nores: "i \<notin> res_message_id ` set (message_resources d)" using k(1) new by (auto simp: keys_ok_sets)
  have noev: "message_events d i = []"
    using k(1) new unfolding keys_ok_sets message_events_def filter_empty_conv by blast
  have "keys_ok d'" using k(1) new nores m(1) r unfolding keys_ok_sets d' by auto
  moreover have "events_ok d'" using k(2) by (simp add: events_ok_def event_seqs_def d')
  moreover have "publication_ok d'"
    by (rule publication_new [OF k(3), of _ m])
      (use noev m new in \<open>simp_all add: message_events_def find_chat_def d'\<close>)
  moreover have "find_message j d = Some x \<Longrightarrow> find_message j d' = Some x" "find_resource j d = Some y \<Longrightarrow> find_resource j d' = Some y" for j x y
    by (simp_all add: find_message_def find_resource_def find_append d')
  moreover have "published_res d' x = published_res d x" for x
  proof -
    have "x' \<in> set (message_resources d) \<Longrightarrow> res_message_id x' \<noteq> i" "m' \<in> set (chat_messages d) \<Longrightarrow> msg_id m' \<noteq> i" for x' m'
      using nores new by (metis imageI)+
    then show ?thesis using m r by (auto simp: published_res_def d')
  qed
  ultimately show ?thesis by (simp add: db_env_def db_ok_def find_chat_def d')
qed

lemma db_env_new_text:
  assumes ok: "db_ok d" and new: "i \<notin> msg_id ` set (chat_messages d)"
    and m: "msg_id m = i" "msg_status m = Published" "find_chat (msg_thread_id m) d = Some pc" "u = peer_of pc (msg_sender m)"
    and a: "AllocateEventSeq u (d\<lparr>chat_messages := chat_messages d @ [m]\<rparr>) = Some (seq, d1)"
    and e: "InsertMessageEvent u seq (msg_type m) i d1 = Some d'"
  shows "db_env d d'"
proof -
  have k: "keys_ok d" "events_ok d" "publication_ok d" using ok by (simp_all add: db_ok_def)
  obtain head where head: "find_user u (d\<lparr>chat_messages := chat_messages d @ [m]\<rparr>) = Some head" "seq = Suc (usr_last_event_seq head)"
    "d1 = d\<lparr>chat_messages := chat_messages d @ [m],
            users := map (\<lambda>r. if usr_id r = u then r\<lparr>usr_last_event_seq := seq\<rparr> else r) (users d)\<rparr>"
    by (rule AllocateEventSeq_D [OF a]) simp
  let ?e = "\<lparr>evt_recipient = u, evt_seq = seq, evt_type = msg_type m, evt_message_id = Some i, evt_request_id = None\<rparr>"
  note d' = InsertEvent_D(1) [OF e, unfolded head(3)]
  have head1: "find_user u d = Some head" using head(1) by (simp add: find_user_def)
  have u: "u \<in> usr_id ` set (users d)" using find_user_set [OF head1] by blast
  have nores: "i \<notin> res_message_id ` set (message_resources d)" using k(1) new by (auto simp: keys_ok_sets)
  have noev: "filter (\<lambda>e. evt_message_id e = Some i) (user_events d) = []"
    using k(1) new unfolding keys_ok_sets filter_empty_conv by blast
  have "events_ok d'"
    by (rule log_events_ok [OF _ k(2) head1 head(2), where e = ?e]) (use k(1) in \<open>simp_all add: d' keys_ok_def\<close>)
  moreover have us: "map usr_id (users d') = map usr_id (users d)" by (simp add: d')
  then have "usr_id ` set (users d') = usr_id ` set (users d)" by (metis list.set_map)
  then have "keys_ok d'" using k(1) u new m(1) unfolding keys_ok_sets us by (auto simp: d')
  moreover have "publication_ok d'"
  proof -
    have "message_events d' j = message_events d j @ (if j = i then [?e] else [])" for j
      by (simp add: message_events_def d')
    moreover have "find_chat t d' = find_chat t d" for t by (simp add: find_chat_def d')
    moreover have "chat_messages d' = chat_messages d @ [m]" by (simp add: d')
    ultimately show ?thesis
      by (intro publication_new [OF k(3), of _ m]) (use noev m new in \<open>simp_all add: message_events_def\<close>)
  qed
  moreover have "find_message j d = Some x \<Longrightarrow> find_message j d' = Some x" for j x
    by (simp add: find_message_def find_append d')
  moreover have "published_res d' x = published_res d x" for x
  proof -
    have "x' \<in> set (message_resources d) \<Longrightarrow> res_message_id x' \<noteq> i" for x' using nores by (metis imageI)
    then have "x \<in> set (message_resources d) \<Longrightarrow> msg_id m \<noteq> res_message_id x" using m(1) by metis
    then show ?thesis by (auto simp: published_res_def d')
  qed
  ultimately show ?thesis by (simp add: db_env_def db_ok_def find_chat_def find_resource_def d')
qed

subsection \<open>The transactions\<close>

text \<open>A transaction whose body is a permitted change is one, whatever happens to the connection.\<close>

lemma db_env_transact:
  assumes "db_ok d" and "\<And>e x d2. db_ok e \<Longrightarrow> body e = (x, True, d2) \<Longrightarrow> db_env e d2"
  shows "db_env d (snd (transact body d))"
proof -
  obtain r d' where t: "transact body d = (r, d')" by (rule prod.exhaust)
  have kept: "db_env d (d\<lparr>outcomes := tl (outcomes d)\<rparr>)" using assms(1) by (intro db_env_rows) simp_all
  from t have "db_env d d'"
  proof (cases rule: transact_cases)
    case (applied x d2)
    then have "db_env (d\<lparr>outcomes := tl (outcomes d)\<rparr>) d2" using assms by simp
    with kept applied(2) show ?thesis using db_env_trans by blast
  qed (use kept in simp)
  then show ?thesis by (simp add: t)
qed

lemma answer_snd [simp]: "snd (answer x r) = snd r"
  by (auto simp: answer_def split: prod.split sum.split)

lemma db_env_query: "db_ok d \<Longrightarrow> db_env d (snd (query body d))"
  unfolding query_def by (rule db_env_transact) simp_all

lemma db_env_RegUser: "db_ok d \<Longrightarrow> db_env d (snd (RegUser coll kdf rand gap name email password d))"
proof -
  assume ok: "db_ok d"
  have "db_env e d2" if "db_ok e" "reg_user_body coll gap name email hash e = (x, True, d2)" for hash e x d2
    using that auto_id_fresh(1) [of gap "map usr_id (users e)"]
    by (auto simp: reg_user_body_def Let_def split: if_splits intro!: db_env_new_user [OF that(1)])
  then show ?thesis
    unfolding RegUser_def Let_def using ok by (auto intro!: db_env_refl db_env_transact)
qed

lemma db_env_UpdatePwd: "db_ok d \<Longrightarrow> db_env d (snd (UpdatePwd coll kdf rand name new_password d))"
  unfolding UpdatePwd_def Let_def
  by (auto simp: update_rows_def intro!: db_env_refl db_env_transact intro: db_env_users)

lemma db_env_new_request:
  assumes "db_ok d" and "new_request gap now u v t cid d = (x, True, d')"
  shows "db_env d d'"
proof -
  let ?d = "\<lambda>row. d\<lparr>friend_requests := friend_requests d @ [row]\<rparr>"
  from assms(2) obtain row seq d2 q where a: "AllocateEventSeq v (?d row) = Some (seq, d2)"
    and e: "InsertFriendEvent v seq FRIEND_APPLY q d2 = Some d'"
    by (auto simp: new_request_def Let_def split: option.splits)
  have env: "db_env d (?d row)" by (rule db_env_friends [OF assms(1)])
  then have "db_env (?d row) d'" by (intro db_env_friend_event [OF _ a e]) (simp add: db_env_def)
  with env show ?thesis by (rule db_env_trans)
qed

lemma db_env_AddFriendApply: "db_ok d \<Longrightarrow> db_env d (snd (AddFriendApply coll gap now u v t cid d))"
proof -
  assume ok: "db_ok d"
  have "db_env e d2" if "db_ok e" "add_friend_body coll gap now u v t cid e = (x, True, d2)" for e x d2
    using that by (auto simp: add_friend_body_def split: if_splits option.splits list.splits
        intro: db_env_refl db_env_new_request)
  then show ?thesis
    unfolding AddFriendApply_def using ok by (auto intro!: db_env_refl db_env_transact)
qed

lemma db_env_upsert_chat: "db_ok d \<Longrightarrow> upsert_chat gap l h d = Some (t, d') \<Longrightarrow> db_env d d'"
  using auto_id_fresh(1) [of gap "map pc_thread_id (private_chats d)"]
  by (auto simp: upsert_chat_def Let_def split: option.splits if_splits intro: db_env_refl intro!: db_env_new_chat [of d])

lemma db_env_accept_rows:
  assumes "db_ok d" and "accept_rows gap r d = Some (t, d')"
  shows "db_env d d'"
proof -
  let ?l = "min (req_requester r) (req_target r)" and ?h = "max (req_requester r) (req_target r)"
  from assms(2) obtain d1 rs where u: "upsert_chat gap ?l ?h d = Some (t, d1)"
    and d': "d' = (ignore_insert_friendship ?l ?h d1)\<lparr>friend_requests := rs\<rparr>"
    by (auto simp: accept_rows_def Let_def update_rows_def split: option.splits if_splits)
  note e1 = db_env_upsert_chat [OF assms(1) u]
  then have "db_env d1 (ignore_insert_friendship ?l ?h d1)"
    by (auto simp: ignore_insert_friendship_def db_env_def [of d] intro: db_env_refl db_env_friends)
  moreover from this have "db_env (ignore_insert_friendship ?l ?h d1) d'"
    unfolding d' by (intro db_env_friends) (simp add: db_env_def)
  ultimately show ?thesis using e1 db_env_trans by blast
qed

lemma db_env_tell_requester:
  assumes "db_env d0 d" and "tell_requester ty r t d0 d = (x, True, d')"
  shows "db_env d0 d'"
proof -
  from assms(2) obtain seq d1 where "AllocateEventSeq (req_requester r) d = Some (seq, d1)"
    "InsertFriendEvent (req_requester r) seq ty (req_id r) d1 = Some d'"
    by (auto simp: tell_requester_def Let_def split: option.splits)
  moreover have "db_ok d" using assms(1) by (simp add: db_env_def)
  ultimately show ?thesis using db_env_friend_event db_env_trans [OF assms(1)] by blast
qed

lemma db_env_HandleFriendApply: "db_ok d \<Longrightarrow> db_env d (snd (HandleFriendApply gap u q accept d))"
proof -
  assume ok: "db_ok d"
  have "db_env e d2" if e: "db_ok e" "handle_friend_body gap u q accept e = (x, True, d2)" for e x d2
  proof -
    have "reject_rows r e = Some d1 \<Longrightarrow> db_env e d1" for r d1
      using e(1) by (auto simp: reject_rows_def update_rows_def Let_def split: if_splits intro: db_env_friends)
    then show ?thesis
      using e by (auto simp: handle_friend_body_def Let_def split: option.splits if_splits
          intro: db_env_refl db_env_accept_rows db_env_tell_requester)
  qed
  then show ?thesis unfolding HandleFriendApply_def using ok by (auto intro!: db_env_transact)
qed

lemma db_env_CreatePrivateChat: "db_ok d \<Longrightarrow> db_env d (snd (CreatePrivateChat gap u v d))"
  unfolding CreatePrivateChat_def
  by (auto intro!: db_env_refl db_env_transact intro: db_env_upsert_chat split: option.splits)

lemma db_env_store_resource:
  assumes "db_ok d" and "store_resource gap m res d = (x, True, d')"
  shows "db_env d d'"
proof -
  define i where "i = auto_id gap (map msg_id (chat_messages d))"
  show ?thesis
  proof (rule db_env_new_resource [OF assms(1)])
    show "i \<notin> msg_id ` set (chat_messages d)" using auto_id_fresh(1) [of gap "map msg_id (chat_messages d)"] by (simp add: i_def)
    show "d' = d\<lparr>chat_messages := chat_messages d @ [message_row_of i (m\<lparr>ch_status := Pending\<rparr>)],
                 message_resources := message_resources d @ [res\<lparr>res_message_id := i\<rparr>]\<rparr>"
      using assms(2) by (auto simp: store_resource_def Let_def i_def split: if_splits)
  qed (simp_all add: message_row_of_def)
qed

lemma db_env_store_text:
  assumes ok: "db_ok d" and chat: "find_chat (ch_thread_id m) d = Some pc"
    and u: "ch_recipient_user_id m = peer_of pc (ch_sender_user_id m)" and s: "store_text gap m d = (x, True, d')"
  shows "db_env d d'"
proof -
  define i where "i = auto_id gap (map msg_id (chat_messages d))"
  define row where "row = message_row_of i (m\<lparr>ch_status := Published\<rparr>)"
  have row: "msg_id row = i" "msg_status row = Published" "find_chat (msg_thread_id row) d = Some pc"
    "ch_recipient_user_id m = peer_of pc (msg_sender row)" "msg_type row = ch_message_type m"
    using chat u by (simp_all add: row_def message_row_of_def)
  from s obtain seq d1 where a: "AllocateEventSeq (ch_recipient_user_id m) (d\<lparr>chat_messages := chat_messages d @ [row]\<rparr>) = Some (seq, d1)"
    and e: "InsertMessageEvent (ch_recipient_user_id m) seq (msg_type row) i d1 = Some d'"
    by (auto simp: store_text_def Let_def i_def [symmetric] row_def [symmetric] row(5) split: option.splits)
  show ?thesis
    by (rule db_env_new_text [OF ok _ row(1-4) a e]) (use auto_id_fresh(1) [of gap "map msg_id (chat_messages d)"] in \<open>simp add: i_def\<close>)
qed

lemma db_env_AddChatMsgTransaction:
  assumes "db_ok d" and "AddChatMsgTransaction coll gap m d = (x, True, d')"
  shows "db_env d d'"
proof -
  from assms(2) obtain pc where pc: "find_chat (ch_thread_id m) d = Some pc"
    by (auto simp: AddChatMsgTransaction_def ReadPrivateChatMembers_def split: option.splits)
  let ?m = "m\<lparr>ch_recipient_user_id := if ch_sender_user_id m = pc_lower pc then pc_higher pc else pc_lower pc\<rparr>"
  have "ch_recipient_user_id ?m = peer_of pc (ch_sender_user_id ?m)" "find_chat (ch_thread_id ?m) d = Some pc"
    using pc by (simp_all add: peer_of_def)
  then have "store_text gap ?m d = (x, True, d') \<Longrightarrow> ?thesis" using db_env_store_text [OF assms(1)] by blast
  then show ?thesis
    using assms by (auto simp: AddChatMsgTransaction_def ReadPrivateChatMembers_def pc Let_def split: option.splits if_splits
        intro: db_env_refl db_env_store_resource)
qed

lemma db_env_attempts: "db_ok d \<Longrightarrow> db_env d (snd (add_msg_attempts coll n gap m d))"
proof (induction coll n gap m d rule: add_msg_attempts.induct)
  case (1 coll n gap m d)
  obtain r d1 where t: "transact (AddChatMsgTransaction coll (gap n) m) d = (r, d1)" by (rule prod.exhaust)
  have env: "db_env d d1"
    using db_env_transact [OF 1(2), of "AddChatMsgTransaction coll (gap n) m"] db_env_AddChatMsgTransaction by (metis t snd_conv)
  then have ok: "db_ok d1" by (simp add: db_env_def)
  show ?case
    using env 1(1) [OF t [symmetric]] ok
    by (subst add_msg_attempts.simps) (auto simp: t split: sum.split nat.split intro: db_env_trans)
qed

lemma db_env_AddChatMsg: "db_ok d \<Longrightarrow> db_env d (snd (AddChatMsg coll n gap m d))"
  by (simp add: AddChatMsg_def db_env_refl db_env_attempts)

subsection \<open>The chat server as environment of the resource server\<close>

text \<open>A transition per transaction; a read takes a connection and changes no row (\<open>query_D\<close>).\<close>

inductive chat_step :: "(string \<Rightarrow> string) \<Rightarrow> db \<Rightarrow> db \<Rightarrow> bool"
  for coll :: "string \<Rightarrow> string" where
  chat_register: "chat_step coll d (snd (RegUser coll kdf rand gap name email password d))"
| chat_password: "chat_step coll d (snd (UpdatePwd coll kdf rand name new_password d))"
| chat_apply: "chat_step coll d (snd (AddFriendApply coll gap now requester target request_message client_request_id d))"
| chat_handle: "chat_step coll d (snd (HandleFriendApply gap handler friend_request_id accept d))"
| chat_create: "chat_step coll d (snd (CreatePrivateChat gap requester target d))"
| chat_save: "chat_step coll d (snd (AddChatMsg coll retries gap message d))"
| chat_read: "chat_step coll d (d\<lparr>outcomes := tl (outcomes d)\<rparr>)"

lemma chat_step_env: "chat_step coll d d' \<Longrightarrow> db_ok d \<Longrightarrow> db_env d d'"
  by (induction rule: chat_step.induct)
    (simp_all add: db_env_RegUser db_env_UpdatePwd db_env_AddFriendApply db_env_HandleFriendApply
      db_env_CreatePrivateChat db_env_AddChatMsg db_env_friends)

lemma chat_steps_env: "(chat_step coll)\<^sup>*\<^sup>* d d' \<Longrightarrow> db_ok d \<Longrightarrow> db_env d d'"
proof (induction rule: rtranclp_induct)
  case (step d1 d2)
  then have env: "db_env d d1" by simp
  then have "db_ok d1" by (simp add: db_env_def)
  from env chat_step_env [OF step(2) this] show ?case by (rule db_env_trans)
qed (rule db_env_refl)

lemma chat_steps_server:
  assumes "(chat_step coll)\<^sup>*\<^sup>* (fw_db w) d" and "reach (server_start sha root) (server_step sha root) w"
  shows "reach (server_start sha root) (server_step sha root) (set_db d w)"
proof -
  have "db_ok (fw_db w)" using server.inv_reach [OF assms(2)] by (simp add: upload_inv_def)
  then show ?thesis using chat_steps_env [OF assms(1)] assms(2) step_database reach.intros(2) by metis
qed

definition demo_text :: "string \<Rightarrow> chat_message" where
  "demo_text cid = \<lparr>ch_message_id = 0, ch_thread_id = 5, ch_sender_user_id = 1, ch_recipient_user_id = 0,
     ch_client_message_id = cid, ch_message_type = TEXT, ch_text_content = ''hi'', ch_status = Pending, ch_created_at = 7,
     ch_resource = None, ch_event_seq = 0\<rparr>"

text \<open>
  C4.  The chat server is a permitted environment of the resource server: after any sequence of its
  transactions (registration, passwords, friend requests, chats and messages, with every outcome of
  the database connection) on the tables of a reachable state of the upload system, the event log of
  every user is still gap-free, no message, chat or resource row is lost or changed, no file is
  published, and the state with the new tables is again a reachable state of the upload system.
\<close>

theorem chat_server_refines_environment:
  assumes "reach (server_start sha root) (server_step sha root) w" and "(chat_step coll)\<^sup>*\<^sup>* (fw_db w) d"
  shows "events_ok d \<and> publication_ok d \<and> db_env (fw_db w) d
       \<and> reach (server_start sha root) (server_step sha root) (set_db d w)"
proof -
  have "db_ok (fw_db w)" using server.inv_reach [OF assms(1)] by (simp add: upload_inv_def)
  then have "db_env (fw_db w) d" by (rule chat_steps_env [OF assms(2)])
  moreover from this have "events_ok d" "publication_ok d" by (simp_all add: db_env_def db_ok_def)
  ultimately show ?thesis using chat_steps_server [OF assms(2,1)] by blast
qed

theorem chat_server_refines_environment_witness:
  "let d = snd (AddChatMsg id 2 (\<lambda>_. 0) (demo_text ''x'') demo_upload_db) in
   map evt_seq (user_events d) = [1] \<and> db_env demo_upload_db d"
proof -
  let ?d = "snd (AddChatMsg id 2 (\<lambda>_. 0) (demo_text ''x'') demo_upload_db)"
  have start: "reach (server_start demo_sha [''r'']) (server_step demo_sha [''r'']) demo_server"
    by (rule reach_init) (rule demo_start)
  have "(chat_step id)\<^sup>*\<^sup>* (fw_db demo_server) ?d"
    by (simp add: demo_server_def chat_save r_into_rtranclp)
  from chat_server_refines_environment [OF start this]
  have "db_env demo_upload_db ?d" by (simp add: demo_server_def)
  moreover have "map evt_seq (user_events ?d) = [1]" by code_simp
  ultimately show ?thesis by simp
qed

end
