(* ===== verification/Chat_Tables.thy ===== *)
theory Chat_Tables
  imports Chat_Store
begin

text \<open>
  The shape of the rows that the chat server writes, as an invariant of its transactions: the types
  and statuses that occur, keys and references beyond those of \<open>keys_ok\<close>, and what the rows of
  different tables say about each other (friends have a chat, an accepted request names it, no
  request is open between friends).
\<close>

subsection \<open>The shape of the tables\<close>

abbreviation user_ids :: "db \<Rightarrow> nat set" where
  "user_ids d \<equiv> usr_id ` set (users d)"

definition users_ok :: "(string \<Rightarrow> string) \<Rightarrow> db \<Rightarrow> bool" where
  "users_ok coll d \<longleftrightarrow> distinct (map (\<lambda>r. coll (usr_username r)) (users d))
     \<and> distinct (map (\<lambda>r. coll (usr_email r)) (users d)) \<and> 0 \<notin> user_ids d"

definition chats_ok :: "db \<Rightarrow> bool" where
  "chats_ok d \<longleftrightarrow> distinct (map (\<lambda>c. (pc_lower c, pc_higher c)) (private_chats d))
     \<and> (\<forall>c \<in> set (private_chats d). 0 < pc_thread_id c \<and> pc_lower c < pc_higher c
          \<and> pc_lower c \<in> user_ids d \<and> pc_higher c \<in> user_ids d)"

definition message_ok :: "db \<Rightarrow> message_row \<Rightarrow> bool" where
  "message_ok d m \<longleftrightarrow> (\<exists>c. find_chat (msg_thread_id m) d = Some c \<and> (msg_sender m = pc_lower c \<or> msg_sender m = pc_higher c))
     \<and> (if msg_type m = PIC \<or> msg_type m = FILE
        then msg_text m = None \<and> (\<exists>r. find_resource (msg_id m) d = Some r \<and> 0 < res_file_size_bytes r)
        else msg_type m = TEXT \<and> msg_text m \<noteq> None \<and> msg_status m = Published)"

definition messages_ok :: "(string \<Rightarrow> string) \<Rightarrow> db \<Rightarrow> bool" where
  "messages_ok coll d \<longleftrightarrow> distinct (map (\<lambda>m. (msg_sender m, coll (msg_client_id m))) (chat_messages d))
     \<and> (\<forall>m \<in> set (chat_messages d). message_ok d m)"

definition friends_ok :: "db \<Rightarrow> bool" where
  "friends_ok d \<longleftrightarrow> distinct (map (\<lambda>f. (frd_lower f, frd_higher f)) (friendships d))
     \<and> (\<forall>f \<in> set (friendships d). \<exists>c \<in> set (private_chats d). pc_lower c = frd_lower f \<and> pc_higher c = frd_higher f)"

text \<open>The chat and the friendship of the two users of a request.\<close>

definition chat_of_request :: "request_row \<Rightarrow> private_chat_row \<Rightarrow> bool" where
  "chat_of_request q c \<longleftrightarrow> pc_lower c = min (req_requester q) (req_target q) \<and> pc_higher c = max (req_requester q) (req_target q)"

definition befriended :: "request_row \<Rightarrow> db \<Rightarrow> bool" where
  "befriended q d = are_friends (min (req_requester q) (req_target q)) (max (req_requester q) (req_target q)) d"

definition request_ok :: "db \<Rightarrow> request_row \<Rightarrow> bool" where
  "request_ok d q \<longleftrightarrow> req_requester q \<noteq> req_target q \<and> req_requester q \<in> user_ids d \<and> req_target q \<in> user_ids d
     \<and> (req_status q = 0 \<and> req_thread_id q = None \<and> \<not> befriended q d
        \<or> req_status q = 1 \<and> befriended q d
            \<and> (\<exists>c \<in> set (private_chats d). req_thread_id q = Some (pc_thread_id c) \<and> chat_of_request q c)
        \<or> req_status q = 2 \<and> req_thread_id q = None)"

definition requests_ok :: "(string \<Rightarrow> string) \<Rightarrow> db \<Rightarrow> bool" where
  "requests_ok coll d \<longleftrightarrow> distinct (map req_id (friend_requests d))
     \<and> distinct (map (\<lambda>q. (req_requester q, coll (req_client_id q))) (friend_requests d))
     \<and> distinct (map (\<lambda>q. (req_requester q, req_target q)) (filter (\<lambda>q. req_status q = 0) (friend_requests d)))
     \<and> (\<forall>q \<in> set (friend_requests d). request_ok d q)"

definition tables_ok :: "(string \<Rightarrow> string) \<Rightarrow> db \<Rightarrow> bool" where
  "tables_ok coll d \<longleftrightarrow> db_ok d \<and> users_ok coll d \<and> chats_ok d \<and> messages_ok coll d \<and> friends_ok d \<and> requests_ok coll d"

subsection \<open>What the parts depend on\<close>

lemma chats_mono: "chats_ok d \<Longrightarrow> private_chats d' = private_chats d \<Longrightarrow> user_ids d \<subseteq> user_ids d' \<Longrightarrow> chats_ok d'"
  unfolding chats_ok_def by auto

lemma messages_mono:
  assumes "messages_ok coll d" and "chat_messages d' = chat_messages d" and "message_resources d' = message_resources d"
    and "\<And>t c. find_chat t d = Some c \<Longrightarrow> find_chat t d' = Some c"
  shows "messages_ok coll d'"
proof -
  have "find_resource i d' = find_resource i d" for i by (simp add: find_resource_def assms(3))
  then have "message_ok d m \<Longrightarrow> message_ok d' m" for m using assms(4) unfolding message_ok_def by metis
  then show ?thesis using assms(1) by (simp add: messages_ok_def assms(2))
qed

lemma friends_mono:
  "friends_ok d \<Longrightarrow> friendships d' = friendships d \<Longrightarrow> set (private_chats d) \<subseteq> set (private_chats d') \<Longrightarrow> friends_ok d'"
  unfolding friends_ok_def by (metis subsetD)

lemma requests_mono:
  assumes "requests_ok coll d" and "friend_requests d' = friend_requests d" and "friendships d' = friendships d"
    and "set (private_chats d) \<subseteq> set (private_chats d')" and "user_ids d \<subseteq> user_ids d'"
  shows "requests_ok coll d'"
proof -
  have "befriended q d' = befriended q d" for q by (simp add: befriended_def are_friends_def assms(3))
  then have "request_ok d q \<Longrightarrow> request_ok d' q" for q using assms(4,5) unfolding request_ok_def by (metis subsetD)
  then show ?thesis using assms(1) by (simp add: requests_ok_def assms(2))
qed

lemma tables_users:
  assumes ok: "tables_ok coll d" and db: "db_ok d'"
    and us: "map usr_username (users d') = map usr_username (users d)" "map usr_email (users d') = map usr_email (users d)"
      "map usr_id (users d') = map usr_id (users d)"
    and same: "private_chats d' = private_chats d" "chat_messages d' = chat_messages d" "message_resources d' = message_resources d"
      "friendships d' = friendships d" "friend_requests d' = friend_requests d"
  shows "tables_ok coll d'"
proof -
  have ids: "user_ids d' = user_ids d" using us(3) by (metis list.set_map)
  have "map (\<lambda>r. coll (usr_username r)) (users d') = map (\<lambda>r. coll (usr_username r)) (users d)"
    "map (\<lambda>r. coll (usr_email r)) (users d') = map (\<lambda>r. coll (usr_email r)) (users d)"
    using arg_cong [OF us(1), of "map coll"] arg_cong [OF us(2), of "map coll"] by (simp_all add: o_def)
  then have "users_ok coll d'" using ok ids by (simp add: tables_ok_def users_ok_def)
  moreover have "messages_ok coll d'"
    by (rule messages_mono [of coll d]) (use ok same in \<open>simp_all add: tables_ok_def find_chat_def\<close>)
  ultimately show ?thesis
    using ok db ids same chats_mono [of d d'] friends_mono [of d d'] requests_mono [of coll d d'] by (simp add: tables_ok_def)
qed

subsection \<open>Elementary changes\<close>

lemma tables_new_user:
  assumes ok: "tables_ok coll d" and d': "d' = d\<lparr>users := users d @ [r]\<rparr>" and db: "db_ok d'"
    and new: "0 < usr_id r" "\<not> list_ex (\<lambda>x. coll (usr_username x) = coll (usr_username r) \<or> coll (usr_email x) = coll (usr_email r)) (users d)"
  shows "tables_ok coll d'"
proof -
  have "users_ok coll d'"
    using ok new by (auto simp: tables_ok_def users_ok_def d' list_ex_iff image_iff)
  moreover have "messages_ok coll d'"
    by (rule messages_mono [of coll d]) (use ok in \<open>simp_all add: tables_ok_def find_chat_def d'\<close>)
  ultimately show ?thesis
    using ok db chats_mono [of d d'] friends_mono [of d d'] requests_mono [of coll d d'] by (auto simp: tables_ok_def d')
qed

lemma tables_new_chat:
  assumes ok: "tables_ok coll d" and d': "d' = d\<lparr>private_chats := private_chats d @ [c]\<rparr>" and db: "db_ok d'"
    and c: "0 < pc_thread_id c" "pc_lower c < pc_higher c" "pc_lower c \<in> user_ids d" "pc_higher c \<in> user_ids d"
      "List.find (\<lambda>x. pc_lower x = pc_lower c \<and> pc_higher x = pc_higher c) (private_chats d) = None"
  shows "tables_ok coll d'"
proof -
  have "chats_ok d'" using ok c by (auto simp: tables_ok_def chats_ok_def d' find_None_iff image_iff)
  moreover have "messages_ok coll d'"
    by (rule messages_mono [of coll d]) (use ok in \<open>simp_all add: tables_ok_def find_chat_def find_append d'\<close>)
  ultimately show ?thesis
    using ok db friends_mono [of d d'] requests_mono [of coll d d'] by (auto simp: tables_ok_def users_ok_def d')
qed

text \<open>A message with its resource, or without one.\<close>

lemma tables_new_message:
  assumes ok: "tables_ok coll d" and db: "db_ok d'"
    and ms: "chat_messages d' = chat_messages d @ [m]" and rs: "\<exists>xs. message_resources d' = message_resources d @ xs"
    and new: "List.find (\<lambda>r. msg_sender r = msg_sender m \<and> coll (msg_client_id r) = coll (msg_client_id m)) (chat_messages d) = None"
    and m: "message_ok d' m"
    and us: "users_ok coll d'" "user_ids d' = user_ids d"
    and same: "private_chats d' = private_chats d" "friendships d' = friendships d" "friend_requests d' = friend_requests d"
  shows "tables_ok coll d'"
proof -
  have "find_resource i d = Some r \<Longrightarrow> find_resource i d' = Some r" for i r
    using rs by (auto simp: find_resource_def find_append)
  then have "message_ok d x \<Longrightarrow> message_ok d' x" for x
    unfolding message_ok_def find_chat_def same by metis
  then have "messages_ok coll d'"
    using ok new m by (auto simp: tables_ok_def messages_ok_def ms find_None_iff)
  then show ?thesis
    using ok db us chats_mono [of d d'] friends_mono [of d d'] requests_mono [of coll d d'] same by (simp add: tables_ok_def)
qed

lemma tables_new_request:
  assumes ok: "tables_ok coll d" and d': "d' = d\<lparr>friend_requests := friend_requests d @ [q]\<rparr>" and db: "db_ok d'"
    and new: "req_id q \<notin> req_id ` set (friend_requests d)"
      "List.find (\<lambda>r. req_requester r = req_requester q \<and> coll (req_client_id r) = coll (req_client_id q)) (friend_requests d) = None"
      "filter (\<lambda>r. req_requester r = req_requester q \<and> req_target r = req_target q \<and> req_status r = 0) (friend_requests d) = []"
    and q: "req_status q = 0" "request_ok d q"
  shows "tables_ok coll d'"
proof -
  have "befriended x d' = befriended x d" for x by (simp add: befriended_def are_friends_def d')
  then have "request_ok d' x = request_ok d x" for x by (simp add: request_ok_def d')
  then have "requests_ok coll d'"
    using ok new q by (auto simp: tables_ok_def requests_ok_def d' find_None_iff filter_empty_conv)
  moreover have "messages_ok coll d'"
    by (rule messages_mono [of coll d]) (use ok in \<open>simp_all add: tables_ok_def find_chat_def d'\<close>)
  ultimately show ?thesis using ok db by (simp add: tables_ok_def users_ok_def chats_ok_def friends_ok_def d')
qed

lemma distinct_map_filter_sub:
  "distinct (map k (filter P xs)) \<Longrightarrow> (\<And>x. Q x \<Longrightarrow> P x) \<Longrightarrow> distinct (map k (filter Q xs))"
proof -
  assume d: "distinct (map k (filter P xs))" and "\<And>x. Q x \<Longrightarrow> P x"
  then have "filter Q (filter P xs) = filter Q xs" by (auto intro: filter_cong)
  then show ?thesis using distinct_map_filter [OF d, of Q] by simp
qed

lemma requests_update:
  assumes "requests_ok coll d" and rs: "friend_requests d' = map f (friend_requests d)"
    and f: "\<And>q. req_id (f q) = req_id q" "\<And>q. req_requester (f q) = req_requester q" "\<And>q. req_target (f q) = req_target q"
      "\<And>q. req_client_id (f q) = req_client_id q" "\<And>q. req_status (f q) = 0 \<Longrightarrow> req_status q = 0"
    and ok: "\<And>q. q \<in> set (friend_requests d) \<Longrightarrow> request_ok d q \<Longrightarrow> request_ok d' (f q)"
  shows "requests_ok coll d'"
proof -
  have "distinct (map (\<lambda>q. (req_requester q, req_target q)) (filter (\<lambda>q. req_status (f q) = 0) (friend_requests d)))"
    by (rule distinct_map_filter_sub [where P = "\<lambda>q. req_status q = 0"]) (use assms(1) f(5) in \<open>auto simp: requests_ok_def\<close>)
  then show ?thesis
    using assms(1) ok by (simp add: requests_ok_def rs o_def f filter_map)
qed

lemma tables_reject:
  assumes ok: "tables_ok coll d" and db: "db_ok d'" and r: "reject_rows r d = Some d'"
  shows "tables_ok coll d'"
proof -
  let ?f = "\<lambda>q. if req_id q = req_id r \<and> req_status q = 0 then q\<lparr>req_status := 2\<rparr> else q"
  have d': "d' = d\<lparr>friend_requests := map ?f (friend_requests d)\<rparr>"
    using r by (auto simp: reject_rows_def update_rows_def Let_def split: if_splits)
  have "befriended q d' = befriended q d" for q by (simp add: befriended_def are_friends_def d')
  then have "request_ok d q \<Longrightarrow> request_ok d' (?f q)" for q by (auto simp: request_ok_def d')
  then have "requests_ok coll d'"
    by (intro requests_update [of coll d d' ?f]) (use ok in \<open>auto simp: tables_ok_def d' split: if_splits\<close>)
  moreover have "messages_ok coll d'"
    by (rule messages_mono [of coll d]) (use ok in \<open>simp_all add: tables_ok_def find_chat_def d'\<close>)
  ultimately show ?thesis using ok db by (simp add: tables_ok_def users_ok_def chats_ok_def friends_ok_def d')
qed

lemma befriended_insert:
  assumes "pc_lower c < pc_higher c" "pc_lower c \<in> user_ids d" "pc_higher c \<in> user_ids d"
  shows "befriended q (ignore_insert_friendship (pc_lower c) (pc_higher c) d) \<longleftrightarrow> befriended q d \<or> chat_of_request q c"
  using assms by (auto simp: befriended_def are_friends_def chat_of_request_def ignore_insert_friendship_def finds_None
      simp del: not_None_eq)

lemma friends_insert:
  assumes "friends_ok d" and "c \<in> set (private_chats d)"
  shows "friends_ok (ignore_insert_friendship (pc_lower c) (pc_higher c) d)"
  using assms by (auto simp: friends_ok_def ignore_insert_friendship_def are_friends_def list_ex_iff)

lemma request_pair:
  assumes "pc_lower c < pc_higher c"
  shows "(req_requester q = pc_lower c \<and> req_target q = pc_higher c \<or> req_requester q = pc_higher c \<and> req_target q = pc_lower c)
     \<longleftrightarrow> chat_of_request q c"
  using assms by (auto simp: chat_of_request_def min_def max_def)

lemma tables_accept:
  assumes ok: "tables_ok coll d" and db: "db_ok d'" and c: "c \<in> set (private_chats d)" "chat_of_request r c"
    and d': "d' = (ignore_insert_friendship (pc_lower c) (pc_higher c) d)\<lparr>friend_requests :=
        map (\<lambda>q. if req_status q = 0 \<and> (req_requester q = pc_lower c \<and> req_target q = pc_higher c
                                         \<or> req_requester q = pc_higher c \<and> req_target q = pc_lower c)
                 then q\<lparr>req_status := 1, req_thread_id := Some (pc_thread_id c)\<rparr> else q) (friend_requests d)\<rparr>"
  shows "tables_ok coll d'"
proof -
  have lh: "pc_lower c < pc_higher c" "pc_lower c \<in> user_ids d" "pc_higher c \<in> user_ids d"
    using ok c(1) by (auto simp: tables_ok_def chats_ok_def)
  let ?f = "\<lambda>q. if req_status q = 0 \<and> chat_of_request q c then q\<lparr>req_status := 1, req_thread_id := Some (pc_thread_id c)\<rparr> else q"
  let ?d = "ignore_insert_friendship (pc_lower c) (pc_higher c) d"
  have d2: "d' = ?d\<lparr>friend_requests := map ?f (friend_requests d)\<rparr>" unfolding d' request_pair [OF lh(1)] ..
  have same: "private_chats d' = private_chats d" "users d' = users d" "chat_messages d' = chat_messages d"
    "message_resources d' = message_resources d" "friendships d' = friendships ?d"
    by (simp_all add: d2 ignore_insert_friendship_def)
  have bf: "befriended q d' \<longleftrightarrow> befriended q d \<or> chat_of_request q c" for q
    using befriended_insert [OF lh, of q] by (simp add: befriended_def are_friends_def same(5))
  have "request_ok d' (?f q)" if "request_ok d q" for q
  proof (cases "req_status q = 0 \<and> chat_of_request q c")
    case True
    have "befriended (?f q) d'" "chat_of_request (?f q) c"
      using True bf [of "?f q"] by (simp_all add: chat_of_request_def)
    then show ?thesis using that c(1) True by (auto simp: request_ok_def same)
  next
    case False
    then show ?thesis using that bf [of q] by (auto simp: request_ok_def same)
  qed
  then have "requests_ok coll d'"
    by (intro requests_update [of coll d d' ?f]) (use ok in \<open>auto simp: tables_ok_def d2 split: if_splits\<close>)
  moreover have "friends_ok d'"
    using friends_insert [OF _ c(1)] ok by (auto simp: tables_ok_def friends_ok_def same ignore_insert_friendship_def)
  moreover have "messages_ok coll d'"
    by (rule messages_mono [of coll d]) (use ok in \<open>simp_all add: tables_ok_def find_chat_def same\<close>)
  ultimately show ?thesis using ok db chats_mono [of d d'] by (simp add: tables_ok_def users_ok_def same)
qed

subsection \<open>The transactions\<close>

lemma tables_transact:
  assumes ok: "tables_ok coll d" and body: "\<And>e x d2. tables_ok coll e \<Longrightarrow> body e = (x, True, d2) \<Longrightarrow> tables_ok coll d2"
  shows "tables_ok coll (snd (transact body d))"
proof -
  obtain r d' where t: "transact body d = (r, d')" by (rule prod.exhaust)
  have kept: "tables_ok coll (d\<lparr>outcomes := tl (outcomes d)\<rparr>)"
    by (rule tables_users [OF ok]) (use ok in \<open>simp_all add: tables_ok_def\<close>)
  from t have "tables_ok coll d'" by (cases rule: transact_cases) (use kept body in auto)
  then show ?thesis by (simp add: t)
qed

lemma tables_db: "tables_ok coll d \<Longrightarrow> db_ok d"
  by (simp add: tables_ok_def)

lemma env_db: "db_env d d' \<Longrightarrow> db_ok d'"
  by (simp add: db_env_def)

lemma tables_RegUser:
  assumes "tables_ok coll d"
  shows "tables_ok coll (snd (RegUser coll kdf rand gap name email password d))"
proof -
  have "tables_ok coll d2" if e: "tables_ok coll e" "reg_user_body coll gap name email hash e = (x, True, d2)" for hash e x d2
  proof -
    have f: "auto_id gap (map usr_id (users e)) \<notin> user_ids e" "0 < auto_id gap (map usr_id (users e))"
      using auto_id_fresh [of gap "map usr_id (users e)"] by simp_all
    let ?r = "\<lparr>usr_id = auto_id gap (map usr_id (users e)), usr_username = name, usr_email = email,
       usr_password_hash = hash, usr_nickname = name, usr_profile_bio = [], usr_gender = 0, usr_avatar_key = [], usr_last_event_seq = 0\<rparr>"
    from e(2) have d2: "d2 = e\<lparr>users := users e @ [?r]\<rparr>"
      and n: "\<not> list_ex (\<lambda>r. coll (usr_username r) = coll name \<or> coll (usr_email r) = coll email) (users e)"
      by (auto simp: reg_user_body_def Let_def split: if_splits)
    have "db_ok d2" by (rule env_db [OF db_env_new_user [OF tables_db [OF e(1)] _ _ d2]]) (use f in simp_all)
    from tables_new_user [OF e(1) d2 this] f n show ?thesis by simp
  qed
  then show ?thesis
    unfolding RegUser_def Let_def using assms by (simp add: tables_transact)
qed

lemma tables_UpdatePwd:
  assumes "tables_ok coll d"
  shows "tables_ok coll (snd (UpdatePwd coll kdf rand name new_password d))"
proof -
  have "tables_ok coll (e\<lparr>users := map (\<lambda>r. if coll (usr_username r) = coll name then r\<lparr>usr_password_hash := hash\<rparr> else r) (users e)\<rparr>)"
    (is "tables_ok coll ?e") if e: "tables_ok coll e" for e hash
  proof (rule tables_users [OF e])
    show "db_ok ?e" by (rule env_db [OF db_env_users [OF tables_db [OF e] refl]]) simp_all
  qed (simp_all add: o_def if_distrib [of usr_username] if_distrib [of usr_email])
  then show ?thesis
    unfolding UpdatePwd_def Let_def using assms by (auto simp: update_rows_def intro!: tables_transact)
qed

text \<open>The event that a transaction logs changes none of these tables.\<close>

lemma tables_friend_event:
  assumes ok: "tables_ok coll d" and a: "AllocateEventSeq u d = Some (seq, d1)" and i: "InsertFriendEvent u seq ty q d1 = Some d2"
  shows "tables_ok coll d2"
proof -
  have db: "db_ok d2" by (rule env_db [OF db_env_friend_event [OF tables_db [OF ok] a i]])
  obtain head where "d1 = d\<lparr>users := map (\<lambda>r. if usr_id r = u then r\<lparr>usr_last_event_seq := seq\<rparr> else r) (users d)\<rparr>"
    using AllocateEventSeq_D [OF a] by blast
  note d2 = InsertEvent_D(2) [OF i, unfolded this]
  show ?thesis by (rule tables_users [OF ok db]) (simp_all add: d2)
qed

lemma tables_upsert_chat:
  assumes ok: "tables_ok coll d" and u: "upsert_chat gap l h d = Some (t, d')"
  obtains c where "tables_ok coll d'" "c \<in> set (private_chats d')" "pc_thread_id c = t" "pc_lower c = l" "pc_higher c = h"
    "friend_requests d' = friend_requests d" "users d' = users d"
proof (cases "List.find (\<lambda>c. pc_lower c = l \<and> pc_higher c = h) (private_chats d)")
  case (Some c)
  then show ?thesis using that [of c] u ok by (auto simp: upsert_chat_def dest: find_SomeD)
next
  case None
  let ?c = "\<lparr>pc_thread_id = t, pc_lower = l, pc_higher = h\<rparr>"
  have t: "t = auto_id gap (map pc_thread_id (private_chats d))" and d': "d' = d\<lparr>private_chats := private_chats d @ [?c]\<rparr>"
    and lh: "l < h" "l \<in> user_ids d" "h \<in> user_ids d"
    using u None by (auto simp: upsert_chat_def Let_def finds_None simp del: not_None_eq split: if_splits)
  have f: "t \<notin> pc_thread_id ` set (private_chats d)" "0 < t"
    using auto_id_fresh [of gap "map pc_thread_id (private_chats d)"] by (simp_all add: t)
  have "db_ok d'" by (rule env_db [OF db_env_upsert_chat [OF tables_db [OF ok] u]])
  then have "tables_ok coll d'" by (rule tables_new_chat [OF ok d']) (use f lh None in simp_all)
  then show ?thesis using that [of ?c] d' by simp
qed

lemma tables_upsert: "tables_ok coll d \<Longrightarrow> upsert_chat gap l h d = Some (t, d') \<Longrightarrow> tables_ok coll d'"
  by (rule tables_upsert_chat)

lemma tables_CreatePrivateChat:
  assumes "tables_ok coll d"
  shows "tables_ok coll (snd (CreatePrivateChat gap u v d))"
  unfolding CreatePrivateChat_def using assms
  by (auto intro!: tables_transact split: option.splits intro: tables_upsert)

lemma tables_new_request_row:
  assumes ok: "tables_ok coll d" and n: "new_request gap now u v t cid d = (x, True, d')"
    and uv: "u \<noteq> v" "u \<in> user_ids d" "v \<in> user_ids d" "\<not> are_friends (min u v) (max u v) d"
    and key: "List.find (\<lambda>r. req_requester r = u \<and> coll (req_client_id r) = coll cid) (friend_requests d) = None"
    and pend: "filter (\<lambda>r. req_requester r = u \<and> req_target r = v \<and> req_status r = 0) (friend_requests d) = []"
  shows "tables_ok coll d'"
proof -
  define i where "i = auto_id gap (map req_id (friend_requests d))"
  let ?row = "\<lparr>req_id = i, req_requester = u, req_target = v, req_client_id = cid, req_message = t, req_status = 0,
     req_thread_id = None, req_created_at = now\<rparr>"
  let ?d = "d\<lparr>friend_requests := friend_requests d @ [?row]\<rparr>"
  from n obtain seq d2 where a: "AllocateEventSeq v ?d = Some (seq, d2)" and e: "InsertFriendEvent v seq FRIEND_APPLY i d2 = Some d'"
    by (auto simp: new_request_def Let_def i_def [symmetric] split: option.splits)
  have "tables_ok coll ?d"
  proof (rule tables_new_request [OF ok refl])
    show "db_ok ?d" by (rule env_db [OF db_env_friends(2) [OF tables_db [OF ok]]])
    show "req_id ?row \<notin> req_id ` set (friend_requests d)"
      using auto_id_fresh(1) [of gap "map req_id (friend_requests d)"] by (simp add: i_def)
    show "request_ok d ?row" using uv by (simp add: request_ok_def befriended_def)
  qed (use key pend in simp_all)
  then show ?thesis by (rule tables_friend_event [OF _ a e])
qed

lemma add_friend_body_cases:
  assumes "add_friend_body coll gap now u v t cid d = (x, True, d')"
  obtains "d' = d"
    | "new_request gap now u v t cid d = (x, True, d')" "u \<in> user_ids d" "v \<in> user_ids d" "\<not> are_friends (min u v) (max u v) d"
      "List.find (\<lambda>r. req_requester r = u \<and> coll (req_client_id r) = coll cid) (friend_requests d) = None"
      "filter (\<lambda>r. req_requester r = u \<and> req_target r = v \<and> req_status r = 0) (friend_requests d) = []"
proof -
  define K where "K = List.find (\<lambda>r. req_requester r = u \<and> coll (req_client_id r) = coll cid) (friend_requests d)"
  define S where "S = sort_key req_id (filter (\<lambda>r. req_requester r = u \<and> req_target r = v \<and> req_status r = 0) (friend_requests d))"
  have S: "S = [] \<Longrightarrow> filter (\<lambda>r. req_requester r = u \<and> req_target r = v \<and> req_status r = 0) (friend_requests d) = []"
    by (simp add: S_def sort_key_Nil)
  show ?thesis
    using assms that(1) that(2) [OF _ _ _ _ K_def [symmetric, THEN trans] S]
    unfolding add_friend_body_def K_def [symmetric] S_def [symmetric] finds_None
    by (cases K; cases S) (simp_all split: if_splits)
qed

lemma tables_AddFriendApply:
  assumes "tables_ok coll d"
  shows "tables_ok coll (snd (AddFriendApply coll gap now u v t cid d))"
proof (cases "u = v")
  case False
  have "tables_ok coll d2" if e: "tables_ok coll e" "add_friend_body coll gap now u v t cid e = (x, True, d2)" for e x d2
    using e(2) by (cases rule: add_friend_body_cases) (use e(1) False tables_new_request_row in blast)+
  then show ?thesis unfolding AddFriendApply_def using assms by (simp add: tables_transact)
qed (simp add: AddFriendApply_def assms)

lemma tables_accept_rows:
  assumes ok: "tables_ok coll d" and a: "accept_rows gap r d = Some (t, d')"
  shows "tables_ok coll d'"
proof -
  let ?l = "min (req_requester r) (req_target r)" and ?h = "max (req_requester r) (req_target r)"
  have db: "db_ok d'" by (rule env_db [OF db_env_accept_rows [OF tables_db [OF ok] a]])
  from a obtain d1 where u: "upsert_chat gap ?l ?h d = Some (t, d1)"
    by (auto simp: accept_rows_def Let_def update_rows_def split: option.splits if_splits)
  from ok u obtain c where c: "tables_ok coll d1" "c \<in> set (private_chats d1)" "pc_thread_id c = t" "pc_lower c = ?l" "pc_higher c = ?h"
    by (rule tables_upsert_chat)
  have fr: "friend_requests (ignore_insert_friendship l h d1) = friend_requests d1" for l h
    by (simp add: ignore_insert_friendship_def)
  show ?thesis
  proof (rule tables_accept [OF c(1) db c(2)])
    show "chat_of_request r c" using c by (simp add: chat_of_request_def)
  qed (unfold c(3-5), use a u in \<open>auto simp: accept_rows_def Let_def update_rows_def fr cong: if_cong split: option.splits if_splits\<close>)
qed

lemma tables_tell_requester:
  "tables_ok coll d \<Longrightarrow> tell_requester ty r t d0 d = (x, True, d') \<Longrightarrow> tables_ok coll d'"
  by (auto simp: tell_requester_def Let_def split: option.splits intro: tables_friend_event)

lemma tables_HandleFriendApply:
  assumes "tables_ok coll d"
  shows "tables_ok coll (snd (HandleFriendApply gap u q accept d))"
proof -
  have "tables_ok coll d2" if e: "tables_ok coll e" "handle_friend_body gap u q accept e = (x, True, d2)" for e x d2
  proof -
    have "tables_ok coll d1" if r: "reject_rows r e = Some d1" for r d1
    proof (rule tables_reject [OF e(1) _ r])
      show "db_ok d1" using r db_env_friends(2) [OF tables_db [OF e(1)]]
        by (auto simp: reject_rows_def update_rows_def Let_def db_env_def split: if_splits)
    qed
    then show ?thesis
      using e by (auto simp: handle_friend_body_def Let_def split: option.splits if_splits
          intro: tables_accept_rows tables_tell_requester)
  qed
  then show ?thesis unfolding HandleFriendApply_def using assms by (simp add: tables_transact)
qed

text \<open>A message that is stored had no predecessor with its key.\<close>

lemma no_message:
  assumes "tables_ok coll d" and "existing_message coll u cid d = None"
  shows "List.find (\<lambda>r. msg_sender r = u \<and> coll (msg_client_id r) = coll cid) (chat_messages d) = None"
proof (rule ccontr)
  assume "\<not> ?thesis"
  then obtain m where m: "List.find (\<lambda>r. msg_sender r = u \<and> coll (msg_client_id r) = coll cid) (chat_messages d) = Some m" by auto
  then have "message_ok d m" using assms(1) find_SomeD [OF m] by (auto simp: tables_ok_def messages_ok_def)
  then show False using assms(2) m by (auto simp: existing_message_def message_ok_def ReadMessage_def)
qed

lemma AddChatMsgTransaction_cases:
  assumes "AddChatMsgTransaction coll gap m d = (x, True, d')"
  obtains (kept) s where "d' = d" "x = (Save_Duplicate, s)"
  | (stored) pc m1 where "find_chat (ch_thread_id m) d = Some pc" "ch_sender_user_id m = pc_lower pc \<or> ch_sender_user_id m = pc_higher pc"
      "m1 = m\<lparr>ch_recipient_user_id := peer_of pc (ch_sender_user_id m)\<rparr>"
      "existing_message coll (ch_sender_user_id m) (ch_client_message_id m) d = None"
      "(ch_message_type m = PIC \<or> ch_message_type m = FILE) \<and> (\<exists>res. ch_resource m = Some res \<and> store_resource gap m1 res d = (x, True, d'))
       \<or> ch_message_type m = TEXT \<and> store_text gap m1 d = (x, True, d')"
proof -
  obtain pc where pc: "find_chat (ch_thread_id m) d = Some pc"
    and mem: "ch_sender_user_id m = pc_lower pc \<or> ch_sender_user_id m = pc_higher pc"
    using assms by (auto simp: AddChatMsgTransaction_def ReadPrivateChatMembers_def split: option.splits if_splits)
  let ?m = "m\<lparr>ch_recipient_user_id := peer_of pc (ch_sender_user_id m)\<rparr>"
  have eq: "m\<lparr>ch_recipient_user_id := if ch_sender_user_id m = pc_lower pc then pc_higher pc else pc_lower pc\<rparr> = ?m"
    by (auto simp: peer_of_def)
  show ?thesis
  proof (cases "existing_message coll (ch_sender_user_id m) (ch_client_message_id m) d")
    case None
    show ?thesis
      by (rule stored [OF pc mem refl None])
        (use assms pc mem None in \<open>simp add: AddChatMsgTransaction_def ReadPrivateChatMembers_def Let_def eq split: if_splits option.splits\<close>)
  next
    case (Some s)
    then have "d' = d" "x = (Save_Duplicate, with_event s d)"
      using assms pc mem by (auto simp: AddChatMsgTransaction_def ReadPrivateChatMembers_def Let_def eq split: if_splits)
    then show ?thesis by (rule kept)
  qed
qed

lemma tables_store_resource:
  assumes ok: "tables_ok coll d" and s: "store_resource gap m res d = (x, True, d')"
    and pc: "find_chat (ch_thread_id m) d = Some pc" "ch_sender_user_id m = pc_lower pc \<or> ch_sender_user_id m = pc_higher pc"
    and new: "existing_message coll (ch_sender_user_id m) (ch_client_message_id m) d = None"
    and ty: "ch_message_type m = PIC \<or> ch_message_type m = FILE"
  shows "tables_ok coll d'"
proof -
  define i where "i = auto_id gap (map msg_id (chat_messages d))"
  let ?row = "message_row_of i (m\<lparr>ch_status := Pending\<rparr>)"
  have db: "db_ok d'" by (rule env_db [OF db_env_store_resource [OF tables_db [OF ok] s]])
  have d': "d' = d\<lparr>chat_messages := chat_messages d @ [?row], message_resources := message_resources d @ [res\<lparr>res_message_id := i\<rparr>]\<rparr>"
    and sz: "0 < res_file_size_bytes res"
    using s by (auto simp: store_resource_def Let_def i_def split: if_splits)
  have "i \<notin> msg_id ` set (chat_messages d)"
    using auto_id_fresh(1) [of gap "map msg_id (chat_messages d)"] by (simp add: i_def)
  then have "i \<notin> res_message_id ` set (message_resources d)" using tables_db [OF ok] unfolding db_ok_def keys_ok_sets by blast
  then have "find_resource i d = None" by (simp add: finds_None)
  then have "message_ok d' ?row"
    using pc ty sz by (auto simp: message_ok_def message_row_of_def find_chat_def find_resource_def find_append d')
  then show ?thesis
    by (rule tables_new_message [OF ok db, rotated 3])
      (use ok no_message [OF ok new] in \<open>auto simp: d' message_row_of_def tables_ok_def users_ok_def\<close>)
qed

lemma tables_store_text:
  assumes ok: "tables_ok coll d" and s: "store_text gap m d = (x, True, d')"
    and pc: "find_chat (ch_thread_id m) d = Some pc" "ch_sender_user_id m = pc_lower pc \<or> ch_sender_user_id m = pc_higher pc"
    and u: "ch_recipient_user_id m = peer_of pc (ch_sender_user_id m)"
    and new: "existing_message coll (ch_sender_user_id m) (ch_client_message_id m) d = None"
    and ty: "ch_message_type m = TEXT"
  shows "tables_ok coll d'"
proof -
  let ?u = "ch_recipient_user_id m"
  define i where "i = auto_id gap (map msg_id (chat_messages d))"
  define row where "row = message_row_of i (m\<lparr>ch_status := Published\<rparr>)"
  have db: "db_ok d'" by (rule env_db [OF db_env_store_text [OF tables_db [OF ok] pc(1) u s]])
  from s obtain seq d1 where a: "AllocateEventSeq ?u (d\<lparr>chat_messages := chat_messages d @ [row]\<rparr>) = Some (seq, d1)"
    and e: "InsertMessageEvent ?u seq (ch_message_type m) i d1 = Some d'"
    by (auto simp: store_text_def Let_def i_def [symmetric] row_def [symmetric] split: option.splits)
  obtain head where "d1 = d\<lparr>chat_messages := chat_messages d @ [row],
      users := map (\<lambda>r. if usr_id r = ?u then r\<lparr>usr_last_event_seq := seq\<rparr> else r) (users d)\<rparr>"
    by (rule AllocateEventSeq_D [OF a]) simp
  note d' = InsertEvent_D(1) [OF e, unfolded this]
  have us: "map usr_username (users d') = map usr_username (users d)" "map usr_email (users d') = map usr_email (users d)"
      "map usr_id (users d') = map usr_id (users d)" by (simp_all add: d')
  have ids: "user_ids d' = user_ids d" using us(3) by (metis list.set_map)
  have uok: "users_ok coll d'"
    using ok ids arg_cong [OF us(1), of "map coll"] arg_cong [OF us(2), of "map coll"]
    by (simp add: tables_ok_def users_ok_def o_def)
  have mok: "message_ok d' row"
    using pc ty by (simp add: message_ok_def message_row_of_def find_chat_def d' row_def)
  have key: "msg_sender row = ch_sender_user_id m" "msg_client_id row = ch_client_message_id m" by (simp_all add: row_def message_row_of_def)
  show ?thesis
    by (rule tables_new_message [OF ok db _ _ _ mok uok ids])
      (simp_all only: key no_message [OF ok new], simp_all add: d')
qed

lemma tables_AddChatMsgTransaction:
  assumes ok: "tables_ok coll d" and t: "AddChatMsgTransaction coll gap m d = (x, True, d')"
  shows "tables_ok coll d'"
  using t
proof (cases rule: AddChatMsgTransaction_cases)
  case (stored pc m1)
  from stored(5) show ?thesis
  proof
    assume "(ch_message_type m = PIC \<or> ch_message_type m = FILE) \<and> (\<exists>res. ch_resource m = Some res \<and> store_resource gap m1 res d = (x, True, d'))"
    then obtain res where "ch_message_type m = PIC \<or> ch_message_type m = FILE" "store_resource gap m1 res d = (x, True, d')" by blast
    then show ?thesis by (intro tables_store_resource [OF ok, of gap m1 res]) (use stored(1-4) in simp_all)
  next
    assume "ch_message_type m = TEXT \<and> store_text gap m1 d = (x, True, d')"
    then show ?thesis by (intro tables_store_text [OF ok, of gap m1]) (use stored(1-4) in simp_all)
  qed
qed (use ok in simp)

lemma tables_attempts: "tables_ok coll d \<Longrightarrow> tables_ok coll (snd (add_msg_attempts coll n gap m d))"
proof (induction coll n gap m d rule: add_msg_attempts.induct)
  case (1 coll n gap m d)
  obtain r d1 where t: "transact (AddChatMsgTransaction coll (gap n) m) d = (r, d1)" by (rule prod.exhaust)
  have ok: "tables_ok coll d1"
    using tables_transact [OF 1(2), of "AddChatMsgTransaction coll (gap n) m"] tables_AddChatMsgTransaction by (metis t snd_conv)
  show ?case
    using 1(1) [OF t [symmetric]] ok by (subst add_msg_attempts.simps) (auto simp: t split: sum.split nat.split)
qed

lemma tables_step: "chat_step coll d d' \<Longrightarrow> tables_ok coll d \<Longrightarrow> tables_ok coll d'"
proof (induction rule: chat_step.induct)
  case (chat_read d)
  then show ?case by (intro tables_users [OF chat_read]) (simp_all add: tables_ok_def)
qed (simp_all add: tables_RegUser tables_UpdatePwd tables_AddFriendApply tables_HandleFriendApply
      tables_CreatePrivateChat tables_attempts AddChatMsg_def)

end
