(* ===== verification/Shared_Tables.thy ===== *)
theory Shared_Tables
  imports Chat_Tables "HOL-Library.Sublist"
begin

text \<open>
  The database under both servers: the transactions of the chat server and those of the resource
  server (publication, failure and expiry of uploads, avatars) in any order.  The tables keep their
  shape, and repeating a request finds the result of the first time: a message is stored once, and a
  friend request is answered once.
\<close>

subsection \<open>The resource server\<close>

text \<open>What its transactions leave alone besides the message rows.\<close>

definition accounts_kept :: "db \<Rightarrow> db \<Rightarrow> bool" where
  "accounts_kept d d' \<longleftrightarrow> map usr_username (users d') = map usr_username (users d) \<and> map usr_email (users d') = map usr_email (users d)
     \<and> map usr_id (users d') = map usr_id (users d) \<and> friendships d' = friendships d \<and> friend_requests d' = friend_requests d
     \<and> prefix (user_events d) (user_events d')"

lemma accounts_refl [simp]: "accounts_kept d d"
  by (simp add: accounts_kept_def)

lemma accounts_trans: "accounts_kept d d1 \<Longrightarrow> accounts_kept d1 d2 \<Longrightarrow> accounts_kept d d2"
  by (auto simp: accounts_kept_def)

lemma accounts_outcomes [simp]: "accounts_kept d (d\<lparr>outcomes := xs\<rparr>)" "accounts_kept (d\<lparr>outcomes := xs\<rparr>) d' = accounts_kept d d'"
  by (simp_all add: accounts_kept_def)

lemma accounts_transact:
  assumes "\<And>e x d2. body e = (x, True, d2) \<Longrightarrow> accounts_kept e d2"
  shows "accounts_kept d (snd (transact body d))"
proof -
  obtain r d' where t: "transact body d = (r, d')" by (rule prod.exhaust)
  then have "accounts_kept d d'"
    by (cases rule: transact_cases) (use assms [of "d\<lparr>outcomes := tl (outcomes d)\<rparr>"] in auto)
  then show ?thesis by (simp add: t)
qed

lemma publish_pending_accounts: "publish_pending i m u d = (x, c, d') \<Longrightarrow> accounts_kept d d'"
  by (auto simp: publish_pending_def update_rows_def Let_def accounts_kept_def split: option.splits if_splits)

lemma publish_body_accounts: "publish_body i s d = (x, c, d') \<Longrightarrow> accounts_kept d d'"
  by (auto simp: publish_body_def Let_def publish_pending_accounts split: option.splits if_splits)

lemma publish_attempts_accounts: "publish_attempts a i s d = (rc, seq, d') \<Longrightarrow> accounts_kept d d'"
proof (induction a i s d arbitrary: rc seq d' rule: publish_attempts.induct)
  case (1 a i s d)
  obtain rc1 seq1 dl d1 where o: "CompleteResourceUploadOnce i s d = (rc1, seq1, dl, d1)" by (metis prod_cases4)
  have "accounts_kept d (snd (transact (publish_body i s) d))" by (rule accounts_transact) (rule publish_body_accounts)
  then have k: "accounts_kept d d1"
    using o by (auto simp: CompleteResourceUploadOnce_def split: prod.splits sum.splits)
  show ?case
  proof (cases "rc1 \<noteq> Pub_Transient \<or> \<not> dl \<or> a \<ge> kPublishDeadlockMaxRetries")
    case True
    then show ?thesis using 1(2) o k by (simp add: publish_attempts.simps [of a])
  next
    case False
    then have "publish_attempts (a + 1) i s d1 = (rc, seq, d')" using 1(2) o by (simp add: publish_attempts.simps [of a])
    from 1(1) [OF o [symmetric] refl refl refl False this] k show ?thesis by (rule accounts_trans [rotated])
  qed
qed

lemma fail_pending_accounts: "accounts_kept d (snd (fail_pending i d))"
  by (simp add: fail_pending_def update_rows_def accounts_kept_def)

lemma fold_fail_accounts: "accounts_kept d (fold (\<lambda>i d. snd (fail_pending (ex_message_id i) d)) items d)"
proof (induction items arbitrary: d)
  case (Cons i items)
  from accounts_trans [OF fail_pending_accounts Cons] show ?case by simp
qed simp

lemma MarkResourceFailed_accounts: "accounts_kept d (snd (MarkResourceFailed i d))"
proof -
  have "accounts_kept d (snd (transact (\<lambda>d. let (n, d1) = fail_pending i d in (n = 1, True, d1)) d))"
    by (rule accounts_transact) (use fail_pending_accounts [of _ i] in \<open>auto simp: Let_def case_prod_beta\<close>)
  then show ?thesis by (simp add: MarkResourceFailed_def case_prod_beta split: sum.split)
qed

lemma MarkResourceExpired_accounts: "accounts_kept d (snd (MarkResourceExpired items d))"
proof -
  have "accounts_kept d (snd (transact (\<lambda>d. ((), True, fold (\<lambda>i d. snd (fail_pending (ex_message_id i) d)) items d)) d))"
    by (rule accounts_transact) (use fold_fail_accounts in auto)
  then show ?thesis by (simp add: MarkResourceExpired_def case_prod_beta split: sum.split)
qed

subsection \<open>The shape of the tables\<close>

lemma status_steps_map:
  assumes "list_all2 (status_step P) xs ys" and "\<And>m s. f (m\<lparr>msg_status := s\<rparr>) = f m"
  shows "map f ys = map f xs"
  using assms(1)
proof (induction rule: list_all2_induct)
  case (Cons x xs y ys)
  then show ?case using assms(2) unfolding status_step_def by (metis list.simps(9))
qed simp

lemma status_steps_source:
  assumes "list_all2 (status_step P) xs ys" and "y \<in> set ys"
  obtains x where "x \<in> set xs" "status_step P x y"
  using assms by (metis in_set_conv_nth list_all2_conv_all_nth)

lemma message_status:
  assumes "message_ok d m" and "status_step P m m'" and "private_chats d' = private_chats d" "message_resources d' = message_resources d"
  shows "message_ok d' m'"
proof -
  obtain s where m': "m' = m\<lparr>msg_status := s\<rparr>" "msg_status m \<noteq> Pending \<Longrightarrow> s = msg_status m"
    using assms(2) by (auto simp: status_step_def)
  show ?thesis
    using assms(1,3,4) m'(2) by (auto simp: message_ok_def find_chat_def find_resource_def m'(1) split: if_splits)
qed

lemma tables_evolves:
  assumes ok: "tables_ok coll d" and e: "evolves P d d'" and a: "accounts_kept d d'" and db: "db_ok d'"
  shows "tables_ok coll d'"
proof -
  have us: "map usr_username (users d') = map usr_username (users d)" "map usr_email (users d') = map usr_email (users d)"
      "map usr_id (users d') = map usr_id (users d)"
    and same: "friendships d' = friendships d" "friend_requests d' = friend_requests d"
      "private_chats d' = private_chats d" "message_resources d' = message_resources d"
    and ms: "list_all2 (status_step P) (chat_messages d) (chat_messages d')"
    using a e by (simp_all add: accounts_kept_def evolves_def)
  let ?d = "d'\<lparr>chat_messages := chat_messages d\<rparr>"
  have ids: "user_ids d' = user_ids d" using us(3) by (metis list.set_map)
  have "users_ok coll d'"
    using ok ids arg_cong [OF us(1), of "map coll"] arg_cong [OF us(2), of "map coll"]
    by (simp add: tables_ok_def users_ok_def o_def)
  moreover have "messages_ok coll d'"
  proof -
    have "map (\<lambda>m. (msg_sender m, coll (msg_client_id m))) (chat_messages d')
        = map (\<lambda>m. (msg_sender m, coll (msg_client_id m))) (chat_messages d)"
      by (rule status_steps_map [OF ms]) simp
    moreover have "message_ok d' m'" if "m' \<in> set (chat_messages d')" for m'
    proof -
      from ms that obtain m where m: "m \<in> set (chat_messages d)" "status_step P m m'" by (rule status_steps_source)
      then have "message_ok d m" using ok by (simp add: tables_ok_def messages_ok_def)
      then show ?thesis by (rule message_status [OF _ m(2) same(3,4)])
    qed
    ultimately show ?thesis using ok by (simp add: tables_ok_def messages_ok_def)
  qed
  ultimately show ?thesis
    using ok db ids same chats_mono [of d d'] friends_mono [of d d'] requests_mono [of coll d d'] by (simp add: tables_ok_def)
qed

text \<open>An empty database, and what the two servers do to it.\<close>

definition empty_tables :: "db \<Rightarrow> bool" where
  "empty_tables d \<longleftrightarrow> users d = [] \<and> friendships d = [] \<and> private_chats d = [] \<and> chat_messages d = []
     \<and> message_resources d = [] \<and> friend_requests d = [] \<and> user_events d = []"

inductive db_step :: "(string \<Rightarrow> string) \<Rightarrow> db \<Rightarrow> db \<Rightarrow> bool"
  for coll :: "string \<Rightarrow> string" where
  db_chat: "chat_step coll d d' \<Longrightarrow> db_step coll d d'"
| db_publish: "CompleteResourceUpload i s d = (rc, seq, d') \<Longrightarrow> db_step coll d d'"
| db_failed: "db_step coll d (snd (MarkResourceFailed i d))"
| db_expired: "db_step coll d (snd (MarkResourceExpired items d))"
| db_avatar: "db_step coll d (snd (UpdateHeadInfo u k d))"
| db_world: "db_step coll d (d\<lparr>outcomes := oc\<rparr>)"

lemma db_step_tables: "db_step coll d d' \<Longrightarrow> tables_ok coll d \<Longrightarrow> tables_ok coll d'"
proof (induction rule: db_step.induct)
  case (db_chat d d')
  then show ?case by (rule tables_step)
next
  case (db_publish i s d rc seq d')
  show ?case
    using tables_evolves [OF db_publish(2)] CompleteResourceUpload_D(1,2) [OF db_publish(1)] tables_db [OF db_publish(2)]
      publish_attempts_accounts [OF db_publish(1) [unfolded CompleteResourceUpload_def]] by blast
next
  case (db_failed d i)
  obtain ok d' where m: "MarkResourceFailed i d = (ok, d')" by (rule prod.exhaust)
  show ?case
    using tables_evolves [OF db_failed] MarkResourceFailed_D [OF m] tables_db [OF db_failed] MarkResourceFailed_accounts [of d i] m
    by simp
next
  case (db_expired d items)
  obtain ok d' where m: "MarkResourceExpired items d = (ok, d')" by (rule prod.exhaust)
  show ?case
    using tables_evolves [OF db_expired] MarkResourceExpired_D [OF m] tables_db [OF db_expired] MarkResourceExpired_accounts [of d items] m
    by simp
next
  case (db_avatar d u k)
  obtain g xs where "snd (UpdateHeadInfo u k d) = d\<lparr>users := map (\<lambda>r. r\<lparr>usr_avatar_key := g r\<rparr>) (users d), outcomes := xs\<rparr>"
    using UpdateHeadInfo_change [of d u k] by (auto simp: avatar_change_def)
  moreover have "db_ok (snd (UpdateHeadInfo u k d))"
    using avatar_change_ok [OF UpdateHeadInfo_change tables_db [OF db_avatar]] .
  ultimately show ?case by (intro tables_users [OF db_avatar]) (simp_all add: o_def)
next
  case (db_world d oc)
  then show ?case by (intro tables_users [OF db_world]) (simp_all add: tables_ok_def)
qed

lemma empty_tables_ok: "empty_tables d \<Longrightarrow> tables_ok coll d"
  by (simp add: empty_tables_def tables_ok_def db_ok_def keys_ok_def events_ok_def publication_ok_def users_ok_def chats_ok_def
      messages_ok_def friends_ok_def requests_ok_def)

interpretation tables: invariant_system empty_tables "db_step coll" "tables_ok coll" for coll
  by unfold_locales (simp_all add: empty_tables_ok db_step_tables)

subsection \<open>What later steps keep\<close>

text \<open>
  Later steps keep every message up to its status, which never changes from \<open>Published\<close>, with its
  resource and its chat, and the event log grows at its end.
\<close>

definition later :: "message_row \<Rightarrow> message_row \<Rightarrow> bool" where
  "later m m' \<longleftrightarrow> (\<exists>s. m' = m\<lparr>msg_status := s\<rparr> \<and> (msg_status m = Published \<longrightarrow> s = Published))"

lemma later_trans: "later a b \<Longrightarrow> later b c \<Longrightarrow> later a c"
  by (auto simp: later_def)

lemma later_refl [simp]: "later m m"
  unfolding later_def by (rule exI [of _ "msg_status m"]) simp

lemma status_step_later: "status_step P m m' \<Longrightarrow> later m m'"
  unfolding status_step_def later_def by (rule exI [of _ "msg_status m'"]) auto

definition grows :: "db \<Rightarrow> db \<Rightarrow> bool" where
  "grows d d' \<longleftrightarrow> (\<forall>i m. find_message i d = Some m \<longrightarrow> (\<exists>m'. find_message i d' = Some m' \<and> later m m'))
     \<and> (\<forall>i r. find_resource i d = Some r \<longrightarrow> find_resource i d' = Some r)
     \<and> (\<forall>t c. find_chat t d = Some c \<longrightarrow> find_chat t d' = Some c)
     \<and> prefix (user_events d) (user_events d')"

lemma grows_refl: "grows d d"
  by (auto simp: grows_def)

lemma grows_trans:
  assumes "grows d d1" and "grows d1 d2"
  shows "grows d d2"
proof -
  have "\<exists>m'. find_message i d2 = Some m' \<and> later m m'" if m: "find_message i d = Some m" for i m
  proof -
    obtain m1 where m1: "find_message i d1 = Some m1" "later m m1" using assms(1) m unfolding grows_def by blast
    obtain m2 where m2: "find_message i d2 = Some m2" "later m1 m2" using assms(2) m1(1) unfolding grows_def by blast
    from m2 later_trans [OF m1(2) m2(2)] show ?thesis by blast
  qed
  moreover have "prefix (user_events d) (user_events d2)"
    using assms unfolding grows_def by (blast intro: prefix_order.trans)
  ultimately show ?thesis using assms by (simp add: grows_def)
qed

lemma grows_env: "db_env d d' \<Longrightarrow> prefix (user_events d) (user_events d') \<Longrightarrow> grows d d'"
  by (auto simp: grows_def db_env_def)

lemma grows_evolves:
  assumes "evolves P d d'" and "prefix (user_events d) (user_events d')"
  shows "grows d d'"
proof -
  have "\<exists>m'. find_message i d' = Some m' \<and> later m m'" if "find_message i d = Some m" for i m
    by (rule evolves_find [OF assms(1) that]) (use status_step_later in blast)
  then show ?thesis using assms by (simp add: grows_def evolves_def find_resource_def find_chat_def)
qed

abbreviation log_kept :: "db \<Rightarrow> db \<Rightarrow> bool" where
  "log_kept d d' \<equiv> prefix (user_events d) (user_events d')"

lemma log_transact:
  assumes "\<And>e x d2. body e = (x, True, d2) \<Longrightarrow> log_kept e d2"
  shows "log_kept d (snd (transact body d))"
proof -
  obtain r d' where t: "transact body d = (r, d')" by (rule prod.exhaust)
  then have "log_kept d d'"
    by (cases rule: transact_cases) (use assms [of "d\<lparr>outcomes := tl (outcomes d)\<rparr>"] in auto)
  then show ?thesis by (simp add: t)
qed

lemma log_Allocate: "AllocateEventSeq u d = Some (seq, d') \<Longrightarrow> user_events d' = user_events d"
  by (auto simp: AllocateEventSeq_def update_rows_def Let_def split: option.splits if_splits)

lemma log_event:
  "AllocateEventSeq u d = Some (seq, d1) \<Longrightarrow> InsertFriendEvent v sq ty q d1 = Some d2 \<Longrightarrow> log_kept d d2"
  "AllocateEventSeq u d = Some (seq, d1) \<Longrightarrow> InsertMessageEvent v sq ty q d1 = Some d2 \<Longrightarrow> log_kept d d2"
  using log_Allocate by (auto dest!: InsertEvent_D)

lemma log_RegUser: "log_kept d (snd (RegUser coll kdf rand gap name email password d))"
  by (auto simp: RegUser_def Let_def reg_user_body_def intro!: log_transact split: if_splits)

lemma log_UpdatePwd: "log_kept d (snd (UpdatePwd coll kdf rand name new_password d))"
  by (auto simp: UpdatePwd_def Let_def update_rows_def intro!: log_transact split: if_splits)

lemma log_upsert_chat: "upsert_chat gap l h d = Some (t, d') \<Longrightarrow> user_events d' = user_events d"
  by (auto simp: upsert_chat_def Let_def split: option.splits if_splits)

lemma log_CreatePrivateChat: "log_kept d (snd (CreatePrivateChat gap u v d))"
  by (auto simp: CreatePrivateChat_def intro!: log_transact split: option.splits dest!: log_upsert_chat)

lemma log_new_request: "new_request gap now u v t cid d = (x, True, d') \<Longrightarrow> log_kept d d'"
  by (auto simp: new_request_def Let_def split: option.splits dest: log_event(1))

lemma log_AddFriendApply: "log_kept d (snd (AddFriendApply coll gap now u v t cid d))"
proof -
  have "log_kept e d2" if "add_friend_body coll gap now u v t cid e = (x, True, d2)" for e x d2
    using that by (cases rule: add_friend_body_cases) (auto dest: log_new_request)
  then show ?thesis by (simp add: AddFriendApply_def log_transact)
qed

lemma log_accept_rows: "accept_rows gap r d = Some (t, d') \<Longrightarrow> user_events d' = user_events d"
  by (auto simp: accept_rows_def Let_def update_rows_def ignore_insert_friendship_def split: option.splits if_splits
      dest!: log_upsert_chat)

lemma log_tell_requester: "tell_requester ty r t d0 d = (x, True, d') \<Longrightarrow> log_kept d d'"
  by (auto simp: tell_requester_def Let_def split: option.splits dest: log_event(1))

lemma log_reject_rows: "reject_rows r d = Some d' \<Longrightarrow> user_events d' = user_events d"
  by (auto simp: reject_rows_def update_rows_def Let_def split: if_splits)

lemma log_HandleFriendApply: "log_kept d (snd (HandleFriendApply gap u q accept d))"
proof -
  have "log_kept e d2" if "handle_friend_body gap u q accept e = (x, True, d2)" for e x d2
    using that by (auto simp: handle_friend_body_def split: option.splits if_splits
        dest!: log_tell_requester log_accept_rows log_reject_rows)
  then show ?thesis by (simp add: HandleFriendApply_def log_transact)
qed

lemma log_AddChatMsgTransaction:
  assumes "AddChatMsgTransaction coll gap m d = (x, True, d')"
  shows "log_kept d d'"
proof -
  have "store_resource gap m1 res d = (x, True, d') \<Longrightarrow> log_kept d d'" for m1 res
    by (auto simp: store_resource_def Let_def split: if_splits)
  moreover have "store_text gap m1 d = (x, True, d') \<Longrightarrow> log_kept d d'" for m1
    by (auto simp: store_text_def Let_def split: option.splits dest: log_event(2))
  ultimately show ?thesis using AddChatMsgTransaction_cases [OF assms] by (metis prefix_order.refl)
qed

lemma log_attempts: "log_kept d (snd (add_msg_attempts coll n gap m d))"
proof (induction coll n gap m d rule: add_msg_attempts.induct)
  case (1 coll n gap m d)
  obtain r d1 where t: "transact (AddChatMsgTransaction coll (gap n) m) d = (r, d1)" by (rule prod.exhaust)
  have k: "log_kept d d1"
    using log_transact [of "AddChatMsgTransaction coll (gap n) m" d] log_AddChatMsgTransaction by (metis t snd_conv)
  show ?case
    using 1(1) [OF t [symmetric]] k
    by (subst add_msg_attempts.simps) (auto simp: t split: sum.split nat.split intro: prefix_order.trans)
qed

lemma log_chat_step: "chat_step coll d d' \<Longrightarrow> log_kept d d'"
  by (induction rule: chat_step.induct)
    (simp_all add: log_RegUser log_UpdatePwd log_AddFriendApply log_HandleFriendApply log_CreatePrivateChat AddChatMsg_def log_attempts)

lemma db_step_grows:
  assumes "db_step coll d d'" and "tables_ok coll d"
  shows "grows d d'"
  using assms
proof (induction rule: db_step.induct)
  case (db_chat d d')
  then show ?case using grows_env [OF chat_step_env log_chat_step] tables_db by blast
next
  case (db_publish i s d rc seq d')
  then show ?case
    using grows_evolves CompleteResourceUpload_D(1) [OF db_publish(1)]
      publish_attempts_accounts [OF db_publish(1) [unfolded CompleteResourceUpload_def]] by (auto simp: accounts_kept_def)
next
  case (db_failed d i)
  then show ?case
    using grows_evolves MarkResourceFailed_D(1) MarkResourceFailed_accounts [of d i] by (metis accounts_kept_def prod.collapse)
next
  case (db_expired d items)
  then show ?case
    using grows_evolves MarkResourceExpired_D(1) MarkResourceExpired_accounts [of d items] by (metis accounts_kept_def prod.collapse)
next
  case (db_avatar d u k)
  obtain g xs where "snd (UpdateHeadInfo u k d) = d\<lparr>users := map (\<lambda>r. r\<lparr>usr_avatar_key := g r\<rparr>) (users d), outcomes := xs\<rparr>"
    using UpdateHeadInfo_change [of d u k] by (auto simp: avatar_change_def)
  then show ?case by (auto simp: grows_def find_defs)
next
  case (db_world d oc)
  then show ?case by (auto simp: grows_def)
qed

lemma db_steps_grow:
  assumes "(db_step coll)\<^sup>*\<^sup>* d d'" and "tables_ok coll d"
  shows "grows d d' \<and> tables_ok coll d'"
  using assms(1)
proof (induction rule: rtranclp_induct)
  case (step d1 d2)
  then show ?case using grows_trans [of d d1 d2] db_step_grows [OF step(2)] db_step_tables [OF step(2)] by simp
qed (simp add: grows_refl assms(2))

subsection \<open>Storing a message once\<close>

text \<open>The messages that the handlers pass on: a file has no text, and a text no file.\<close>

definition formed :: "chat_message \<Rightarrow> bool" where
  "formed m \<longleftrightarrow> (if ch_message_type m = PIC \<or> ch_message_type m = FILE then ch_text_content m = [] else ch_resource m = None)"

text \<open>The message \<open>m\<close> is stored under the id \<open>i\<close>; a text has the event number \<open>seq\<close>.\<close>

definition saved :: "chat_message \<Rightarrow> nat \<Rightarrow> nat \<Rightarrow> db \<Rightarrow> bool" where
  "saved m i seq d \<longleftrightarrow> (\<exists>row. find_message i d = Some row \<and> msg_thread_id row = ch_thread_id m \<and> msg_sender row = ch_sender_user_id m
     \<and> msg_client_id row = ch_client_message_id m \<and> msg_type row = ch_message_type m
     \<and> (if ch_message_type m = PIC \<or> ch_message_type m = FILE
        then msg_text row = None \<and> (\<exists>b. find_resource i d = Some b \<and> same_resource (Some b) (ch_resource m))
        else msg_text row = Some (ch_text_content m) \<and> msg_status row = Published
          \<and> (\<exists>pc e. find_chat (ch_thread_id m) d = Some pc
               \<and> find_message_event (peer_of pc (ch_sender_user_id m)) (ch_message_type m) i d = Some e \<and> evt_seq e = seq)))"

lemma event_prefix:
  "log_kept d d' \<Longrightarrow> find_message_event u ty i d = Some e \<Longrightarrow> find_message_event u ty i d' = Some e"
  by (auto simp: find_message_event_def prefix_def find_append)

lemma saved_grows:
  assumes "saved m i seq d" and g: "grows d d'"
  shows "saved m i seq d'"
proof -
  from assms(1) obtain row where row: "find_message i d = Some row" "msg_thread_id row = ch_thread_id m" "msg_sender row = ch_sender_user_id m"
    "msg_client_id row = ch_client_message_id m" "msg_type row = ch_message_type m"
    and rest: "if ch_message_type m = PIC \<or> ch_message_type m = FILE
        then msg_text row = None \<and> (\<exists>b. find_resource i d = Some b \<and> same_resource (Some b) (ch_resource m))
        else msg_text row = Some (ch_text_content m) \<and> msg_status row = Published
          \<and> (\<exists>pc e. find_chat (ch_thread_id m) d = Some pc
               \<and> find_message_event (peer_of pc (ch_sender_user_id m)) (ch_message_type m) i d = Some e \<and> evt_seq e = seq)"
    unfolding saved_def by blast
  obtain row' where row': "find_message i d' = Some row'" "later row row'" using g row(1) unfolding grows_def by blast
  then obtain s where s: "row' = row\<lparr>msg_status := s\<rparr>" "msg_status row = Published \<Longrightarrow> s = Published" by (auto simp: later_def)
  have r: "find_resource i d = Some b \<Longrightarrow> find_resource i d' = Some b" "find_chat t d = Some c \<Longrightarrow> find_chat t d' = Some c" for b t c
    using g by (simp_all add: grows_def)
  have ev: "find_message_event u ty i d = Some e \<Longrightarrow> find_message_event u ty i d' = Some e" for u ty e
    by (rule event_prefix) (use g in \<open>simp_all add: grows_def\<close>)
  show ?thesis
    unfolding saved_def
    by (rule exI [of _ row']) (use row rest row'(1) s r ev in \<open>auto split: if_splits\<close>)
qed

lemma fresh_message:
  assumes "db_ok d" and i: "i = auto_id gap (map msg_id (chat_messages d))"
  shows "find_message i d = None" "find_resource i d = None" "find_message_event u ty i d = None"
proof -
  have new: "i \<notin> msg_id ` set (chat_messages d)"
    using auto_id_fresh(1) [of gap "map msg_id (chat_messages d)"] by (simp add: i)
  then show "find_message i d = None" by (simp add: finds_None)
  have "i \<notin> res_message_id ` set (message_resources d)" using assms(1) new unfolding db_ok_def keys_ok_sets by blast
  then show "find_resource i d = None" by (simp add: finds_None)
  have "\<forall>e \<in> set (user_events d). evt_message_id e \<noteq> Some i" using assms(1) new unfolding db_ok_def keys_ok_sets by blast
  then show "find_message_event u ty i d = None" by (auto simp: find_message_event_def find_None_iff)
qed

lemma saved_resource:
  assumes ok: "db_ok d" and s: "store_resource gap m res d = ((Save_Stored, m1), True, d')" and r: "ch_resource m = Some res"
    and ty: "ch_message_type m = PIC \<or> ch_message_type m = FILE"
  shows "saved m (ch_message_id m1) (ch_event_seq m1) d'"
proof -
  define i where "i = auto_id gap (map msg_id (chat_messages d))"
  let ?row = "message_row_of i (m\<lparr>ch_status := Pending\<rparr>)"
  note new = fresh_message [OF ok i_def]
  have d': "d' = d\<lparr>chat_messages := chat_messages d @ [?row], message_resources := message_resources d @ [res\<lparr>res_message_id := i\<rparr>]\<rparr>"
    and m1: "ch_message_id m1 = i"
    using s by (auto simp: store_resource_def Let_def i_def split: if_splits)
  have "find_message i d' = Some ?row" "find_resource i d' = Some (res\<lparr>res_message_id := i\<rparr>)"
    using new by (simp_all add: d' find_message_def find_resource_def find_append message_row_of_def)
  then show ?thesis
    unfolding saved_def m1 using ty r by (auto simp: message_row_of_def same_resource_def)
qed

lemma saved_text:
  assumes ok: "db_ok d" and s: "store_text gap m d = ((Save_Stored, m1), True, d')"
    and pc: "find_chat (ch_thread_id m) d = Some pc" "ch_recipient_user_id m = peer_of pc (ch_sender_user_id m)"
    and ty: "ch_message_type m = TEXT"
  shows "saved m (ch_message_id m1) (ch_event_seq m1) d'"
proof -
  let ?u = "ch_recipient_user_id m"
  define i where "i = auto_id gap (map msg_id (chat_messages d))"
  define row where "row = message_row_of i (m\<lparr>ch_status := Published\<rparr>)"
  note new = fresh_message [OF ok i_def]
  from s obtain seq d1 where a: "AllocateEventSeq ?u (d\<lparr>chat_messages := chat_messages d @ [row]\<rparr>) = Some (seq, d1)"
    and e: "InsertMessageEvent ?u seq (ch_message_type m) i d1 = Some d'" and m1: "ch_message_id m1 = i" "ch_event_seq m1 = seq"
    by (auto simp: store_text_def Let_def i_def [symmetric] row_def [symmetric] split: option.splits)
  obtain head where "d1 = d\<lparr>chat_messages := chat_messages d @ [row],
      users := map (\<lambda>r. if usr_id r = ?u then r\<lparr>usr_last_event_seq := seq\<rparr> else r) (users d)\<rparr>"
    by (rule AllocateEventSeq_D [OF a]) simp
  note d' = InsertEvent_D(1) [OF e, unfolded this]
  have "find_message i d' = Some row"
    using new(1) by (simp add: d' find_message_def find_append row_def message_row_of_def)
  moreover have "find_chat (ch_thread_id m) d' = Some pc" using pc(1) by (simp add: d' find_chat_def)
  moreover have "\<exists>ev. find_message_event ?u (ch_message_type m) i d' = Some ev \<and> evt_seq ev = seq"
    using new(3) [of ?u "ch_message_type m"] by (simp add: d' find_message_event_def find_append)
  ultimately show ?thesis
    unfolding saved_def m1 using ty pc(2) by (auto simp: row_def message_row_of_def)
qed

lemma stored_saved:
  assumes ok: "db_ok d" and t: "AddChatMsgTransaction coll gap m d = ((Save_Stored, m1), c, d')"
  shows "c" "saved m (ch_message_id m1) (ch_event_seq m1) d'"
proof -
  show c using t by (auto simp: AddChatMsgTransaction_def ReadPrivateChatMembers_def store_resource_def store_text_def Let_def
        split: option.splits if_splits)
  then have "AddChatMsgTransaction coll gap m d = ((Save_Stored, m1), True, d')" using t by simp
  then show "saved m (ch_message_id m1) (ch_event_seq m1) d'"
  proof (cases rule: AddChatMsgTransaction_cases)
    case (stored pc m2)
    have eq: "saved m2 i seq d' = saved m i seq d'" for i seq by (simp add: saved_def stored(3))
    from stored(5) show ?thesis
    proof
      assume "(ch_message_type m = PIC \<or> ch_message_type m = FILE)
        \<and> (\<exists>res. ch_resource m = Some res \<and> store_resource gap m2 res d = ((Save_Stored, m1), True, d'))"
      then obtain res where "ch_message_type m2 = PIC \<or> ch_message_type m2 = FILE" "ch_resource m2 = Some res"
        "store_resource gap m2 res d = ((Save_Stored, m1), True, d')" by (auto simp: stored(3))
      then show ?thesis using saved_resource [OF ok] eq by blast
    next
      assume "ch_message_type m = TEXT \<and> store_text gap m2 d = ((Save_Stored, m1), True, d')"
      then have "saved m2 (ch_message_id m1) (ch_event_seq m1) d'"
        by (intro saved_text [OF ok, of gap m2]) (use stored(1,3) in auto)
      then show ?thesis using eq by blast
    qed
  qed simp
qed

lemma saved_again:
  assumes ok: "tables_ok coll d" and sv: "saved m i seq d" and f: "formed m"
  obtains m2 where "AddChatMsgTransaction coll gap m d = ((Save_Duplicate, m2), True, d)" "ch_message_id m2 = i"
    "ch_message_type m = TEXT \<Longrightarrow> ch_event_seq m2 = seq"
proof -
  from sv obtain row where row: "find_message i d = Some row" "msg_thread_id row = ch_thread_id m" "msg_sender row = ch_sender_user_id m"
    "msg_client_id row = ch_client_message_id m" "msg_type row = ch_message_type m"
    and rest: "if ch_message_type m = PIC \<or> ch_message_type m = FILE
        then msg_text row = None \<and> (\<exists>b. find_resource i d = Some b \<and> same_resource (Some b) (ch_resource m))
        else msg_text row = Some (ch_text_content m) \<and> msg_status row = Published
          \<and> (\<exists>pc e. find_chat (ch_thread_id m) d = Some pc
               \<and> find_message_event (peer_of pc (ch_sender_user_id m)) (ch_message_type m) i d = Some e \<and> evt_seq e = seq)"
    unfolding saved_def by blast
  have mem: "row \<in> set (chat_messages d)" "msg_id row = i" using find_message_set [OF row(1)] by simp_all
  have mok: "message_ok d row" and dist: "distinct (map (\<lambda>m. (msg_sender m, coll (msg_client_id m))) (chat_messages d))"
    using ok mem(1) by (simp_all add: tables_ok_def messages_ok_def)
  have "List.find (\<lambda>r. msg_sender r = ch_sender_user_id m \<and> coll (msg_client_id r) = coll (ch_client_message_id m)) (chat_messages d) = Some row"
    by (rule find_distinct [OF mem(1)]) (use row distinct_key [OF dist _ mem(1)] in auto)
  moreover obtain pc where pc: "find_chat (ch_thread_id m) d = Some pc" "ch_sender_user_id m = pc_lower pc \<or> ch_sender_user_id m = pc_higher pc"
    using mok row by (auto simp: message_ok_def)
  ultimately obtain sm where sm: "existing_message coll (ch_sender_user_id m) (ch_client_message_id m) d = Some sm" "ReadMessage d row = Some sm"
    using row(2) by (simp add: existing_message_def ReadMessage_def)
  have smf: "ch_message_id sm = i" "ch_message_type sm = ch_message_type m" "ch_status sm = msg_status row"
    "ch_recipient_user_id sm = peer_of pc (ch_sender_user_id m)"
    using sm(2) row pc(1) mem(2) by (auto simp: ReadMessage_def)
  have "same_message sm (m\<lparr>ch_recipient_user_id := u\<rparr>)" for u
    using sm(2) row pc(1) mem(2) rest f by (auto simp: ReadMessage_def same_message_def formed_def same_resource_def split: if_splits)
  then have "AddChatMsgTransaction coll gap m d = ((Save_Duplicate, with_event sm d), True, d)"
    using pc sm(1) by (auto simp: AddChatMsgTransaction_def ReadPrivateChatMembers_def Let_def)
  moreover have "ch_message_id (with_event sm d) = i" using smf(1) by (simp add: with_event_def split: option.split)
  moreover have "ch_event_seq (with_event sm d) = seq" if "ch_message_type m = TEXT"
    using rest that pc(1) smf by (auto simp: with_event_def)
  ultimately show thesis by (rule that)
qed

lemma attempts_stored:
  assumes "add_msg_attempts coll n gap m d = ((Save_Stored, m1), d1)" and "db_ok d"
  shows "saved m (ch_message_id m1) (ch_event_seq m1) d1"
  using assms
proof (induction coll n gap m d rule: add_msg_attempts.induct)
  case (1 coll n gap m d)
  obtain r d2 where t: "transact (AddChatMsgTransaction coll (gap n) m) d = (r, d2)" by (rule prod.exhaust)
  have ok: "db_ok d2"
    using env_db [OF db_env_transact [OF 1(3), of "AddChatMsgTransaction coll (gap n) m"]] db_env_AddChatMsgTransaction
    by (metis t snd_conv)
  show ?case
  proof (cases r)
    case (Inr x)
    then have x: "x = (Save_Stored, m1)" "d1 = d2" using 1(2) t by (simp_all add: add_msg_attempts.simps [of coll n])
    obtain c d3 where b: "AddChatMsgTransaction coll (gap n) m (d\<lparr>outcomes := tl (outcomes d)\<rparr>) = ((Save_Stored, m1), c, d3)"
      "d2 = (if c then d3 else d\<lparr>outcomes := tl (outcomes d)\<rparr>)"
      using transact_Inr [OF t [unfolded Inr x]] by metis
    have "db_ok (d\<lparr>outcomes := tl (outcomes d)\<rparr>)" using 1(3) by simp
    from stored_saved [OF this b(1)] b(2) x(2) show ?thesis by simp
  next
    case (Inl dl)
    show ?thesis
    proof (cases n)
      case 0
      then show ?thesis using 1(2) t Inl by (simp add: add_msg_attempts.simps [of coll 0])
    next
      case (Suc k)
      then have "dl" "add_msg_attempts coll k gap m d2 = ((Save_Stored, m1), d1)"
        using 1(2) t Inl by (auto simp: add_msg_attempts.simps [of coll "Suc k"] split: if_splits)
      then show ?thesis using 1(1) [OF t [symmetric] Inl Suc] ok by simp
    qed
  qed
qed

lemma attempts_again:
  assumes "add_msg_attempts coll n gap m d = ((r, m2), d')" and "tables_ok coll d" and "saved m i seq d" and "formed m"
  shows "(\<exists>xs. d' = d\<lparr>outcomes := xs\<rparr>)
    \<and> (r = Save_Failed \<or> r = Save_Duplicate \<and> ch_message_id m2 = i \<and> (ch_message_type m = TEXT \<longrightarrow> ch_event_seq m2 = seq))
    \<and> (outcomes d = [] \<longrightarrow> r = Save_Duplicate)"
  using assms
proof (induction coll n gap m d rule: add_msg_attempts.induct)
  case (1 coll n gap m d)
  let ?d = "d\<lparr>outcomes := tl (outcomes d)\<rparr>"
  have ok: "tables_ok coll ?d" by (rule tables_users [OF 1(3)]) (use 1(3) in \<open>simp_all add: tables_ok_def\<close>)
  have sv: "saved m i seq ?d" using 1(4) unfolding saved_def finds_outcomes .
  obtain m3 where m3: "AddChatMsgTransaction coll (gap n) m ?d = ((Save_Duplicate, m3), True, ?d)" "ch_message_id m3 = i"
    "ch_message_type m = TEXT \<Longrightarrow> ch_event_seq m3 = seq" using saved_again [OF ok sv 1(5), of "gap n"] by blast
  obtain q d2 where t: "transact (AddChatMsgTransaction coll (gap n) m) d = (q, d2)" by (rule prod.exhaust)
  then have q: "d2 = ?d" "q = Inr (Save_Duplicate, m3) \<or> isl q \<and> outcomes d \<noteq> []"
    using m3(1) by (auto simp: transact_def next_outcome_eq Let_def split: txn_outcome.splits list.splits if_splits)
  show ?case
  proof (cases q)
    case (Inr x)
    then show ?thesis using 1(2) t q m3 by (auto simp: add_msg_attempts.simps [of coll n])
  next
    case (Inl dl)
    have nonempty: "outcomes d \<noteq> []" using q Inl by auto
    show ?thesis
    proof (cases "n = 0 \<or> \<not> dl")
      case True
      then have "r = Save_Failed" "d' = d2" using 1(2) t Inl by (auto simp: add_msg_attempts.simps [of coll n] split: nat.splits)
      then show ?thesis using q(1) nonempty by auto
    next
      case False
      then obtain k where k: "n = Suc k" dl by (cases n) auto
      then have a: "add_msg_attempts coll k gap m d2 = ((r, m2), d')" using 1(2) t Inl by (simp add: add_msg_attempts.simps [of coll "Suc k"])
      have "\<not> \<not> dl" using k by simp
      from 1(1) [OF t [symmetric] Inl k(1) this a] ok sv 1(5) q(1) nonempty show ?thesis by auto
    qed
  qed
qed

subsection \<open>Answering a friend request once\<close>

definition settled :: "nat \<Rightarrow> request_row \<Rightarrow> db \<Rightarrow> bool" where
  "settled q r d \<longleftrightarrow> find_request q d = Some r \<and> req_status r \<noteq> 0"

lemma settled_keep: "settled q r d \<Longrightarrow> friend_requests d' = friend_requests d \<Longrightarrow> settled q r d'"
  by (simp add: settled_def find_request_def)

lemma settled_update:
  assumes "settled q r d" and "friend_requests d' = map f (friend_requests d)"
    and "\<And>x. req_id (f x) = req_id x" "\<And>x. req_status x \<noteq> 0 \<Longrightarrow> f x = x"
  shows "settled q r d'"
  using assms by (auto simp: settled_def find_request_def find_map_same)

lemma settled_append: "settled q r d \<Longrightarrow> friend_requests d' = friend_requests d @ rs \<Longrightarrow> settled q r d'"
  by (simp add: settled_def find_request_def find_append)

lemma settled_transact:
  assumes "settled q r d" and "\<And>e x d2. settled q r e \<Longrightarrow> body e = (x, True, d2) \<Longrightarrow> settled q r d2"
  shows "settled q r (snd (transact body d))"
proof -
  obtain z d' where t: "transact body d = (z, d')" by (rule prod.exhaust)
  have "settled q r (d\<lparr>outcomes := tl (outcomes d)\<rparr>)" by (rule settled_keep [OF assms(1)]) simp
  with t have "settled q r d'" by (cases rule: transact_cases) (use assms(2) in auto)
  then show ?thesis by (simp add: t)
qed

lemma requests_Allocate: "AllocateEventSeq u d = Some (seq, d') \<Longrightarrow> friend_requests d' = friend_requests d"
  by (auto simp: AllocateEventSeq_def update_rows_def Let_def split: option.splits if_splits)

lemma requests_event:
  "AllocateEventSeq u d = Some (seq, d1) \<Longrightarrow> InsertFriendEvent v sq ty q d1 = Some d2 \<Longrightarrow> friend_requests d2 = friend_requests d"
  "AllocateEventSeq u d = Some (seq, d1) \<Longrightarrow> InsertMessageEvent v sq ty q d1 = Some d2 \<Longrightarrow> friend_requests d2 = friend_requests d"
  using requests_Allocate by (auto dest!: InsertEvent_D)

lemma requests_upsert: "upsert_chat gap l h d = Some (t, d') \<Longrightarrow> friend_requests d' = friend_requests d"
  by (auto simp: upsert_chat_def Let_def split: option.splits if_splits)

lemma settled_tell: "settled q r d \<Longrightarrow> tell_requester ty x t d0 d = (y, True, d') \<Longrightarrow> settled q r d'"
  by (erule settled_keep) (auto simp: tell_requester_def Let_def split: option.splits dest!: requests_event(1))

lemma requests_ignore: "friend_requests (ignore_insert_friendship l h d) = friend_requests d"
  by (simp add: ignore_insert_friendship_def)

lemma settled_accept:
  assumes "settled q r d" and "accept_rows gap x d = Some (t, d')"
  shows "settled q r d'"
proof -
  let ?l = "min (req_requester x) (req_target x)" and ?h = "max (req_requester x) (req_target x)"
  from assms(2) obtain d1 where u: "upsert_chat gap ?l ?h d = Some (t, d1)"
    and d': "friend_requests d' = map (\<lambda>q. if req_status q = 0 \<and> (req_requester q = ?l \<and> req_target q = ?h \<or> req_requester q = ?h \<and> req_target q = ?l)
         then q\<lparr>req_status := 1, req_thread_id := Some t\<rparr> else q) (friend_requests d1)"
    unfolding accept_rows_def Let_def update_rows_def requests_ignore prod.case by (auto split: option.splits if_splits)
  have "settled q r d1" by (rule settled_keep [OF assms(1) requests_upsert [OF u]])
  then show ?thesis by (rule settled_update [OF _ d']) simp_all
qed

lemma settled_reject: "settled q r d \<Longrightarrow> reject_rows x d = Some d' \<Longrightarrow> settled q r d'"
  by (rule settled_update [of q r d d' "\<lambda>q. if req_id q = req_id x \<and> req_status q = 0 then q\<lparr>req_status := 2\<rparr> else q"])
    (auto simp: reject_rows_def update_rows_def Let_def split: if_splits)

lemma settled_handle: "settled q r d \<Longrightarrow> handle_friend_body gap u i accept d = (x, True, d') \<Longrightarrow> settled q r d'"
  by (auto simp: handle_friend_body_def split: option.splits if_splits intro: settled_tell settled_accept settled_reject)

lemma settled_save:
  assumes "settled q r d" and "AddChatMsgTransaction coll gap m d = (x, True, d')"
  shows "settled q r d'"
proof -
  have "store_resource gap m1 res d = (x, True, d') \<Longrightarrow> friend_requests d' = friend_requests d" for m1 res
    by (auto simp: store_resource_def Let_def split: if_splits)
  moreover have "store_text gap m1 d = (x, True, d') \<Longrightarrow> friend_requests d' = friend_requests d" for m1
    by (auto simp: store_text_def Let_def split: option.splits dest!: requests_event(2))
  ultimately have "friend_requests d' = friend_requests d" using AddChatMsgTransaction_cases [OF assms(2)] by metis
  then show ?thesis by (rule settled_keep [OF assms(1)])
qed

lemma settled_attempts: "settled q r d \<Longrightarrow> settled q r (snd (add_msg_attempts coll n gap m d))"
proof (induction coll n gap m d rule: add_msg_attempts.induct)
  case (1 coll n gap m d)
  obtain z d1 where t: "transact (AddChatMsgTransaction coll (gap n) m) d = (z, d1)" by (rule prod.exhaust)
  have "settled q r (snd (transact (AddChatMsgTransaction coll (gap n) m) d))"
    by (rule settled_transact [OF 1(2)]) (rule settled_save)
  then have "settled q r d1" by (simp add: t)
  then show ?case
    using 1(1) [OF t [symmetric]] by (subst add_msg_attempts.simps) (auto simp: t split: sum.split nat.split)
qed

lemma settled_chat_step:
  assumes "chat_step coll d d'" and "settled q r d"
  shows "settled q r d'"
  using assms
proof (induction rule: chat_step.induct)
  case (chat_register d kdf rand gap name email password)
  then show ?case
    by (auto simp: RegUser_def Let_def reg_user_body_def intro!: settled_transact elim: settled_keep split: if_splits)
next
  case (chat_password d kdf rand name new_password)
  then show ?case
    by (auto simp: UpdatePwd_def Let_def update_rows_def intro!: settled_transact elim: settled_keep)
next
  case (chat_apply d gap now u v t cid)
  have "settled q r d2" if e: "settled q r e" "add_friend_body coll gap now u v t cid e = (x, True, d2)" for e x d2
    using e(2)
  proof (cases rule: add_friend_body_cases)
    case 2
    then have "\<exists>rs. friend_requests d2 = friend_requests e @ rs"
      by (auto simp: new_request_def Let_def split: option.splits dest!: requests_event(1))
    then show ?thesis using settled_append [OF e(1)] by blast
  qed (use e in simp)
  then show ?case using chat_apply by (simp add: AddFriendApply_def settled_transact)
next
  case (chat_handle d gap handler i accept)
  then show ?case by (auto simp: HandleFriendApply_def intro!: settled_transact intro: settled_handle)
next
  case (chat_create d gap u v)
  then show ?case
    by (auto simp: CreatePrivateChat_def intro!: settled_transact split: option.splits dest!: requests_upsert elim: settled_keep)
next
  case (chat_save d n gap m)
  then show ?case by (simp add: AddChatMsg_def settled_attempts)
next
  case (chat_read d)
  then show ?case by (rule settled_keep) simp
qed

lemma settled_db_step:
  assumes "db_step coll d d'" and "settled q r d"
  shows "settled q r d'"
  using assms
proof (induction rule: db_step.induct)
  case (db_chat d d')
  then show ?case by (rule settled_chat_step)
next
  case (db_publish i s d rc seq d')
  have "friend_requests d' = friend_requests d"
    using publish_attempts_accounts [OF db_publish(1) [unfolded CompleteResourceUpload_def]] by (simp add: accounts_kept_def)
  then show ?case by (rule settled_keep [OF db_publish(2)])
next
  case (db_failed d i)
  then show ?case by (rule settled_keep) (use MarkResourceFailed_accounts [of d i] in \<open>simp add: accounts_kept_def\<close>)
next
  case (db_expired d items)
  then show ?case by (rule settled_keep) (use MarkResourceExpired_accounts [of d items] in \<open>simp add: accounts_kept_def\<close>)
next
  case (db_avatar d u k)
  then show ?case by (rule settled_keep) (use UpdateHeadInfo_change [of d u k] in \<open>auto simp: avatar_change_def\<close>)
next
  case (db_world d oc)
  then show ?case by (rule settled_keep) simp
qed

lemma settled_db_steps: "(db_step coll)\<^sup>*\<^sup>* d d' \<Longrightarrow> settled q r d \<Longrightarrow> settled q r d'"
  by (induction rule: rtranclp_induct) (auto intro: settled_db_step)

text \<open>The request as it is after the answer.\<close>

definition answered :: "nat \<Rightarrow> nat \<Rightarrow> bool \<Rightarrow> FriendHandleOutput \<Rightarrow> db \<Rightarrow> bool" where
  "answered q u accept out d \<longleftrightarrow> (\<exists>r. settled q r d \<and> req_target r = u \<and> req_status r = (if accept then 1 else 2)
     \<and> (case req_thread_id r of None \<Rightarrow> 0 | Some t \<Rightarrow> t) = fo_thread_id out \<and> req_requester r = fo_peer_user_id out)"

lemma tell_stored:
  assumes "tell_requester ty r t d0 d = ((Fr_Stored, out), c, d')"
  shows "c" "friend_requests d' = friend_requests d" "fo_thread_id out = t" "fo_peer_user_id out = req_requester r"
  using assms by (auto simp: tell_requester_def Let_def split: option.splits dest!: requests_event(1))

lemma handled_settled:
  assumes ok: "tables_ok coll d" and h: "handle_friend_body gap u q accept d = ((Fr_Stored, out), c, d')"
  shows "c \<and> answered q u accept out d'"
proof -
  obtain r where r: "find_request q d = Some r" "req_target r = u" "req_status r = 0"
    using h by (auto simp: handle_friend_body_def split: option.splits if_splits)
  have rd: "r \<in> set (friend_requests d)" "req_id r = q" using find_SomeD r(1) unfolding find_request_def by fastforce+
  have rt: "req_thread_id r = None" using ok rd(1) r(3) by (auto simp: tables_ok_def requests_ok_def request_ok_def)
  show ?thesis
  proof (cases accept)
    case True
    then obtain t d1 where a: "accept_rows gap r d = Some (t, d1)"
      and tell: "tell_requester FRIEND_ACCEPT (r\<lparr>req_status := 1, req_thread_id := Some t\<rparr>) t d d1 = ((Fr_Stored, out), c, d')"
      using h r by (auto simp: handle_friend_body_def split: option.splits)
    let ?l = "min (req_requester r) (req_target r)" and ?h = "max (req_requester r) (req_target r)"
    let ?f = "\<lambda>q. if req_status q = 0 \<and> (req_requester q = ?l \<and> req_target q = ?h \<or> req_requester q = ?h \<and> req_target q = ?l)
         then q\<lparr>req_status := 1, req_thread_id := Some t\<rparr> else q"
    from a obtain d2 where "upsert_chat gap ?l ?h d = Some (t, d2)" "friend_requests d1 = map ?f (friend_requests d2)"
      unfolding accept_rows_def Let_def update_rows_def requests_ignore prod.case by (auto split: option.splits if_splits)
    then have "friend_requests d' = map ?f (friend_requests d)" using requests_upsert tell_stored(2) [OF tell] by simp
    moreover have "?f r = r\<lparr>req_status := 1, req_thread_id := Some t\<rparr>" using r(3) by (auto simp: min_def max_def)
    ultimately have "find_request q d' = Some (r\<lparr>req_status := 1, req_thread_id := Some t\<rparr>)"
      using r(1) by (simp add: find_request_def find_map_same)
    then have "settled q (r\<lparr>req_status := 1, req_thread_id := Some t\<rparr>) d'" by (simp add: settled_def)
    then show ?thesis using tell_stored [OF tell] r(2) True unfolding answered_def by fastforce
  next
    case False
    then obtain d1 where a: "reject_rows r d = Some d1"
      and tell: "tell_requester FRIEND_REJECT (r\<lparr>req_status := 2\<rparr>) 0 d d1 = ((Fr_Stored, out), c, d')"
      using h r by (auto simp: handle_friend_body_def split: option.splits)
    have "friend_requests d' = map (\<lambda>x. if req_id x = req_id r \<and> req_status x = 0 then x\<lparr>req_status := 2\<rparr> else x) (friend_requests d)"
      using a tell_stored(2) [OF tell] by (auto simp: reject_rows_def update_rows_def Let_def split: if_splits)
    then have "find_request q d' = Some (r\<lparr>req_status := 2\<rparr>)"
      using r(1,3) rd(2) by (simp add: find_request_def find_map_same)
    then have "settled q (r\<lparr>req_status := 2\<rparr>) d'" by (simp add: settled_def)
    then show ?thesis using tell_stored [OF tell] r(2) False rt unfolding answered_def by fastforce
  qed
qed

lemma handled_again:
  assumes "answered q u accept out d"
  obtains out2 where "handle_friend_body gap u q accept' d =
      ((if accept' = accept then Fr_Duplicate else Fr_AlreadyHandled, out2), True, d)"
    "fo_thread_id out2 = fo_thread_id out" "fo_peer_user_id out2 = fo_peer_user_id out"
  using assms by (auto simp: answered_def settled_def handle_friend_body_def)

subsection \<open>A run\<close>

text \<open>Two accounts, a friend request from the first to the second, and a chat.\<close>

definition empty_db :: db where
  "empty_db = \<lparr>users = [], friendships = [], private_chats = [], chat_messages = [], message_resources = [], friend_requests = [],
     user_events = [], outcomes = []\<rparr>"

definition run_accounts :: db where
  "run_accounts = snd (RegUser id demo_kdf (Some ''0123456789abcdef'') 0 ''b'' ''b'' ''p''
     (snd (RegUser id demo_kdf (Some ''0123456789abcdef'') 0 ''a'' ''a'' ''p'' empty_db)))"

definition run_request :: db where
  "run_request = snd (AddFriendApply id 0 5 1 2 ''hello'' ''r1'' run_accounts)"

definition run_chat :: db where
  "run_chat = snd (CreatePrivateChat 0 1 2 run_accounts)"

definition run_text :: chat_message where
  "run_text = \<lparr>ch_message_id = 0, ch_thread_id = 1, ch_sender_user_id = 1, ch_recipient_user_id = 0,
     ch_client_message_id = ''m1'', ch_message_type = TEXT, ch_text_content = ''hi'', ch_status = Pending, ch_created_at = 7,
     ch_resource = None, ch_event_seq = 0\<rparr>"

lemma reach_chat: "reach empty_tables (db_step coll) d \<Longrightarrow> chat_step coll d d' \<Longrightarrow> reach empty_tables (db_step coll) d'"
  by (erule reach_step) (rule db_chat)

lemma run_reached:
  "reach empty_tables (db_step id) run_accounts" "reach empty_tables (db_step id) run_request" "reach empty_tables (db_step id) run_chat"
proof -
  have "reach empty_tables (db_step id) empty_db" by (rule reach_init) (simp add: empty_tables_def empty_db_def)
  from reach_chat [OF reach_chat [OF this chat_register] chat_register]
  show a: "reach empty_tables (db_step id) run_accounts" unfolding run_accounts_def .
  from reach_chat [OF a chat_apply] show "reach empty_tables (db_step id) run_request" unfolding run_request_def .
  from reach_chat [OF a chat_create] show "reach empty_tables (db_step id) run_chat" unfolding run_chat_def .
qed

subsection \<open>Properties\<close>

text \<open>
  C6.  The shape of the tables is an invariant of both servers: from an empty database, any sequence of
  their transactions, with every outcome of the connections, leads to tables in which every text
  message is published and has a text, every file message has a resource row and no text, senders are
  members of the chat, client ids are unique per sender, friends share a chat, an accepted request
  names this chat, no request is open between friends, and no two requests of one user to another are
  open at once; event logs are gap-free and every published message has exactly one event.
\<close>

theorem database_shape:
  assumes "reach empty_tables (db_step coll) d"
  shows "db_ok d \<and> users_ok coll d \<and> chats_ok d \<and> messages_ok coll d \<and> friends_ok d \<and> requests_ok coll d"
  using tables.inv_reach [OF assms] by (simp add: tables_ok_def)

text \<open>
  C5.  A message is stored once.  When \<open>AddChatMsg\<close> has answered \<open>Stored\<close> for a message, then after any
  further transactions of the servers the same message again (the client repeats what it got no
  answer for) changes no row; the answer is \<open>Duplicate\<close> with the id and, for a text, the event number of
  the first time, or a failure of the connection, and never \<open>Stored\<close> or \<open>Conflict\<close>.
\<close>

theorem message_stored_once:
  assumes "reach empty_tables (db_step coll) d" and "formed m" and "AddChatMsg coll n gap m d = ((Save_Stored, m1), d1)"
    and "(db_step coll)\<^sup>*\<^sup>* d1 d2" and "AddChatMsg coll n' gap' m d2 = ((r, m2), d3)"
  shows "(\<exists>xs. d3 = d2\<lparr>outcomes := xs\<rparr>)
    \<and> (r = Save_Failed \<or> r = Save_Duplicate \<and> ch_message_id m2 = ch_message_id m1
         \<and> (ch_message_type m = TEXT \<longrightarrow> ch_event_seq m2 = ch_event_seq m1))
    \<and> (outcomes d2 = [] \<longrightarrow> r = Save_Duplicate)"
proof -
  have ok: "tables_ok coll d" using tables.inv_reach [OF assms(1)] .
  have "tables_ok coll d1" using tables_step [OF chat_save [of coll d n gap m] ok] assms(3) by simp
  note g = db_steps_grow [OF assms(4) this]
  have a: "add_msg_attempts coll n gap m d = ((Save_Stored, m1), d1)" "add_msg_attempts coll n' gap' m d2 = ((r, m2), d3)"
    using assms(3,5) by (auto simp: AddChatMsg_def split: if_splits)
  have "saved m (ch_message_id m1) (ch_event_seq m1) d2"
    using saved_grows attempts_stored [OF a(1) tables_db [OF ok]] g by blast
  from attempts_again [OF a(2) _ this assms(2)] g show ?thesis by blast
qed

theorem database_shape_witness:
  "length (users run_request) = 2 \<and> map req_status (friend_requests run_request) = [0] \<and> requests_ok id run_request"
proof -
  have "length (users run_request) = 2" "map req_status (friend_requests run_request) = [0]" by code_simp+
  then show ?thesis using database_shape [OF run_reached(2)] by simp
qed

theorem message_stored_once_witness:
  "let (a, d1) = AddChatMsg id 2 (\<lambda>_. 0) run_text run_chat; (b, d2) = AddChatMsg id 2 (\<lambda>_. 3) run_text d1 in
   fst a = Save_Stored \<and> fst b = Save_Duplicate \<and> ch_message_id (snd b) = ch_message_id (snd a) \<and> length (chat_messages d2) = 1"
proof -
  obtain a m1 d1 b m2 d2 where r: "AddChatMsg id 2 (\<lambda>_. 0) run_text run_chat = ((a, m1), d1)"
    "AddChatMsg id 2 (\<lambda>_. 3) run_text d1 = ((b, m2), d2)" by (metis prod.exhaust)
  have "fst (fst (AddChatMsg id 2 (\<lambda>_. 0) run_text run_chat)) = Save_Stored"
    "length (chat_messages (snd (AddChatMsg id 2 (\<lambda>_. 0) run_text run_chat))) = 1"
    "outcomes (snd (AddChatMsg id 2 (\<lambda>_. 0) run_text run_chat)) = []" by code_simp+
  then have a: "a = Save_Stored" "length (chat_messages d1) = 1" "outcomes d1 = []" unfolding r by simp_all
  have f: "formed run_text" by (simp add: formed_def run_text_def)
  from message_stored_once [OF run_reached(3) f r(1) [unfolded a] rtranclp.rtrancl_refl r(2)] a
  show ?thesis unfolding r Let_def prod.case by auto
qed

text \<open>
  C7.  A friend request is answered once.  After \<open>HandleFriendApply\<close> has stored an answer, and after any
  further transactions of the servers, a second answer of the same user changes no row: the same
  answer is reported as a duplicate, the opposite one as already handled, both with the chat and the
  user of the first time, unless the connection fails.  If the answer was to accept, the two users
  are friends from then on and the chat of the answer is theirs.
\<close>

theorem friend_request_answered_once:
  assumes "reach empty_tables (db_step coll) d" and "HandleFriendApply gap u q accept d = ((Fr_Stored, out), d1)"
    and "(db_step coll)\<^sup>*\<^sup>* d1 d2" and "HandleFriendApply gap' u q accept' d2 = ((r, out2), d3)"
  shows "d3 = d2\<lparr>outcomes := tl (outcomes d2)\<rparr>
    \<and> (r = Fr_Failed \<or> r = (if accept' = accept then Fr_Duplicate else Fr_AlreadyHandled)
         \<and> fo_thread_id out2 = fo_thread_id out \<and> fo_peer_user_id out2 = fo_peer_user_id out)
    \<and> (outcomes d2 = [] \<longrightarrow> r \<noteq> Fr_Failed)
    \<and> (accept \<longrightarrow> are_friends (min (fo_peer_user_id out) u) (max (fo_peer_user_id out) u) d2
         \<and> (\<exists>c \<in> set (private_chats d2). pc_thread_id c = fo_thread_id out
              \<and> pc_lower c = min (fo_peer_user_id out) u \<and> pc_higher c = max (fo_peer_user_id out) u))"
proof -
  have ok: "tables_ok coll d" using tables.inv_reach [OF assms(1)] .
  let ?d = "d\<lparr>outcomes := tl (outcomes d)\<rparr>" and ?d2 = "d2\<lparr>outcomes := tl (outcomes d2)\<rparr>"
  have ok': "tables_ok coll ?d" by (rule tables_users [OF ok]) (use ok in \<open>simp_all add: tables_ok_def\<close>)
  have "transact (handle_friend_body gap u q accept) d = (Inr (Fr_Stored, out), d1)"
    using assms(2) by (auto simp: HandleFriendApply_def answer_def no_output_def split: prod.splits sum.splits)
  then have "answered q u accept out d1"
    using handled_settled [OF ok'] by (metis transact_Inr)
  then obtain x where x: "settled q x d1" "req_target x = u" "req_status x = (if accept then 1 else 2)"
    "(case req_thread_id x of None \<Rightarrow> 0 | Some t \<Rightarrow> t) = fo_thread_id out" "req_requester x = fo_peer_user_id out"
    unfolding answered_def by blast
  have x2: "settled q x d2" by (rule settled_db_steps [OF assms(3) x(1)])
  then have an: "answered q u accept out ?d2" unfolding answered_def using x(2-5) settled_keep [of q x d2 ?d2] by auto
  have "tables_ok coll d1" using tables_step [OF chat_handle [of coll d gap u q accept] ok] assms(2) by simp
  then have ok2: "tables_ok coll d2" using db_steps_grow [OF assms(3)] by blast
  have "x \<in> set (friend_requests d2)" using x2 by (auto simp: settled_def find_request_def dest: find_SomeD)
  then have "request_ok d2 x" using ok2 by (simp add: tables_ok_def requests_ok_def)
  then have "accept \<Longrightarrow> befriended x d2 \<and> (\<exists>c \<in> set (private_chats d2). req_thread_id x = Some (pc_thread_id c) \<and> chat_of_request x c)"
    using x(3) by (auto simp: request_ok_def)
  then have fr: "accept \<longrightarrow> are_friends (min (fo_peer_user_id out) u) (max (fo_peer_user_id out) u) d2
         \<and> (\<exists>c \<in> set (private_chats d2). pc_thread_id c = fo_thread_id out
              \<and> pc_lower c = min (fo_peer_user_id out) u \<and> pc_higher c = max (fo_peer_user_id out) u)"
    using x(2,4,5) unfolding befriended_def chat_of_request_def by (metis option.simps(5))
  obtain o3 where o3: "handle_friend_body gap' u q accept' ?d2 = ((if accept' = accept then Fr_Duplicate else Fr_AlreadyHandled, o3), True, ?d2)"
    "fo_thread_id o3 = fo_thread_id out" "fo_peer_user_id o3 = fo_peer_user_id out" by (rule handled_again [OF an])
  have "d3 = ?d2 \<and> (r = Fr_Failed \<and> outcomes d2 \<noteq> [] \<or> r = (if accept' = accept then Fr_Duplicate else Fr_AlreadyHandled) \<and> out2 = o3)"
    using assms(4) o3(1) by (auto simp: HandleFriendApply_def answer_def transact_def next_outcome_eq split: txn_outcome.splits list.splits)
  then show ?thesis using o3(2,3) fr by auto
qed

theorem friend_request_answered_once_witness:
  "let (a, d1) = HandleFriendApply 0 2 1 True run_request; (b, d2) = HandleFriendApply 0 2 1 False d1 in
   fst a = Fr_Stored \<and> fst b = Fr_AlreadyHandled \<and> fo_thread_id (snd b) = fo_thread_id (snd a) \<and> are_friends 1 2 d1"
proof -
  obtain a o1 d1 b o2 d2 where r: "HandleFriendApply 0 2 1 True run_request = ((a, o1), d1)"
    "HandleFriendApply 0 2 1 False d1 = ((b, o2), d2)" by (metis prod.exhaust)
  have "fst (fst (HandleFriendApply 0 2 1 True run_request)) = Fr_Stored"
    "fo_peer_user_id (snd (fst (HandleFriendApply 0 2 1 True run_request))) = 1"
    "outcomes (snd (HandleFriendApply 0 2 1 True run_request)) = []" by code_simp+
  then have a: "a = Fr_Stored" "fo_peer_user_id o1 = 1" "outcomes d1 = []" unfolding r by simp_all
  from friend_request_answered_once [OF run_reached(2) r(1) [unfolded a] rtranclp.rtrancl_refl r(2)] a
  show ?thesis unfolding r Let_def prod.case by (auto simp: numeral_2_eq_2)
qed

end
